(* ===== verification/Prelude.thy ===== *)
theory Prelude
  imports Main "HOL-Library.AList" "HOL-Library.Word" "HOL-Library.Sublist" "HOL-Library.Multiset"
begin

text \<open>
  Shared library of the development: the containers of the C++ standard library that the
  program uses, as lists, with the laws their documentation promises, and the generic
  lemmas and theorem collections of the component theories.

  A \<open>std::unordered_map\<close> is an association list with distinct keys and a
  \<open>std::unordered_set\<close> a list without repetition. The position of an element in the list
  is the (unspecified) iteration order; nothing in the development relies on a particular
  order, and the server's step relation may permute the containers at any time.
\<close>

named_theorems result_splits \<comment> \<open>case splits of results and options\<close>
named_theorems frame_simps \<comment> \<open>what an operation leaves alone\<close>
named_theorems wf_intros \<comment> \<open>operations keep the well-formedness invariants\<close>

declare sum.splits [result_splits] option.splits [result_splits] if_splits [result_splits]
  prod.splits [result_splits]

subsection \<open>Files\<close>

text \<open>A file system, as a stream opened for reading sees it: the contents behind a path, if it can be opened.\<close>

type_synonym files = "string \<Rightarrow> string option"

subsection \<open>std::unordered_map\<close>

type_synonym ('k, 'v) umap = "('k \<times> 'v) list"

definition umap_find :: "('k, 'v) umap \<Rightarrow> 'k \<Rightarrow> 'v option" where
  "umap_find m k = map_of m k"

definition umap_contains :: "('k, 'v) umap \<Rightarrow> 'k \<Rightarrow> bool" where
  "umap_contains m k \<longleftrightarrow> map_of m k \<noteq> None"

definition umap_emplace :: "'k \<Rightarrow> 'v \<Rightarrow> ('k, 'v) umap \<Rightarrow> ('k, 'v) umap" where
  "umap_emplace k v m = (if map_of m k = None then m @ [(k, v)] else m)"

definition umap_insert_or_assign :: "'k \<Rightarrow> 'v \<Rightarrow> ('k, 'v) umap \<Rightarrow> ('k, 'v) umap" where
  "umap_insert_or_assign k v m = AList.update k v m"

definition umap_erase :: "'k \<Rightarrow> ('k, 'v) umap \<Rightarrow> ('k, 'v) umap" where
  "umap_erase k m = AList.delete k m"

definition umap_wf :: "('k, 'v) umap \<Rightarrow> bool" where
  "umap_wf m \<longleftrightarrow> distinct (map fst m)"

text \<open>The contract of the map, with what a lookup returns after each operation.\<close>

locale map_container =
  fixes look :: "'m \<Rightarrow> 'k \<Rightarrow> 'v option"
    and emplace :: "'k \<Rightarrow> 'v \<Rightarrow> 'm \<Rightarrow> 'm"
    and assign :: "'k \<Rightarrow> 'v \<Rightarrow> 'm \<Rightarrow> 'm"
    and erase :: "'k \<Rightarrow> 'm \<Rightarrow> 'm"
    and wf :: "'m \<Rightarrow> bool"
  assumes look_emplace: "look (emplace k v m) k' =
        (if k' = k \<and> look m k = None then Some v else look m k')"
    and look_assign: "look (assign k v m) k' = (if k' = k then Some v else look m k')"
    and look_erase: "look (erase k m) k' = (if k' = k then None else look m k')"
    and wf_emplace: "wf m \<Longrightarrow> wf (emplace k v m)"
    and wf_assign: "wf m \<Longrightarrow> wf (assign k v m)"
    and wf_erase: "wf m \<Longrightarrow> wf (erase k m)"
begin

lemma look_assign_twice: "look (assign k w (assign k v m)) k' = look (assign k w m) k'"
  by (simp add: look_assign)

lemma look_erase_emplace:
  "look m k = None \<Longrightarrow> look (erase k (emplace k v m)) k' = look m k'"
  by (simp add: look_erase look_emplace)

lemma look_emplace_fresh:
  "look m k = None \<Longrightarrow> look (emplace k v m) k' = look (assign k v m) k'"
  by (simp add: look_emplace look_assign)

end

interpretation umap: map_container umap_find umap_emplace umap_insert_or_assign umap_erase umap_wf
  by unfold_locales
    (auto simp: umap_find_def umap_emplace_def umap_insert_or_assign_def umap_erase_def umap_wf_def
      update_conv' delete_conv' distinct_update distinct_delete map_add_def
      dest: map_of_SomeD split: option.splits simp flip: map_of_eq_None_iff)

lemmas umap_look [simp] = umap.look_emplace umap.look_assign umap.look_erase
lemmas umap_wf_ops [simp, wf_intros] = umap.wf_emplace umap.wf_assign umap.wf_erase

lemma umap_find_Nil [simp]: "umap_find [] k = None"
  by (simp add: umap_find_def)

lemma umap_wf_Nil [simp]: "umap_wf []"
  by (simp add: umap_wf_def)

lemma umap_contains_find [simp]: "umap_contains m k \<longleftrightarrow> umap_find m k \<noteq> None"
  by (simp add: umap_contains_def umap_find_def)

lemma umap_find_mem: "umap_find m k = Some v \<Longrightarrow> (k, v) \<in> set m"
  by (simp add: umap_find_def map_of_SomeD)

lemma umap_mem_iff: "umap_wf m \<Longrightarrow> (k, v) \<in> set m \<longleftrightarrow> umap_find m k = Some v"
  by (simp add: umap_find_def umap_wf_def)

lemma umap_find_perm:
  assumes wf: "umap_wf m" and eq: "mset m' = mset m"
  shows "umap_find m' k = umap_find m k"
proof -
  have keys: "mset (map fst m') = mset (map fst m)"
    using eq by (metis mset_map)
  have "distinct (map fst m')"
    using wf mset_eq_imp_distinct_iff [OF keys] by (simp add: umap_wf_def)
  then show "umap_find m' k = umap_find m k"
    using wf mset_eq_setD [OF eq] map_of_inject_set [of m' m]
    by (simp add: umap_find_def umap_wf_def)
qed

lemma umap_wf_perm:
  assumes "umap_wf m" and "mset m' = mset m"
  shows "umap_wf m'"
proof -
  have "mset (map fst m') = mset (map fst m)"
    using assms(2) by (metis mset_map)
  from mset_eq_imp_distinct_iff [OF this] show ?thesis
    using assms(1) by (simp add: umap_wf_def)
qed

lemma length_umap_assign:
  "umap_find m k = Some v' \<Longrightarrow> length (umap_insert_or_assign k v m) = length m"
  by (induction m) (auto simp: umap_find_def umap_insert_or_assign_def split: if_splits)

subsection \<open>std::unordered_set\<close>

definition uset_insert :: "'a \<Rightarrow> 'a list \<Rightarrow> 'a list" where
  "uset_insert x xs = (if x \<in> set xs then xs else xs @ [x])"

definition uset_erase :: "'a \<Rightarrow> 'a list \<Rightarrow> 'a list" where
  "uset_erase x xs = filter (\<lambda>y. y \<noteq> x) xs"

lemma set_uset_insert [simp]: "set (uset_insert x xs) = insert x (set xs)"
  by (auto simp: uset_insert_def)

lemma set_uset_erase [simp]: "set (uset_erase x xs) = set xs - {x}"
  by (auto simp: uset_erase_def)

lemma distinct_uset_insert [simp, wf_intros]: "distinct xs \<Longrightarrow> distinct (uset_insert x xs)"
  by (simp add: uset_insert_def)

lemma distinct_uset_erase [simp, wf_intros]: "distinct xs \<Longrightarrow> distinct (uset_erase x xs)"
  by (simp add: uset_erase_def)

lemma length_uset_insert: "x \<notin> set xs \<Longrightarrow> length (uset_insert x xs) = Suc (length xs)"
  by (simp add: uset_insert_def)

lemma length_uset_erase:
  assumes "distinct xs" and "x \<in> set xs"
  shows "length (uset_erase x xs) = length xs - 1"
proof -
  have "length (uset_erase x xs) = card (set xs - {x})"
    using assms(1) by (metis distinct_card distinct_uset_erase set_uset_erase)
  then show ?thesis
    using assms by (simp add: distinct_card)
qed

lemma uset_erase_insert: "x \<notin> set xs \<Longrightarrow> uset_erase x (uset_insert x xs) = xs"
  by (induction xs) (auto simp: uset_insert_def uset_erase_def filter_id_conv)

subsection \<open>Reachable states of a transition system\<close>

inductive reaches :: "('s \<Rightarrow> bool) \<Rightarrow> ('s \<Rightarrow> 's \<Rightarrow> bool) \<Rightarrow> 's \<Rightarrow> bool"
  for start :: "'s \<Rightarrow> bool" and step :: "'s \<Rightarrow> 's \<Rightarrow> bool"
where
  reaches_start: "start s \<Longrightarrow> reaches start step s"
| reaches_step: "reaches start step s \<Longrightarrow> step s t \<Longrightarrow> reaches start step t"

text \<open>An inductive invariant of a transition system, proved once for all of its uses.\<close>

locale invariant_system =
  fixes start :: "'s \<Rightarrow> bool"
    and step :: "'s \<Rightarrow> 's \<Rightarrow> bool"
    and inv :: "'s \<Rightarrow> bool"
  assumes inv_start: "start s \<Longrightarrow> inv s"
    and inv_step: "inv s \<Longrightarrow> step s t \<Longrightarrow> inv t"
begin

lemma reaches_inv: "reaches start step s \<Longrightarrow> inv s"
  by (induction rule: reaches.induct) (auto intro: inv_start inv_step)

end

end
