(* ===== verification/Shared_Library.thy ===== *)
theory Shared_Library
  imports Prelude "HOL-Library.List_Lexorder" "HOL-Library.Char_ord"
begin

text \<open>
  The library shared by server and client (\<open>shared/\<close>): the error codes and their texts
  (\<open>result.hpp\<close>, \<open>result.cpp\<close>), the trimming of strings (\<open>string_utils.cpp\<close>) and the typed
  identifiers (\<open>ids.hpp\<close>). A \<open>std::string\<close> is a list of bytes, a \<open>Result<T>\<close> a sum with the
  error on the left.
\<close>

subsection \<open>Errors and results\<close>

datatype error =
    ChannelNotFound | ChannelAlreadyExists | ClientNotFound | ClientAlreadyExists
  | AlreadyMember | NotAMember | MessageEmpty | MessageInvalidPrefix | MessageTooLong
  | InvalidUsername | InvalidChannelName | InvalidArgument | StorageError | NetworkError
  | NotImplemented

type_synonym 'a result = "error + 'a"

abbreviation unexpected :: "error \<Rightarrow> 'a result" where
  "unexpected \<equiv> Inl"

fun error_message :: "error \<Rightarrow> string" where
  "error_message ChannelNotFound = ''channel not found''"
| "error_message ChannelAlreadyExists = ''channel already exists''"
| "error_message ClientNotFound = ''client not found''"
| "error_message ClientAlreadyExists = ''client already exists''"
| "error_message AlreadyMember = ''already a member''"
| "error_message NotAMember = ''not a member''"
| "error_message MessageEmpty = ''message is empty''"
| "error_message MessageInvalidPrefix = ''message must not start with '' @ [CHR 0x27] @ ''/'' @ [CHR 0x27]"
| "error_message MessageTooLong = ''message too long''"
| "error_message InvalidUsername = ''invalid username''"
| "error_message InvalidChannelName = ''invalid channel name (allowed: 1-64 chars of [a-zA-Z0-9-])''"
| "error_message InvalidArgument = ''invalid argument''"
| "error_message StorageError = ''storage error''"
| "error_message NetworkError = ''network error''"
| "error_message NotImplemented = ''not implemented''"

text \<open>The texts identify the errors.\<close>

lemma error_message_inj: "error_message e = error_message e' \<Longrightarrow> e = e'"
  by (cases e; cases e') simp_all

subsection \<open>Trimming\<close>

text \<open>\<open>std::isspace\<close> in the \<open>"C"\<close> locale: tab, newline, vertical tab, form feed, carriage
  return and space.\<close>

definition is_ascii_space :: "char \<Rightarrow> bool" where
  "is_ascii_space character =
     (let byte = (of_char character :: nat) in (9 \<le> byte \<and> byte \<le> 13) \<or> byte = 32)"

fun trim_front :: "string \<Rightarrow> string" where
  "trim_front [] = []"
| "trim_front (c # cs) = (if is_ascii_space c then trim_front cs else c # cs)"

function trim_back :: "string \<Rightarrow> string" where
  "trim_back input =
     (if input \<noteq> [] \<and> is_ascii_space (last input) then trim_back (butlast input) else input)"
  by pat_completeness auto
termination
  by (relation "measure length") auto

declare trim_back.simps [simp del]

definition trim :: "string \<Rightarrow> string" where
  "trim input = trim_back (trim_front input)"

definition trim_copy :: "string \<Rightarrow> string" where
  "trim_copy input = trim input"

lemma trim_front_dropWhile: "trim_front s = dropWhile is_ascii_space s"
  by (induction s) auto

lemma trim_back_snoc: "trim_back (s @ [c]) = (if is_ascii_space c then trim_back s else s @ [c])"
  by (subst trim_back.simps) simp

lemma trim_back_Nil [simp]: "trim_back [] = []"
  by (subst trim_back.simps) simp

lemma trim_back_dropWhile: "trim_back s = rev (dropWhile is_ascii_space (rev s))"
  by (induction s rule: rev_induct) (auto simp: trim_back_snoc)

text \<open>What the two loops leave: nothing, or a string that neither starts nor ends in a space.\<close>

definition trimmed :: "string \<Rightarrow> bool" where
  "trimmed s \<longleftrightarrow> (s \<noteq> [] \<longrightarrow> \<not> is_ascii_space (hd s) \<and> \<not> is_ascii_space (last s))"

lemma trim_front_spaces: "\<forall>c\<in>set a. is_ascii_space c \<Longrightarrow> trim_front (a @ s) = trim_front s"
  by (induction a) auto

lemma trim_back_spaces: "\<forall>c\<in>set b. is_ascii_space c \<Longrightarrow> trim_back (s @ b) = trim_back s"
  by (induction b rule: rev_induct) (auto simp: trim_back_snoc simp flip: append_assoc)

lemma trim_front_id: "s = [] \<or> \<not> is_ascii_space (hd s) \<Longrightarrow> trim_front s = s"
  by (cases s) auto

lemma trim_back_id: "s = [] \<or> \<not> is_ascii_space (last s) \<Longrightarrow> trim_back s = s"
  by (subst trim_back.simps) auto

lemma trim_trimmed_id: "trimmed s \<Longrightarrow> trim s = s"
  by (auto simp: trim_def trimmed_def trim_front_id trim_back_id)

lemma trim_front_split:
  "\<exists>a. s = a @ trim_front s \<and> (\<forall>c\<in>set a. is_ascii_space c)"
  by (rule exI [of _ "takeWhile is_ascii_space s"])
    (auto simp: trim_front_dropWhile dest: set_takeWhileD)

lemma trim_back_split:
  "\<exists>b. s = trim_back s @ b \<and> (\<forall>c\<in>set b. is_ascii_space c)"
proof -
  have "rev s = takeWhile is_ascii_space (rev s) @ dropWhile is_ascii_space (rev s)"
    by simp
  then have "s = trim_back s @ rev (takeWhile is_ascii_space (rev s))"
    by (metis rev_append rev_rev_ident trim_back_dropWhile)
  then show ?thesis
    by (metis set_rev set_takeWhileD)
qed

lemma trim_front_hd: "trim_front s \<noteq> [] \<Longrightarrow> \<not> is_ascii_space (hd (trim_front s))"
  by (induction s) auto

lemma trim_back_last: "trim_back s \<noteq> [] \<Longrightarrow> \<not> is_ascii_space (last (trim_back s))"
  by (induction s rule: rev_induct) (auto simp: trim_back_snoc)

lemma trim_back_hd: "trim_back s \<noteq> [] \<Longrightarrow> hd (trim_back s) = hd s"
  using trim_back_split [of s] by (metis hd_append2)

lemma trimmed_trim [simp, intro]: "trimmed (trim s)"
proof (cases "trim s = []")
  case False
  then have "hd (trim s) = hd (trim_front s)" "trim_front s \<noteq> []"
    by (auto simp: trim_def trim_back_hd)
  then show ?thesis
    using False trim_front_hd [of s] trim_back_last [of "trim_front s"]
    by (simp add: trimmed_def trim_def)
qed (simp add: trimmed_def)

lemma trim_idem [simp]: "trim (trim s) = trim s"
  by (simp add: trim_trimmed_id)

lemma trim_copy_eq [simp]: "trim_copy s = trim s"
  by (simp add: trim_copy_def)

lemma trim_split:
  "\<exists>a b. s = a @ trim s @ b \<and> (\<forall>c\<in>set a \<union> set b. is_ascii_space c)"
proof -
  obtain a where a: "s = a @ trim_front s" "\<forall>c\<in>set a. is_ascii_space c"
    using trim_front_split by blast
  obtain b where b: "trim_front s = trim s @ b" "\<forall>c\<in>set b. is_ascii_space c"
    using trim_back_split [of "trim_front s"] by (auto simp: trim_def)
  have "s = a @ trim s @ b"
    using a(1) b(1) by simp
  then show ?thesis
    using a(2) b(2) by blast
qed

lemma length_trim_le: "length (trim s) \<le> length s"
proof -
  obtain a b where "s = a @ trim s @ b"
    using trim_split by blast
  then have "length s = length a + (length (trim s) + length b)"
    by (metis length_append)
  then show ?thesis by linarith
qed

text \<open>
  \<open>trim\<close> is exactly "remove the surrounding white space": for every string there is a
  split into white space, core and white space whose core neither starts nor ends in white
  space, \<open>trim\<close> returns the core, and any such split of the string has that same core.
\<close>

theorem trim_unique_core:
  "(\<exists>a b. s = a @ trim s @ b \<and> (\<forall>c\<in>set a \<union> set b. is_ascii_space c)) \<and> trimmed (trim s) \<and>
   (\<forall>a t b. s = a @ t @ b \<longrightarrow> (\<forall>c\<in>set a \<union> set b. is_ascii_space c) \<longrightarrow> trimmed t \<longrightarrow> trim s = t)"
proof (intro conjI allI impI)
  fix a t b
  assume s: "s = a @ t @ b" and sp: "\<forall>c\<in>set a \<union> set b. is_ascii_space c" and t: "trimmed t"
  show "trim s = t"
  proof (cases "t = []")
    case True
    then have "trim_front s = []"
      using s sp by (simp add: trim_front_dropWhile)
    with True show ?thesis by (simp add: trim_def)
  next
    case False
    have "trim_front s = t @ b"
      using s sp t False by (simp add: trim_front_spaces trim_front_id trimmed_def)
    then show ?thesis
      using sp t False by (simp add: trim_def trim_back_spaces trim_back_id trimmed_def)
  qed
qed (auto intro: trim_split)

theorem trim_unique_core_witness: "trim ''  /join general '' = ''/join general''"
proof -
  have "trimmed ''/join general''"
    by (simp add: trimmed_def is_ascii_space_def)
  moreover have "\<forall>c\<in>set ''  '' \<union> set '' ''. is_ascii_space c"
    by (simp add: is_ascii_space_def)
  moreover have "''  /join general '' = ''  '' @ ''/join general'' @ '' ''"
    by simp
  ultimately show ?thesis
    using trim_unique_core [of "''  /join general ''"] by blast
qed

subsection \<open>Log levels\<close>

datatype LogLevel = Trace | Debug | Info | Warn | Error | Critical | Off

subsection \<open>Identifiers\<close>

text \<open>
  \<open>StrongId<Tag>\<close> is a string with a phantom tag. Generating and parsing it rests on the UUID
  library, which is a parameter: the record holds the three functions of it that the program
  calls and the resolution of the system clock, the other platform dependent value the program
  uses. A generated identifier is given by the random UUID \<open>u\<close> the library draws.
\<close>

datatype (dead 'tag) strong_id = StrongId (id_value: string)

datatype channel_id_tag = ChannelIdTag
datatype client_id_tag = ClientIdTag
datatype message_id_tag = MessageIdTag

type_synonym channel_id = "channel_id_tag strong_id"
type_synonym client_id = "client_id_tag strong_id"
type_synonym message_id = "message_id_tag strong_id"

record 'u platform =
  uuid_from_string :: "string \<Rightarrow> 'u option"
  uuid_is_nil :: "'u \<Rightarrow> bool"
  uuid_to_string :: "'u \<Rightarrow> string"
  clock_ticks_per_ms :: int

definition strong_id_generate :: "'u platform \<Rightarrow> 'u \<Rightarrow> 'tag strong_id" where
  "strong_id_generate P u = StrongId (uuid_to_string P u)"

definition strong_id_parse :: "'u platform \<Rightarrow> string \<Rightarrow> 'tag strong_id option" where
  "strong_id_parse P str =
     (case uuid_from_string P str of
        None \<Rightarrow> None
      | Some parsed_uuid \<Rightarrow>
          if uuid_is_nil P parsed_uuid then None else Some (StrongId (uuid_to_string P parsed_uuid)))"

text \<open>The order of \<open>StrongId\<close> is the order of the strings.\<close>

definition strong_id_less :: "'a strong_id \<Rightarrow> 'a strong_id \<Rightarrow> bool" where
  "strong_id_less i j \<longleftrightarrow> id_value i < id_value j"

instantiation strong_id :: (type) linorder
begin

definition less_eq_strong_id :: "'a strong_id \<Rightarrow> 'a strong_id \<Rightarrow> bool" where
  "less_eq_strong_id i j \<longleftrightarrow> id_value i \<le> id_value j"

definition less_strong_id :: "'a strong_id \<Rightarrow> 'a strong_id \<Rightarrow> bool" where
  "less_strong_id i j \<longleftrightarrow> strong_id_less i j"

instance
  by standard (auto simp: less_eq_strong_id_def less_strong_id_def strong_id_less_def strong_id.expand)

end

text \<open>
  What the program relies on in the UUID library: the canonical text of a UUID parses back to
  it and consists of 36 lower-case hexadecimal digits and hyphens.
\<close>

definition is_uuid_char :: "char \<Rightarrow> bool" where
  "is_uuid_char c \<longleftrightarrow> c \<in> set ''0123456789abcdef-''"

definition uuid_contract :: "'u platform \<Rightarrow> bool" where
  "uuid_contract P \<longleftrightarrow>
     (\<forall>u. uuid_from_string P (uuid_to_string P u) = Some u \<and>
          length (uuid_to_string P u) = 36 \<and> (\<forall>c\<in>set (uuid_to_string P u). is_uuid_char c))"

lemma uuid_char_not_space: "is_uuid_char c \<Longrightarrow> \<not> is_ascii_space c"
  by (auto simp: is_uuid_char_def is_ascii_space_def)

lemma uuid_text_length: "uuid_contract P \<Longrightarrow> length (uuid_to_string P u) = 36"
  by (simp add: uuid_contract_def)

lemma uuid_text_chars: "uuid_contract P \<Longrightarrow> c \<in> set (uuid_to_string P u) \<Longrightarrow> is_uuid_char c"
  by (auto simp: uuid_contract_def)

lemma trim_uuid_text:
  assumes "uuid_contract P"
  shows "trim (uuid_to_string P u) = uuid_to_string P u"
proof -
  have "uuid_to_string P u \<noteq> []"
    using uuid_text_length [OF assms, of u] by auto
  then have "trimmed (uuid_to_string P u)"
    using uuid_text_chars [OF assms, of _ u] uuid_char_not_space
    by (meson hd_in_set last_in_set trimmed_def)
  then show ?thesis
    by (rule trim_trimmed_id)
qed

lemma strong_id_parse_uuid_text:
  "uuid_contract P \<Longrightarrow> strong_id_parse P (uuid_to_string P u) =
     (if uuid_is_nil P u then None else Some (StrongId (uuid_to_string P u)))"
  by (simp add: strong_id_parse_def uuid_contract_def)

lemma strong_id_parse_SomeE:
  assumes "strong_id_parse P s = Some i"
  obtains u where "uuid_from_string P s = Some u" "\<not> uuid_is_nil P u" "i = strong_id_generate P u"
  using assms by (auto simp: strong_id_parse_def strong_id_generate_def split: result_splits)

text \<open>
  Identifiers are canonical. Whatever spelling of a UUID the parser accepts, the text of the
  resulting identifier parses to that same identifier, with or without surrounding white space
  removed; the same holds for every generated identifier that is not the nil UUID.
\<close>

theorem strong_id_canonical:
  assumes "uuid_contract P"
  shows "(\<forall>s i. strong_id_parse P s = Some (i :: 'tag strong_id) \<longrightarrow>
            strong_id_parse P (trim (id_value i)) = Some i) \<and>
         (\<forall>u. \<not> uuid_is_nil P u \<longrightarrow>
            strong_id_parse P (trim (id_value (strong_id_generate P u :: 'tag strong_id))) =
              Some (strong_id_generate P u :: 'tag strong_id))"
  using assms
  by (auto elim!: strong_id_parse_SomeE
      simp: strong_id_generate_def trim_uuid_text strong_id_parse_uuid_text)

text \<open>A platform with four UUIDs, on which the hypotheses of the development are tried out.\<close>

datatype demo_uuid = U0 | U1 | U2 | U3 | U4 | U5

fun demo_text :: "demo_uuid \<Rightarrow> string" where
  "demo_text U0 = ''00000000-0000-0000-0000-000000000000''"
| "demo_text U1 = ''11111111-1111-4111-8111-111111111111''"
| "demo_text U2 = ''22222222-2222-4222-8222-222222222222''"
| "demo_text U3 = ''33333333-3333-4333-8333-333333333333''"
| "demo_text U4 = ''44444444-4444-4444-8444-444444444444''"
| "demo_text U5 = ''55555555-5555-4555-8555-555555555555''"

definition demo_platform :: "demo_uuid platform" where
  "demo_platform =
     \<lparr>uuid_from_string = (\<lambda>s. if s = demo_text U0 then Some U0 else if s = demo_text U1 then Some U1
        else if s = demo_text U2 then Some U2 else if s = demo_text U3 then Some U3
        else if s = demo_text U4 then Some U4 else if s = demo_text U5 then Some U5 else None),
      uuid_is_nil = (\<lambda>u. u = U0), uuid_to_string = demo_text, clock_ticks_per_ms = 1000\<rparr>"

lemma demo_contract: "uuid_contract demo_platform"
  unfolding uuid_contract_def
proof
  fix u
  show "uuid_from_string demo_platform (uuid_to_string demo_platform u) = Some u \<and>
      length (uuid_to_string demo_platform u) = 36 \<and>
      (\<forall>c\<in>set (uuid_to_string demo_platform u). is_uuid_char c)"
    by (cases u) (simp_all add: demo_platform_def is_uuid_char_def)
qed

lemma demo_text_inj [simp]: "demo_text u = demo_text v \<longleftrightarrow> u = v"
  by (cases u; cases v) simp_all

declare demo_text.simps [simp del]

lemma demo_parse [simp]:
  "u \<noteq> U0 \<Longrightarrow> strong_id_parse demo_platform (demo_text u) = Some (StrongId (demo_text u))"
  by (cases u) (simp_all add: strong_id_parse_def demo_platform_def)

theorem strong_id_canonical_witness:
  "strong_id_parse demo_platform (trim (demo_text U1)) =
     Some (StrongId (demo_text U1) :: client_id)"
proof -
  have "\<not> uuid_is_nil demo_platform U1"
    by (simp add: demo_platform_def)
  then have "strong_id_parse demo_platform (trim (id_value (strong_id_generate demo_platform U1 :: client_id))) =
      Some (strong_id_generate demo_platform U1 :: client_id)"
    using strong_id_canonical [OF demo_contract, where ?'tag = client_id_tag] by blast
  then show ?thesis
    by (simp add: strong_id_generate_def demo_platform_def)
qed

end
