(* ===== verification/Domain.thy ===== *)
theory Domain
  imports Shared_Library
begin

text \<open>
  The domain layer of the server (\<open>server/src/domain\<close>): the validated value objects
  \<open>Username\<close>, \<open>ChannelName\<close> and \<open>MessageContent\<close>, the entities \<open>Channel\<close>, \<open>ClientSession\<close> and
  \<open>Message\<close>, and the routing of messages. Times are tick counts; the value a clock returns is an
  argument of the operation that reads it.
\<close>

subsection \<open>Value objects\<close>

text \<open>\<open>std::isalnum\<close> in the \<open>"C"\<close> locale.\<close>

definition is_alnum :: "char \<Rightarrow> bool" where
  "is_alnum character =
     (let byte = (of_char character :: nat)
      in (48 \<le> byte \<and> byte \<le> 57) \<or> (65 \<le> byte \<and> byte \<le> 90) \<or> (97 \<le> byte \<and> byte \<le> 122))"

datatype username = Username (username_value: string)
datatype channel_name = ChannelName (channel_name_value: string)
datatype message_content = MessageContent (content_value: string)

definition username_allowed_char :: "char \<Rightarrow> bool" where
  "username_allowed_char c \<longleftrightarrow> is_alnum c \<or> c = CHR ''_'' \<or> c = CHR ''-''"

definition Username_create :: "string \<Rightarrow> username option" where
  "Username_create raw =
     (if length raw < 1 \<or> length raw > 32 then None
      else if list_ex (\<lambda>c. \<not> username_allowed_char c) raw then None
      else Some (Username raw))"

definition channel_name_allowed_char :: "char \<Rightarrow> bool" where
  "channel_name_allowed_char c \<longleftrightarrow> is_alnum c \<or> c = CHR ''-''"

definition ChannelName_create :: "string \<Rightarrow> channel_name option" where
  "ChannelName_create raw =
     (if length raw < 1 \<or> length raw > 64 then None
      else if list_ex (\<lambda>c. \<not> channel_name_allowed_char c) raw then None
      else Some (ChannelName raw))"

text \<open>\<open>message_content.cpp\<close> has its own copy of the trimming loops.\<close>

definition is_whitespace :: "char \<Rightarrow> bool" where
  "is_whitespace character =
     (let byte = (of_char character :: nat) in (9 \<le> byte \<and> byte \<le> 13) \<or> byte = 32)"

fun content_trim_front :: "string \<Rightarrow> string" where
  "content_trim_front [] = []"
| "content_trim_front (c # cs) = (if is_whitespace c then content_trim_front cs else c # cs)"

function content_trim_back :: "string \<Rightarrow> string" where
  "content_trim_back raw =
     (if raw \<noteq> [] \<and> is_whitespace (last raw) then content_trim_back (butlast raw) else raw)"
  by pat_completeness auto
termination
  by (relation "measure length") auto

declare content_trim_back.simps [simp del]

definition content_trim :: "string \<Rightarrow> string" where
  "content_trim raw = content_trim_back (content_trim_front raw)"

definition MessageContent_create :: "string \<Rightarrow> message_content result" where
  "MessageContent_create raw =
     (let trimmed_raw = content_trim raw in
      if trimmed_raw = [] then unexpected MessageEmpty
      else if length trimmed_raw > 4096 then unexpected MessageTooLong
      else if hd trimmed_raw = CHR ''/'' then unexpected MessageInvalidPrefix
      else Inr (MessageContent trimmed_raw))"

lemma is_whitespace_eq: "is_whitespace = is_ascii_space"
  by (simp add: fun_eq_iff is_whitespace_def is_ascii_space_def)

lemma content_trim_front_eq: "content_trim_front s = trim_front s"
  by (induction s) (simp_all add: is_whitespace_eq)

lemma content_trim_back_eq: "content_trim_back s = trim_back s"
proof (induction s rule: rev_induct)
  case Nil
  show ?case by (subst content_trim_back.simps) simp
next
  case (snoc c s)
  then show ?case by (subst content_trim_back.simps) (simp add: is_whitespace_eq trim_back_snoc)
qed

lemma content_trim_eq: "content_trim = trim"
  by (simp add: fun_eq_iff content_trim_def trim_def content_trim_front_eq content_trim_back_eq)

definition valid_username :: "string \<Rightarrow> bool" where
  "valid_username s \<longleftrightarrow> 1 \<le> length s \<and> length s \<le> 32 \<and> (\<forall>c\<in>set s. username_allowed_char c)"

definition valid_channel_name :: "string \<Rightarrow> bool" where
  "valid_channel_name s \<longleftrightarrow>
     1 \<le> length s \<and> length s \<le> 64 \<and> (\<forall>c\<in>set s. channel_name_allowed_char c)"

definition valid_content :: "string \<Rightarrow> bool" where
  "valid_content s \<longleftrightarrow> trimmed s \<and> 1 \<le> length s \<and> length s \<le> 4096 \<and> hd s \<noteq> CHR ''/''"

lemma Username_create_iff: "Username_create raw = Some u \<longleftrightarrow> valid_username raw \<and> u = Username raw"
  by (auto simp: Username_create_def valid_username_def list_ex_iff not_less Suc_le_eq)

lemma Username_create_None: "Username_create raw = None \<longleftrightarrow> \<not> valid_username raw"
  using Username_create_iff [of raw] by (cases "Username_create raw") auto

lemma ChannelName_create_iff:
  "ChannelName_create raw = Some n \<longleftrightarrow> valid_channel_name raw \<and> n = ChannelName raw"
  by (auto simp: ChannelName_create_def valid_channel_name_def list_ex_iff not_less Suc_le_eq)

lemma ChannelName_create_None: "ChannelName_create raw = None \<longleftrightarrow> \<not> valid_channel_name raw"
  using ChannelName_create_iff [of raw] by (cases "ChannelName_create raw") auto

lemma alnum_not_space: "is_alnum c \<Longrightarrow> \<not> is_ascii_space c"
  by (auto simp: is_alnum_def is_ascii_space_def Let_def)

lemma username_char_not_space: "username_allowed_char c \<Longrightarrow> \<not> is_ascii_space c"
  by (auto simp: username_allowed_char_def alnum_not_space) (simp_all add: is_ascii_space_def)

lemma channel_name_char_not_space: "channel_name_allowed_char c \<Longrightarrow> \<not> is_ascii_space c"
  by (auto simp: channel_name_allowed_char_def alnum_not_space) (simp_all add: is_ascii_space_def)

lemma trimmed_if_no_space: "(\<forall>c\<in>set s. \<not> is_ascii_space c) \<Longrightarrow> trimmed s"
  by (simp add: trimmed_def)

lemma trim_valid_channel_name: "valid_channel_name s \<Longrightarrow> trim s = s"
  by (intro trim_trimmed_id trimmed_if_no_space)
    (auto simp: valid_channel_name_def dest: channel_name_char_not_space)

lemma trim_valid_username: "valid_username s \<Longrightarrow> trim s = s"
  by (intro trim_trimmed_id trimmed_if_no_space)
    (auto simp: valid_username_def dest: username_char_not_space)

lemma uuid_char_channel_name: "is_uuid_char c \<Longrightarrow> channel_name_allowed_char c"
  by (auto simp: is_uuid_char_def channel_name_allowed_char_def is_alnum_def)

lemma uuid_text_valid_channel_name:
  "uuid_contract P \<Longrightarrow> valid_channel_name (uuid_to_string P u)"
  using uuid_text_length [of P u] uuid_text_chars [of P _ u]
  by (simp add: valid_channel_name_def uuid_char_channel_name)

text \<open>
  \<open>MessageContent::create\<close> decides on the trimmed text alone: the stored value is that text,
  it is accepted exactly when it has 1 to 4096 bytes and no leading slash, each rejection names
  its reason, and validating a stored value again returns it unchanged.
\<close>

theorem MessageContent_create_spec:
  "MessageContent_create raw =
     (if trim raw = [] then Inl MessageEmpty
      else if length (trim raw) > 4096 then Inl MessageTooLong
      else if hd (trim raw) = CHR ''/'' then Inl MessageInvalidPrefix
      else Inr (MessageContent (trim raw))) \<and>
   ((\<exists>c. MessageContent_create raw = Inr c) \<longleftrightarrow> valid_content (trim raw)) \<and>
   (\<forall>c. MessageContent_create raw = Inr c \<longrightarrow>
      valid_content (content_value c) \<and> MessageContent_create (content_value c) = Inr c)"
  by (auto simp: MessageContent_create_def content_trim_eq valid_content_def Suc_le_eq
      split: if_splits)

theorem MessageContent_create_spec_witness:
  "MessageContent_create '' hello '' = Inr (MessageContent ''hello'') \<and>
   MessageContent_create ''hello'' = Inr (MessageContent ''hello'') \<and>
   MessageContent_create '' /join x'' = Inl MessageInvalidPrefix"
proof -
  have t: "trim '' hello '' = ''hello''" "trim '' /join x'' = ''/join x''"
    by (simp_all add: trim_def trim_back.simps is_ascii_space_def)
  then have "MessageContent_create '' hello '' = Inr (MessageContent ''hello'')"
    using MessageContent_create_spec [of "'' hello ''"] by simp
  then have "MessageContent_create (content_value (MessageContent ''hello'')) = Inr (MessageContent ''hello'')"
    using MessageContent_create_spec [of "'' hello ''"] by blast
  then show ?thesis
    using MessageContent_create_spec [of "'' /join x''"] t
      \<open>MessageContent_create '' hello '' = Inr (MessageContent ''hello'')\<close> by simp
qed

subsection \<open>Messages, channels and sessions\<close>

record message =
  msg_id :: message_id
  msg_sender_id :: client_id
  msg_channel_id :: channel_id
  msg_content :: message_content
  msg_sent_at :: int

record channel =
  chan_id :: channel_id
  chan_name :: channel_name
  chan_members :: "client_id list"
  chan_created_at :: int

definition new_channel :: "channel_id \<Rightarrow> channel_name \<Rightarrow> int \<Rightarrow> channel" where
  "new_channel i name system_now =
     \<lparr>chan_id = i, chan_name = name, chan_members = [], chan_created_at = system_now\<rparr>"

definition memberCount :: "channel \<Rightarrow> nat" where
  "memberCount ch = length (chan_members ch)"

definition addMember :: "client_id \<Rightarrow> channel \<Rightarrow> unit result \<times> channel" where
  "addMember c ch =
     (let inserted = c \<notin> set (chan_members ch);
          ch' = ch\<lparr>chan_members := uset_insert c (chan_members ch)\<rparr>
      in if \<not> inserted then (unexpected AlreadyMember, ch') else (Inr (), ch'))"

definition removeMember :: "client_id \<Rightarrow> channel \<Rightarrow> unit result \<times> channel" where
  "removeMember c ch =
     (let removed = length (filter (\<lambda>m. m = c) (chan_members ch));
          ch' = ch\<lparr>chan_members := uset_erase c (chan_members ch)\<rparr>
      in if removed = 0 then (unexpected NotAMember, ch') else (Inr (), ch'))"

definition hasMember :: "client_id \<Rightarrow> channel \<Rightarrow> bool" where
  "hasMember c ch \<longleftrightarrow> c \<in> set (chan_members ch)"

record session =
  sess_id :: client_id
  sess_username :: username
  sess_joined :: "channel_id list"
  sess_connected_since :: int
  sess_last_heartbeat :: int

definition new_session :: "client_id \<Rightarrow> username \<Rightarrow> int \<Rightarrow> int \<Rightarrow> session" where
  "new_session i name system_now steady_now =
     \<lparr>sess_id = i, sess_username = name, sess_joined = [],
      sess_connected_since = system_now, sess_last_heartbeat = steady_now\<rparr>"

definition touch :: "int \<Rightarrow> session \<Rightarrow> session" where
  "touch steady_now s = s\<lparr>sess_last_heartbeat := steady_now\<rparr>"

definition isExpired :: "int \<Rightarrow> session \<Rightarrow> bool" where
  "isExpired deadline s \<longleftrightarrow> sess_last_heartbeat s < deadline"

definition session_joinChannel :: "channel_id \<Rightarrow> session \<Rightarrow> session" where
  "session_joinChannel ch s = s\<lparr>sess_joined := uset_insert ch (sess_joined s)\<rparr>"

definition session_leaveChannel :: "channel_id \<Rightarrow> session \<Rightarrow> session" where
  "session_leaveChannel ch s = s\<lparr>sess_joined := uset_erase ch (sess_joined s)\<rparr>"

definition isInChannel :: "channel_id \<Rightarrow> session \<Rightarrow> bool" where
  "isInChannel ch s \<longleftrightarrow> ch \<in> set (sess_joined s)"

text \<open>The results of adding and removing a member, without the intermediate names.\<close>

lemma addMember_eq [simp]:
  "addMember c ch =
     (if hasMember c ch then (Inl AlreadyMember, ch)
      else (Inr (), ch\<lparr>chan_members := chan_members ch @ [c]\<rparr>))"
  by (simp add: addMember_def hasMember_def uset_insert_def Let_def)

lemma removeMember_eq [simp]:
  "removeMember c ch =
     (if hasMember c ch then (Inr (), ch\<lparr>chan_members := uset_erase c (chan_members ch)\<rparr>)
      else (Inl NotAMember, ch))"
proof (cases "hasMember c ch")
  case False
  then have "uset_erase c (chan_members ch) = chan_members ch"
    by (auto simp: hasMember_def uset_erase_def filter_id_conv)
  with False show ?thesis
    by (auto simp: removeMember_def hasMember_def filter_empty_conv Let_def)
qed (auto simp: removeMember_def hasMember_def filter_empty_conv Let_def)

lemma session_ops_fields [simp]:
  "sess_id (touch t s) = sess_id s" "sess_username (touch t s) = sess_username s"
  "sess_joined (touch t s) = sess_joined s" "sess_last_heartbeat (touch t s) = t"
  "sess_id (session_joinChannel ch s) = sess_id s"
  "sess_username (session_joinChannel ch s) = sess_username s"
  "sess_joined (session_joinChannel ch s) = uset_insert ch (sess_joined s)"
  "sess_last_heartbeat (session_joinChannel ch s) = sess_last_heartbeat s"
  "sess_id (session_leaveChannel ch s) = sess_id s"
  "sess_username (session_leaveChannel ch s) = sess_username s"
  "sess_joined (session_leaveChannel ch s) = uset_erase ch (sess_joined s)"
  "sess_last_heartbeat (session_leaveChannel ch s) = sess_last_heartbeat s"
  by (simp_all add: touch_def session_joinChannel_def session_leaveChannel_def)

lemma new_fields [simp]:
  "chan_id (new_channel i n t) = i" "chan_name (new_channel i n t) = n"
  "chan_members (new_channel i n t) = []"
  "sess_id (new_session j u t t') = j" "sess_username (new_session j u t t') = u"
  "sess_joined (new_session j u t t') = []" "sess_last_heartbeat (new_session j u t t') = t'"
  by (simp_all add: new_channel_def new_session_def)

subsection \<open>Member counts on the wire\<close>

text \<open>\<open>static_cast<std::int32_t>(size)\<close>: the low 32 bits, read as two's complement.\<close>

definition int32_of_size :: "nat \<Rightarrow> 32 word" where
  "int32_of_size n = word_of_nat n"

lemma sint_int32_of_size: "n < 2 ^ 31 \<Longrightarrow> sint (int32_of_size n) = int n"
  by (simp add: int32_of_size_def signed_of_nat signed_take_bit_int_eq_self)

subsection \<open>Message routing\<close>

datatype EchoPolicy = ExcludeSender | IncludeSender

fun recipients_loop :: "client_id list \<Rightarrow> message \<Rightarrow> EchoPolicy \<Rightarrow> client_id list \<Rightarrow> client_id list" where
  "recipients_loop [] m echo_policy recipients = recipients"
| "recipients_loop (member_id # members) m echo_policy recipients =
     (if echo_policy = ExcludeSender \<and> member_id = msg_sender_id m
      then recipients_loop members m echo_policy recipients
      else recipients_loop members m echo_policy (recipients @ [member_id]))"

definition recipientsFor :: "channel \<Rightarrow> message \<Rightarrow> EchoPolicy \<Rightarrow> client_id list" where
  "recipientsFor ch m echo_policy = recipients_loop (chan_members ch) m echo_policy []"

lemma recipients_loop_filter:
  "recipients_loop ms m p acc =
     acc @ filter (\<lambda>c. \<not> (p = ExcludeSender \<and> c = msg_sender_id m)) ms"
  by (induction ms m p acc rule: recipients_loop.induct) auto

lemma recipientsFor_include [simp]: "recipientsFor ch m IncludeSender = chan_members ch"
  by (simp add: recipientsFor_def recipients_loop_filter)

text \<open>
  The router addresses exactly the members of the channel, each as often as the membership
  set holds it (that is, once), except that \<open>ExcludeSender\<close> leaves out the sender and nobody else.
\<close>

theorem recipientsFor_members:
  "set (recipientsFor ch m p) =
     set (chan_members ch) - (if p = ExcludeSender then {msg_sender_id m} else {}) \<and>
   (distinct (chan_members ch) \<longrightarrow> distinct (recipientsFor ch m p)) \<and>
   length (recipientsFor ch m IncludeSender) = memberCount ch"
  by (auto simp: recipientsFor_def recipients_loop_filter memberCount_def)

theorem recipientsFor_members_witness:
  "distinct (recipientsFor \<lparr>chan_id = StrongId ''c'', chan_name = ChannelName ''general'',
      chan_members = [StrongId ''a'', StrongId ''b''], chan_created_at = 0\<rparr>
     \<lparr>msg_id = StrongId ''m'', msg_sender_id = StrongId ''a'', msg_channel_id = StrongId ''c'',
      msg_content = MessageContent ''x'', msg_sent_at = 0\<rparr> ExcludeSender)"
  (is "distinct (recipientsFor ?ch ?m _)")
proof -
  have "distinct (chan_members ?ch)" by simp
  then show ?thesis using recipientsFor_members [of ?ch ?m ExcludeSender] by blast
qed

end
