(* ===== verification/Stores.thy ===== *)
theory Stores
  imports Shared_Library
begin

text \<open>
  The contract shared by the channel repository and the client registry: entities stored under
  their identifier, with a second index from a unique name to the identifier. The laws are stated
  once as locales, over what a lookup returns; the two in-memory adapters interpret them. The
  abstract specification of such a store is its directory, the map from names to entities.
\<close>

subsection \<open>A table with a unique secondary index\<close>

definition indexed_wf ::
  "('e \<Rightarrow> string) \<Rightarrow> ('e \<Rightarrow> string) \<Rightarrow> ('e \<Rightarrow> bool) \<Rightarrow>
   (string, 'e) umap \<Rightarrow> (string, string) umap \<Rightarrow> bool" where
  "indexed_wf ident label ok m ix \<longleftrightarrow>
     umap_wf m \<and> umap_wf ix \<and>
     (\<forall>i e. umap_find m i = Some e \<longrightarrow> ident e = i \<and> ok e) \<and>
     (\<forall>n i. umap_find ix n = Some i \<longleftrightarrow> (\<exists>e. umap_find m i = Some e \<and> label e = n))"

lemma indexed_wfI:
  assumes "umap_wf m" "umap_wf ix"
    and "\<And>i e. umap_find m i = Some e \<Longrightarrow> ident e = i \<and> ok e"
    and "\<And>n i. umap_find ix n = Some i \<Longrightarrow> \<exists>e. umap_find m i = Some e \<and> label e = n"
    and "\<And>i e. umap_find m i = Some e \<Longrightarrow> umap_find ix (label e) = Some i"
  shows "indexed_wf ident label ok m ix"
  using assms by (auto simp: indexed_wf_def)

lemma indexed_wf_umap: "indexed_wf ident label ok m ix \<Longrightarrow> umap_wf m \<and> umap_wf ix"
  by (simp add: indexed_wf_def)

lemma indexed_wf_entity:
  "indexed_wf ident label ok m ix \<Longrightarrow> umap_find m i = Some e \<Longrightarrow> ident e = i \<and> ok e"
  by (simp add: indexed_wf_def)

lemma indexed_wf_index:
  "indexed_wf ident label ok m ix \<Longrightarrow>
   umap_find ix n = Some i \<longleftrightarrow> (\<exists>e. umap_find m i = Some e \<and> label e = n)"
  by (simp add: indexed_wf_def)

lemma indexed_wf_label:
  "indexed_wf ident label ok m ix \<Longrightarrow> umap_find m i = Some e \<Longrightarrow> umap_find ix (label e) = Some i"
  by (simp add: indexed_wf_index)

lemma indexed_wf_unique:
  "indexed_wf ident label ok m ix \<Longrightarrow> umap_find m i = Some e \<Longrightarrow> umap_find m j = Some e' \<Longrightarrow>
   label e = label e' \<Longrightarrow> i = j"
  by (metis indexed_wf_label option.inject)

lemma indexed_wf_Nil [simp]: "indexed_wf ident label ok [] []"
  by (simp add: indexed_wf_def)

lemma indexed_wf_update:
  assumes wf: "indexed_wf ident label ok m ix" and ok: "ok e"
    and old: "umap_find m (ident e) = Some e'" and label: "label e = label e'"
  shows "indexed_wf ident label ok (umap_insert_or_assign (ident e) e m) ix"
proof (rule indexed_wfI)
  fix n i
  assume "umap_find ix n = Some i"
  then show "\<exists>x. umap_find (umap_insert_or_assign (ident e) e m) i = Some x \<and> label x = n"
    using indexed_wf_index [OF wf] old label by auto
next
  fix i x
  assume "umap_find (umap_insert_or_assign (ident e) e m) i = Some x"
  then show "umap_find ix (label x) = Some i"
    using indexed_wf_label [OF wf] old label by (auto split: if_splits)
qed (use indexed_wf_umap [OF wf] indexed_wf_entity [OF wf] ok in \<open>auto split: if_splits\<close>)

lemma indexed_wf_put:
  assumes wf: "indexed_wf ident label ok m ix" and ok: "ok e"
    and old: "umap_find m (ident e) = Some e'" and label: "label e = label e'"
  shows "indexed_wf ident label ok (umap_insert_or_assign (ident e) e m)
           (umap_insert_or_assign (label e) (ident e) ix)"
proof -
  have "umap_insert_or_assign (label e) (ident e) ix = ix"
    using indexed_wf_label [OF wf old] label
    by (simp add: umap_insert_or_assign_def umap_find_def update_triv)
  then show ?thesis
    using indexed_wf_update [OF assms] by simp
qed

lemma indexed_wf_new:
  assumes wf: "indexed_wf ident label ok m ix" and ok: "ok e"
    and fresh: "umap_find m (ident e) = None" and free: "umap_find ix (label e) = None"
  shows "indexed_wf ident label ok (umap_emplace (ident e) e m) (umap_emplace (label e) (ident e) ix)"
proof (rule indexed_wfI)
  fix n i
  assume "umap_find (umap_emplace (label e) (ident e) ix) n = Some i"
  then show "\<exists>x. umap_find (umap_emplace (ident e) e m) i = Some x \<and> label x = n"
    using indexed_wf_index [OF wf] fresh free by (auto split: if_splits)
next
  fix i x
  assume "umap_find (umap_emplace (ident e) e m) i = Some x"
  then show "umap_find (umap_emplace (label e) (ident e) ix) (label x) = Some i"
    using indexed_wf_label [OF wf, of i x] fresh free by (auto split: if_splits)
qed (use indexed_wf_umap [OF wf] indexed_wf_entity [OF wf] ok in \<open>auto split: if_splits\<close>)

lemma indexed_wf_erase:
  assumes wf: "indexed_wf ident label ok m ix" and old: "umap_find m i = Some e"
  shows "indexed_wf ident label ok (umap_erase i m) (umap_erase (label e) ix)"
proof (rule indexed_wfI)
  fix n j
  assume "umap_find (umap_erase (label e) ix) n = Some j"
  then show "\<exists>x. umap_find (umap_erase i m) j = Some x \<and> label x = n"
    using indexed_wf_index [OF wf] old by (auto split: if_splits)
next
  fix j x
  assume "umap_find (umap_erase i m) j = Some x"
  then show "umap_find (umap_erase (label e) ix) (label x) = Some j"
    using indexed_wf_label [OF wf, of j x] indexed_wf_unique [OF wf old, of j x]
    by (auto split: if_splits)
qed (use indexed_wf_umap [OF wf] indexed_wf_entity [OF wf] in \<open>auto split: if_splits\<close>)

lemma indexed_wf_perm:
  assumes wf: "indexed_wf ident label ok m ix" and "mset m' = mset m" "mset ix' = mset ix"
  shows "indexed_wf ident label ok m' ix'"
  using assms umap_find_perm [OF _ assms(2)] umap_find_perm [OF _ assms(3)]
    umap_wf_perm [OF _ assms(2)] umap_wf_perm [OF _ assms(3)]
  by (simp add: indexed_wf_def)

subsection \<open>The contract\<close>

locale named_store =
  fixes entity :: "'s \<Rightarrow> string \<Rightarrow> 'e option"
    and index :: "'s \<Rightarrow> string \<Rightarrow> string option"
    and ident :: "'e \<Rightarrow> string"
    and label :: "'e \<Rightarrow> string"
    and ok :: "'e \<Rightarrow> bool"
    and wf :: "'s \<Rightarrow> bool"
    and find_id :: "'s \<Rightarrow> string \<Rightarrow> 'e result"
    and find_name :: "'s \<Rightarrow> string \<Rightarrow> 'e result"
    and missing :: error
    and put :: "'e \<Rightarrow> 's \<Rightarrow> 's"
  assumes find_id: "find_id s i = (case entity s i of None \<Rightarrow> Inl missing | Some e \<Rightarrow> Inr e)"
    and find_name: "find_name s n =
        (case Option.bind (index s n) (entity s) of None \<Rightarrow> Inl missing | Some e \<Rightarrow> Inr e)"
    and wf_entity: "wf s \<Longrightarrow> entity s i = Some e \<Longrightarrow> ident e = i \<and> ok e"
    and wf_index: "wf s \<Longrightarrow> index s n = Some i \<longleftrightarrow> (\<exists>e. entity s i = Some e \<and> label e = n)"
    and entity_put: "entity (put e s) i = (if i = ident e then Some e else entity s i)"
    and wf_put: "wf s \<Longrightarrow> ok e \<Longrightarrow> entity s (ident e) = Some e' \<Longrightarrow> label e = label e' \<Longrightarrow> wf (put e s)"
begin

lemma find_id_Inr: "find_id s i = Inr e \<longleftrightarrow> entity s i = Some e"
  by (simp add: find_id split: option.splits)

lemma find_id_Inl: "find_id s i = Inl x \<longleftrightarrow> entity s i = None \<and> x = missing"
  by (auto simp: find_id split: option.splits)

lemma find_name_Inl: "find_name s n = Inl x \<Longrightarrow> x = missing"
  by (auto simp: find_name split: option.splits)

lemma label_unique:
  assumes "wf s" "entity s i = Some e" "entity s j = Some e'" "label e = label e'"
  shows "i = j \<and> e = e'"
proof -
  have "index s (label e) = Some i" "index s (label e) = Some j"
    using assms wf_index by metis+
  then show ?thesis
    using assms by simp
qed

lemma find_name_Inr:
  assumes "wf s"
  shows "find_name s n = Inr e \<longleftrightarrow> entity s (ident e) = Some e \<and> label e = n"
proof -
  have "find_name s n = Inr e \<longleftrightarrow> (\<exists>i. index s n = Some i \<and> entity s i = Some e)"
    by (cases "index s n"; cases "entity s (the (index s n))") (auto simp: find_name)
  also have "\<dots> \<longleftrightarrow> (\<exists>i. entity s i = Some e \<and> label e = n)"
    using wf_index [OF assms] by auto
  also have "\<dots> \<longleftrightarrow> entity s (ident e) = Some e \<and> label e = n"
    using wf_entity [OF assms] by metis
  finally show ?thesis .
qed

lemma find_name_taken: "wf s \<Longrightarrow> index s n \<noteq> None \<longleftrightarrow> (\<exists>e. find_name s n = Inr e)"
  by (auto simp: find_name_Inr wf_index dest: wf_entity)

lemma find_id_put [simp]: "find_id (put e s) (ident e) = Inr e"
  by (simp add: find_id_Inr entity_put)

lemma find_id_put_other: "i \<noteq> ident e \<Longrightarrow> find_id (put e s) i = find_id s i"
  by (simp add: find_id entity_put)

text \<open>The directory: what the store promises, as a map from names.\<close>

lemma find_name_put:
  assumes "wf s" "ok e" "entity s (ident e) = Some e'" "label e = label e'"
  shows "find_name (put e s) n = (if n = label e then Inr e else find_name s n)"
proof -
  have wf': "wf (put e s)"
    using assms by (rule wf_put)
  have "find_name (put e s) n = Inr x \<longleftrightarrow> (if n = label e then x = e else find_name s n = Inr x)" for x
    using label_unique [OF assms(1), of "ident x" x "ident e" e'] assms
    by (auto simp: find_name_Inr [OF wf'] find_name_Inr [OF assms(1)] entity_put)
  then show ?thesis
    by (metis find_name_Inl sum.exhaust)
qed

end

locale creating_store = named_store entity index ident label ok wf find_id find_name missing put
  for entity :: "'s \<Rightarrow> string \<Rightarrow> 'e option"
    and index :: "'s \<Rightarrow> string \<Rightarrow> string option"
    and ident :: "'e \<Rightarrow> string"
    and label :: "'e \<Rightarrow> string"
    and ok :: "'e \<Rightarrow> bool"
    and wf :: "'s \<Rightarrow> bool"
    and find_id :: "'s \<Rightarrow> string \<Rightarrow> 'e result"
    and find_name :: "'s \<Rightarrow> string \<Rightarrow> 'e result"
    and missing :: error
    and put :: "'e \<Rightarrow> 's \<Rightarrow> 's" +
  fixes make :: "'a \<Rightarrow> 'e"
    and create :: "'a \<Rightarrow> 's \<Rightarrow> 'e result \<times> 's"
    and taken :: error
  assumes create_taken: "index s (label (make a)) \<noteq> None \<Longrightarrow> create a s = (Inl taken, s)"
    and create_result: "index s (label (make a)) = None \<Longrightarrow> fst (create a s) = Inr (make a)"
    and entity_create: "index s (label (make a)) = None \<Longrightarrow> entity s (ident (make a)) = None \<Longrightarrow>
        entity (snd (create a s)) i = (if i = ident (make a) then Some (make a) else entity s i)"
    and wf_create: "wf s \<Longrightarrow> ok (make a) \<Longrightarrow> entity s (ident (make a)) = None \<Longrightarrow> wf (snd (create a s))"
begin

lemma create_Inr_free: "fst (create a s) = Inr e \<Longrightarrow> index s (label (make a)) = None \<and> e = make a"
  using create_taken [of s a] create_result [of s a] by (cases "index s (label (make a))") auto

lemma create_Inl_taken: "fst (create a s) = Inl x \<Longrightarrow> create a s = (Inl taken, s)"
  using create_taken [of s a] create_result [of s a] by (cases "index s (label (make a))") auto

text \<open>Creation refines the insertion of a fresh name into the directory.\<close>

lemma find_name_create:
  assumes "wf s" "ok (make a)" "entity s (ident (make a)) = None" "fst (create a s) = Inr e"
  shows "find_name (snd (create a s)) n = (if n = label e then Inr e else find_name s n)"
proof -
  have free: "index s (label (make a)) = None" and e: "e = make a"
    using create_Inr_free [OF assms(4)] by simp_all
  have wf': "wf (snd (create a s))"
    using assms(1-3) by (rule wf_create)
  have new: "label x \<noteq> label e" if "entity s (ident x) = Some x" for x
    using free that wf_index [OF assms(1)] e by (metis option.distinct(1))
  have "find_name (snd (create a s)) n = Inr x \<longleftrightarrow>
      (if n = label e then x = e else find_name s n = Inr x)" for x
    using new e assms(3)
    by (auto simp: find_name_Inr [OF wf'] find_name_Inr [OF assms(1)] entity_create [OF free assms(3)])
  then show ?thesis
    by (metis find_name_Inl sum.exhaust)
qed

lemma create_twice_taken:
  assumes "wf s" "ok (make a)" "entity s (ident (make a)) = None" "fst (create a s) = Inr e"
    and "label (make b) = label (make a)"
  shows "create b (snd (create a s)) = (Inl taken, snd (create a s))"
proof (rule create_taken)
  have "wf (snd (create a s))" "find_name (snd (create a s)) (label e) = Inr e"
    using assms wf_create find_name_create by auto
  then show "index (snd (create a s)) (label (make b)) \<noteq> None"
    using assms(5) create_Inr_free [OF assms(4)] find_name_taken by auto
qed

end

locale removing_store =
  creating_store entity index ident label ok wf find_id find_name missing put make create taken
  for entity :: "'s \<Rightarrow> string \<Rightarrow> 'e option"
    and index :: "'s \<Rightarrow> string \<Rightarrow> string option"
    and ident :: "'e \<Rightarrow> string"
    and label :: "'e \<Rightarrow> string"
    and ok :: "'e \<Rightarrow> bool"
    and wf :: "'s \<Rightarrow> bool"
    and find_id :: "'s \<Rightarrow> string \<Rightarrow> 'e result"
    and find_name :: "'s \<Rightarrow> string \<Rightarrow> 'e result"
    and missing :: error
    and put :: "'e \<Rightarrow> 's \<Rightarrow> 's"
    and make :: "'a \<Rightarrow> 'e"
    and create :: "'a \<Rightarrow> 's \<Rightarrow> 'e result \<times> 's"
    and taken :: error +
  fixes remove :: "string \<Rightarrow> 's \<Rightarrow> unit result \<times> 's"
  assumes remove_missing: "entity s i = None \<Longrightarrow> remove i s = (Inl missing, s)"
    and remove_present: "entity s i = Some e \<Longrightarrow> fst (remove i s) = Inr ()"
    and entity_remove: "entity (snd (remove i s)) j = (if j = i then None else entity s j)"
    and wf_remove: "wf s \<Longrightarrow> wf (snd (remove i s))"
begin

text \<open>Removal refines the deletion of the name, which can be taken again afterwards.\<close>

lemma find_name_remove:
  assumes "wf s" "entity s i = Some e"
  shows "find_name (snd (remove i s)) n = (if n = label e then Inl missing else find_name s n)"
proof -
  have wf': "wf (snd (remove i s))"
    using assms(1) by (rule wf_remove)
  have "find_name (snd (remove i s)) n = Inr x \<longleftrightarrow> n \<noteq> label e \<and> find_name s n = Inr x" for x
    using label_unique [OF assms(1), of "ident x" x i e] assms wf_entity [OF assms]
    by (auto simp: find_name_Inr [OF wf'] find_name_Inr [OF assms(1)] entity_remove)
  then show ?thesis
    by (metis find_name_Inl sum.exhaust)
qed

lemma remove_frees_name:
  assumes "wf s" "entity s i = Some e" "label (make a) = label e"
  shows "fst (create a (snd (remove i s))) = Inr (make a)"
proof (rule create_result)
  have "find_name (snd (remove i s)) (label (make a)) = Inl missing"
    using assms by (simp add: find_name_remove)
  then show "index (snd (remove i s)) (label (make a)) = None"
    using find_name_taken [OF wf_remove [OF assms(1)], of i "label (make a)"] by auto
qed

end

end
