(* ===== verification/Channel_Repository.thy ===== *)
theory Channel_Repository
  imports Domain Stores
begin

text \<open>
  \<open>InMemoryChannelRepository\<close>: channels by identifier and the index from names to identifiers.
  Every operation runs under the repository's mutex, so each is one atomic function here. The
  repository interprets the locale of creating stores, whose lemmas give the properties.
\<close>

record channel_repo =
  channels_by_id :: "(string, channel) umap"
  name_to_id :: "(string, string) umap"

definition channels_empty :: channel_repo where
  "channels_empty = \<lparr>channels_by_id = [], name_to_id = []\<rparr>"

definition channels_findById :: "channel_id \<Rightarrow> channel_repo \<Rightarrow> channel result" where
  "channels_findById channel_id r =
     (case umap_find (channels_by_id r) (id_value channel_id) of
        None \<Rightarrow> unexpected ChannelNotFound
      | Some found \<Rightarrow> Inr found)"

definition channels_findByName :: "channel_name \<Rightarrow> channel_repo \<Rightarrow> channel result" where
  "channels_findByName name r =
     (case umap_find (name_to_id r) (channel_name_value name) of
        None \<Rightarrow> unexpected ChannelNotFound
      | Some id_found \<Rightarrow>
          (case umap_find (channels_by_id r) id_found of
             None \<Rightarrow> unexpected ChannelNotFound
           | Some channel_found \<Rightarrow> Inr channel_found))"

definition channels_listAll :: "channel_repo \<Rightarrow> channel list" where
  "channels_listAll r = map snd (channels_by_id r)"

definition channels_save :: "channel \<Rightarrow> channel_repo \<Rightarrow> unit result \<times> channel_repo" where
  "channels_save ch r =
     (Inr (),
      \<lparr>channels_by_id = umap_insert_or_assign (id_value (chan_id ch)) ch (channels_by_id r),
       name_to_id = umap_insert_or_assign (channel_name_value (chan_name ch))
          (id_value (chan_id ch)) (name_to_id r)\<rparr>)"

text \<open>\<open>u\<close> is the UUID that \<open>ChannelId::generate()\<close> draws, \<open>system_now\<close> the creation time.\<close>

definition channels_create ::
  "'u platform \<Rightarrow> 'u \<Rightarrow> int \<Rightarrow> channel_name \<Rightarrow> channel_repo \<Rightarrow> channel result \<times> channel_repo" where
  "channels_create P u system_now name r =
     (if umap_contains (name_to_id r) (channel_name_value name)
      then (unexpected ChannelAlreadyExists, r)
      else
        let ch = new_channel (strong_id_generate P u) name system_now;
            i = id_value (chan_id ch);
            ch_name = channel_name_value (chan_name ch)
        in (Inr ch,
            \<lparr>channels_by_id = umap_emplace i ch (channels_by_id r),
             name_to_id = umap_emplace ch_name i (name_to_id r)\<rparr>))"

subsection \<open>The repository invariant\<close>

definition channel_ok :: "channel \<Rightarrow> bool" where
  "channel_ok ch \<longleftrightarrow> distinct (chan_members ch) \<and> valid_channel_name (channel_name_value (chan_name ch))"

definition channel_at :: "channel_repo \<Rightarrow> string \<Rightarrow> channel option" where
  "channel_at r i = umap_find (channels_by_id r) i"

definition channel_index :: "channel_repo \<Rightarrow> string \<Rightarrow> string option" where
  "channel_index r n = umap_find (name_to_id r) n"

definition channels_wf :: "channel_repo \<Rightarrow> bool" where
  "channels_wf r \<longleftrightarrow>
     indexed_wf (\<lambda>ch. id_value (chan_id ch)) (\<lambda>ch. channel_name_value (chan_name ch)) channel_ok
       (channels_by_id r) (name_to_id r)"

lemma channels_wf_entity:
  "channels_wf r \<Longrightarrow> channel_at r i = Some ch \<Longrightarrow> id_value (chan_id ch) = i \<and> channel_ok ch"
  unfolding channels_wf_def channel_at_def by (rule indexed_wf_entity)

lemma channels_wf_index:
  "channels_wf r \<Longrightarrow> channel_index r n = Some i \<longleftrightarrow>
     (\<exists>ch. channel_at r i = Some ch \<and> channel_name_value (chan_name ch) = n)"
  by (simp add: channels_wf_def channel_at_def channel_index_def indexed_wf_index)

lemma channels_wf_umap: "channels_wf r \<Longrightarrow> umap_wf (channels_by_id r) \<and> umap_wf (name_to_id r)"
  unfolding channels_wf_def by (rule indexed_wf_umap)

lemma channel_at_save [simp]:
  "channel_at (snd (channels_save ch r)) i =
     (if i = id_value (chan_id ch) then Some ch else channel_at r i)"
  by (simp add: channel_at_def channels_save_def)

lemma channel_index_save [simp]:
  "channel_index (snd (channels_save ch r)) n =
     (if n = channel_name_value (chan_name ch) then Some (id_value (chan_id ch)) else channel_index r n)"
  by (simp add: channel_index_def channels_save_def)

lemma channels_save_ok [simp]: "fst (channels_save ch r) = Inr ()"
  by (simp add: channels_save_def)

lemma channels_wf_empty [simp]: "channels_wf channels_empty"
  by (simp add: channels_wf_def channels_empty_def)

lemma channel_index_injective:
  "channels_wf r \<Longrightarrow> channel_at r i = Some ch \<Longrightarrow> channel_at r j = Some ch' \<Longrightarrow>
   channel_name_value (chan_name ch) = channel_name_value (chan_name ch') \<Longrightarrow> i = j"
  unfolding channels_wf_def channel_at_def by (rule indexed_wf_unique)

lemma channels_wf_save:
  "channels_wf r \<Longrightarrow> channel_ok ch \<Longrightarrow> channel_at r (id_value (chan_id ch)) = Some ch' \<Longrightarrow>
   channel_name_value (chan_name ch) = channel_name_value (chan_name ch') \<Longrightarrow>
   channels_wf (snd (channels_save ch r))"
  using indexed_wf_put [of "\<lambda>ch. id_value (chan_id ch)" "\<lambda>ch. channel_name_value (chan_name ch)"
      channel_ok "channels_by_id r" "name_to_id r" ch ch']
  by (simp add: channels_wf_def channels_save_def channel_at_def)

lemma channels_create_taken:
  "channel_index r (channel_name_value n) \<noteq> None \<Longrightarrow>
   channels_create P u t n r = (Inl ChannelAlreadyExists, r)"
  by (simp add: channels_create_def channel_index_def)

lemma channels_create_result:
  "channel_index r (channel_name_value n) = None \<Longrightarrow>
   fst (channels_create P u t n r) = Inr (new_channel (strong_id_generate P u) n t)"
  by (simp add: channels_create_def channel_index_def Let_def)

lemma channel_at_create:
  "channel_index r (channel_name_value n) = None \<Longrightarrow> channel_at r (uuid_to_string P u) = None \<Longrightarrow>
   channel_at (snd (channels_create P u t n r)) i =
     (if i = uuid_to_string P u then Some (new_channel (strong_id_generate P u) n t) else channel_at r i)"
  by (simp add: channels_create_def channel_at_def channel_index_def Let_def strong_id_generate_def)

lemma channel_index_create:
  "channel_index r (channel_name_value n) = None \<Longrightarrow>
   channel_index (snd (channels_create P u t n r)) m =
     (if m = channel_name_value n then Some (uuid_to_string P u) else channel_index r m)"
  by (simp add: channels_create_def channel_index_def Let_def strong_id_generate_def)

lemma channels_wf_create:
  assumes wf: "channels_wf r" and ok: "valid_channel_name (channel_name_value n)"
    and fresh: "channel_at r (uuid_to_string P u) = None"
  shows "channels_wf (snd (channels_create P u t n r))"
proof (cases "channel_index r (channel_name_value n)")
  case None
  then show ?thesis
    using wf ok fresh indexed_wf_new [of "\<lambda>ch. id_value (chan_id ch)" "\<lambda>ch. channel_name_value (chan_name ch)"
        channel_ok "channels_by_id r" "name_to_id r" "new_channel (strong_id_generate P u) n t"]
    by (simp add: channels_wf_def channels_create_def channel_at_def channel_index_def channel_ok_def
        Let_def strong_id_generate_def)
next
  case (Some i)
  then show ?thesis using wf by (simp add: channels_create_taken)
qed

text \<open>The repository is a creating store: the contract of \<open>IChannelRepository\<close>.\<close>

interpretation channel_store: creating_store channel_at channel_index
    "\<lambda>ch. id_value (chan_id ch)" "\<lambda>ch. channel_name_value (chan_name ch)" channel_ok channels_wf
    "\<lambda>r i. channels_findById (StrongId i) r" "\<lambda>r n. channels_findByName (ChannelName n) r"
    ChannelNotFound "\<lambda>ch r. snd (channels_save ch r)"
    "\<lambda>(P, u, t, n). new_channel (strong_id_generate P u) n t"
    "\<lambda>(P, u, t, n). channels_create P u t n" ChannelAlreadyExists
proof (unfold_locales, goal_cases)
  case (1 s i)
  then show ?case by (simp add: channels_findById_def channel_at_def)
next
  case (2 s n)
  then show ?case
    by (auto simp: channels_findByName_def channel_at_def channel_index_def split: option.splits)
next
  case (3 s i e)
  then show ?case by (rule channels_wf_entity)
next
  case (4 s n i)
  then show ?case by (rule channels_wf_index)
next
  case (5 e s i)
  then show ?case by simp
next
  case (6 s e e')
  then show ?case by (simp add: channels_wf_save)
next
  case (7 s a)
  then show ?case by (auto simp: channels_create_taken split: prod.splits)
next
  case (8 s a)
  then show ?case by (auto simp: channels_create_result split: prod.splits)
next
  case (9 s a i)
  then show ?case by (auto simp: channel_at_create strong_id_generate_def split: prod.splits)
next
  case (10 s a)
  then show ?case
    by (auto simp: channels_wf_create channel_ok_def strong_id_generate_def split: prod.splits)
qed

lemma channels_findById_eq:
  "channels_findById c r = (case channel_at r (id_value c) of None \<Rightarrow> Inl ChannelNotFound | Some ch \<Rightarrow> Inr ch)"
  by (simp add: channels_findById_def channel_at_def)

lemma channels_findById_Inr: "channels_findById c r = Inr ch \<longleftrightarrow> channel_at r (id_value c) = Some ch"
  by (simp add: channels_findById_eq split: option.splits)

lemma channels_findById_Inl:
  "channels_findById c r = Inl e \<longleftrightarrow> channel_at r (id_value c) = None \<and> e = ChannelNotFound"
  by (auto simp: channels_findById_eq split: option.splits)

lemma channels_findById_id: "channels_wf r \<Longrightarrow> channels_findById c r = Inr ch \<Longrightarrow> chan_id ch = c"
  using channels_wf_entity [of r "id_value c" ch] by (auto simp: channels_findById_Inr intro: strong_id.expand)

lemma set_listAll:
  assumes wf: "channels_wf r"
  shows "ch \<in> set (channels_listAll r) \<longleftrightarrow> channel_at r (id_value (chan_id ch)) = Some ch"
proof -
  have "ch \<in> set (channels_listAll r) \<longleftrightarrow> (\<exists>i. channel_at r i = Some ch)"
    using umap_mem_iff [OF channels_wf_umap [OF wf, THEN conjunct1]]
    by (force simp: channels_listAll_def channel_at_def image_iff)
  then show ?thesis
    using channels_wf_entity [OF wf] by metis
qed

lemma channels_wf_perm:
  assumes "channels_wf r" "mset (channels_by_id r') = mset (channels_by_id r)"
    "mset (name_to_id r') = mset (name_to_id r)"
  shows "channels_wf r'" and "channel_at r' = channel_at r" and "channel_index r' = channel_index r"
proof -
  show "channels_wf r'"
    using assms unfolding channels_wf_def by (rule indexed_wf_perm)
  show "channel_at r' = channel_at r" "channel_index r' = channel_index r"
    using umap_find_perm [OF _ assms(2)] umap_find_perm [OF _ assms(3)] channels_wf_umap [OF assms(1)]
    by (simp_all add: channel_at_def channel_index_def fun_eq_iff)
qed

subsection \<open>Properties\<close>

text \<open>
  Creating a channel under a free name, with a fresh identifier, refines the insertion into
  the directory of channels: the invariant is kept, the new channel has no members and is found
  under its name and its identifier, every other lookup is unchanged, and a second creation under
  that name is refused without effect.
\<close>

theorem channels_create_directory:
  assumes "channels_wf r" and "valid_channel_name n"
    and "channel_at r (uuid_to_string P u) = None"
    and "channels_create P u t (ChannelName n) r = (Inr ch, r')"
  shows "channels_wf r' \<and> chan_members ch = [] \<and>
    (\<forall>m. channels_findByName (ChannelName m) r' =
       (if m = n then Inr ch else channels_findByName (ChannelName m) r)) \<and>
    (\<forall>c. channels_findById c r' = (if c = chan_id ch then Inr ch else channels_findById c r)) \<and>
    (\<forall>v t'. channels_create P v t' (ChannelName n) r' = (Inl ChannelAlreadyExists, r'))"
proof -
  let ?a = "(P, u, t, ChannelName n)"
  have r': "r' = snd (channels_create P u t (ChannelName n) r)"
    and ok: "fst (channels_create P u t (ChannelName n) r) = Inr ch"
    using assms(4) by simp_all
  have free: "channel_index r n = None" and ch: "ch = new_channel (strong_id_generate P u) (ChannelName n) t"
    using channel_store.create_Inr_free [of ?a r ch] ok by simp_all
  have "channels_wf r'"
    unfolding r' using assms(1-3) by (simp add: channels_wf_create)
  moreover have "channels_findByName (ChannelName m) r' =
      (if m = n then Inr ch else channels_findByName (ChannelName m) r)" for m
    unfolding r' using channel_store.find_name_create [of r ?a ch m] assms(1-3) ch ok
    by (simp add: channel_ok_def strong_id_generate_def)
  moreover have "channels_findById c r' = (if c = chan_id ch then Inr ch else channels_findById c r)" for c
    unfolding r' using free assms(3) ch channel_at_create [of r "ChannelName n" P u t "id_value c"]
    by (cases c) (auto simp: channels_findById_eq strong_id_generate_def)
  moreover have "channels_create P v t' (ChannelName n) r' = (Inl ChannelAlreadyExists, r')" for v t'
    unfolding r' using free by (simp add: channels_create_taken channel_index_create)
  ultimately show ?thesis
    using ch by simp
qed

theorem channels_create_directory_witness:
  "channels_findByName (ChannelName ''general'')
     (snd (channels_create demo_platform U1 7 (ChannelName ''general'') channels_empty)) =
   Inr (new_channel (StrongId (demo_text U1)) (ChannelName ''general'') 7)"
proof -
  let ?ch = "new_channel (StrongId (demo_text U1)) (ChannelName ''general'') 7"
  have valid: "valid_channel_name ''general''"
    by (simp add: valid_channel_name_def channel_name_allowed_char_def is_alnum_def)
  have fresh: "channel_at channels_empty (uuid_to_string demo_platform U1) = None"
    by (simp add: channel_at_def channels_empty_def)
  have step: "channels_create demo_platform U1 7 (ChannelName ''general'') channels_empty =
      (Inr ?ch, snd (channels_create demo_platform U1 7 (ChannelName ''general'') channels_empty))"
    by (simp add: channels_create_def channels_empty_def demo_platform_def strong_id_generate_def Let_def)
  show ?thesis
    using channels_create_directory [OF channels_wf_empty valid fresh step] by simp
qed

text \<open>
  \<open>listAll\<close> returns exactly the channels that \<open>findById\<close> finds, each once, and no two of them
  have the same name.
\<close>

theorem channels_listAll_exact:
  assumes "channels_wf r"
  shows "set (channels_listAll r) = {ch. channels_findById (chan_id ch) r = Inr ch} \<and>
    distinct (map chan_name (channels_listAll r))"
proof
  show "set (channels_listAll r) = {ch. channels_findById (chan_id ch) r = Inr ch}"
    using set_listAll [OF assms] by (auto simp: channels_findById_Inr)
  have keys: "distinct (map fst (channels_by_id r))"
    using channels_wf_umap [OF assms] by (simp add: umap_wf_def)
  have "inj_on (\<lambda>p. chan_name (snd p)) (set (channels_by_id r))"
  proof (rule inj_onI)
    fix p q
    assume "p \<in> set (channels_by_id r)" "q \<in> set (channels_by_id r)"
      and eq: "chan_name (snd p) = chan_name (snd q)"
    then have "channel_at r (fst p) = Some (snd p)" "channel_at r (fst q) = Some (snd q)"
      using channels_wf_umap [OF assms] by (simp_all add: channel_at_def flip: umap_mem_iff)
    then have "fst p = fst q"
      using channel_index_injective [OF assms] eq by metis
    with \<open>channel_at r (fst p) = Some (snd p)\<close> \<open>channel_at r (fst q) = Some (snd q)\<close> show "p = q"
      by (simp add: prod_eq_iff)
  qed
  moreover have "distinct (channels_by_id r)"
    using keys by (simp add: distinct_map)
  ultimately show "distinct (map chan_name (channels_listAll r))"
    by (simp add: channels_listAll_def distinct_map comp_inj_on_iff comp_def)
qed

theorem channels_listAll_exact_witness:
  "distinct (map chan_name (channels_listAll channels_empty))"
  using channels_listAll_exact [OF channels_wf_empty] by blast

end
