(* ===== verification/Client_Registry.thy ===== *)
theory Client_Registry
  imports Domain Stores
begin

text \<open>
  \<open>InMemoryClientRegistry\<close>: the sessions of the connected clients by identifier, the index from
  usernames to identifiers, and the usernames of all clients that were ever registered. Every
  operation runs under the registry's mutex and is one atomic function here. The registry
  interprets the locale of removing stores.
\<close>

record client_registry =
  clients_by_id :: "(string, session) umap"
  username_to_id :: "(string, string) umap"
  historical_usernames :: "(string, username) umap"

definition clients_empty :: client_registry where
  "clients_empty = \<lparr>clients_by_id = [], username_to_id = [], historical_usernames = []\<rparr>"

definition clients_findById :: "client_id \<Rightarrow> client_registry \<Rightarrow> session result" where
  "clients_findById client_id r =
     (case umap_find (clients_by_id r) (id_value client_id) of
        None \<Rightarrow> unexpected ClientNotFound
      | Some found \<Rightarrow> Inr found)"

definition clients_findByUsername :: "username \<Rightarrow> client_registry \<Rightarrow> session result" where
  "clients_findByUsername name r =
     (case umap_find (username_to_id r) (username_value name) of
        None \<Rightarrow> unexpected ClientNotFound
      | Some id_found \<Rightarrow>
          (case umap_find (clients_by_id r) id_found of
             None \<Rightarrow> unexpected ClientNotFound
           | Some client_found \<Rightarrow> Inr client_found))"

definition clients_lookupUsername :: "client_id \<Rightarrow> client_registry \<Rightarrow> username result" where
  "clients_lookupUsername client_id r =
     (case umap_find (historical_usernames r) (id_value client_id) of
        None \<Rightarrow> unexpected ClientNotFound
      | Some found \<Rightarrow> Inr found)"

definition clients_registerClient ::
  "'u platform \<Rightarrow> 'u \<Rightarrow> int \<Rightarrow> int \<Rightarrow> username \<Rightarrow> client_registry \<Rightarrow> session result \<times> client_registry" where
  "clients_registerClient P u system_now steady_now name r =
     (if umap_contains (username_to_id r) (username_value name)
      then (unexpected ClientAlreadyExists, r)
      else
        let s = new_session (strong_id_generate P u) name system_now steady_now;
            i = id_value (sess_id s);
            name_value = username_value (sess_username s)
        in (Inr s,
            \<lparr>clients_by_id = umap_emplace i s (clients_by_id r),
             username_to_id = umap_emplace name_value i (username_to_id r),
             historical_usernames = umap_insert_or_assign i (sess_username s) (historical_usernames r)\<rparr>))"

definition clients_save :: "session \<Rightarrow> client_registry \<Rightarrow> unit result \<times> client_registry" where
  "clients_save s r =
     (Inr (),
      \<lparr>clients_by_id = umap_insert_or_assign (id_value (sess_id s)) s (clients_by_id r),
       username_to_id = umap_insert_or_assign (username_value (sess_username s)) (id_value (sess_id s))
          (username_to_id r),
       historical_usernames = umap_insert_or_assign (id_value (sess_id s)) (sess_username s)
          (historical_usernames r)\<rparr>)"

definition clients_remove :: "client_id \<Rightarrow> client_registry \<Rightarrow> unit result \<times> client_registry" where
  "clients_remove client_id r =
     (case umap_find (clients_by_id r) (id_value client_id) of
        None \<Rightarrow> (unexpected ClientNotFound, r)
      | Some found \<Rightarrow>
          (Inr (), r\<lparr>username_to_id := umap_erase (username_value (sess_username found)) (username_to_id r),
                     clients_by_id := umap_erase (id_value client_id) (clients_by_id r)\<rparr>))"

text \<open>The three operations that change a stored session in place.\<close>

definition clients_touchHeartbeat ::
  "int \<Rightarrow> client_id \<Rightarrow> client_registry \<Rightarrow> unit result \<times> client_registry" where
  "clients_touchHeartbeat steady_now client_id r =
     (case umap_find (clients_by_id r) (id_value client_id) of
        None \<Rightarrow> (unexpected ClientNotFound, r)
      | Some found \<Rightarrow>
          (Inr (), r\<lparr>clients_by_id :=
             umap_insert_or_assign (id_value client_id) (touch steady_now found) (clients_by_id r)\<rparr>))"

definition clients_joinChannelAtomic ::
  "client_id \<Rightarrow> channel_id \<Rightarrow> client_registry \<Rightarrow> unit result \<times> client_registry" where
  "clients_joinChannelAtomic client_id channel_id r =
     (case umap_find (clients_by_id r) (id_value client_id) of
        None \<Rightarrow> (unexpected ClientNotFound, r)
      | Some found \<Rightarrow>
          (Inr (), r\<lparr>clients_by_id :=
             umap_insert_or_assign (id_value client_id) (session_joinChannel channel_id found)
               (clients_by_id r)\<rparr>))"

definition clients_leaveChannelAtomic ::
  "client_id \<Rightarrow> channel_id \<Rightarrow> client_registry \<Rightarrow> unit result \<times> client_registry" where
  "clients_leaveChannelAtomic client_id channel_id r =
     (case umap_find (clients_by_id r) (id_value client_id) of
        None \<Rightarrow> (unexpected ClientNotFound, r)
      | Some found \<Rightarrow>
          (Inr (), r\<lparr>clients_by_id :=
             umap_insert_or_assign (id_value client_id) (session_leaveChannel channel_id found)
               (clients_by_id r)\<rparr>))"

fun expired_loop :: "int \<Rightarrow> (string \<times> session) list \<Rightarrow> session list \<Rightarrow> session list" where
  "expired_loop deadline [] expired = expired"
| "expired_loop deadline ((k, s) # rest) expired =
     expired_loop deadline rest (if isExpired deadline s then expired @ [s] else expired)"

definition clients_collectExpired :: "int \<Rightarrow> client_registry \<Rightarrow> session list" where
  "clients_collectExpired deadline r = expired_loop deadline (clients_by_id r) []"

subsection \<open>The registry invariant\<close>

definition session_ok :: "session \<Rightarrow> bool" where
  "session_ok s \<longleftrightarrow> distinct (sess_joined s) \<and> valid_username (username_value (sess_username s))"

definition session_at :: "client_registry \<Rightarrow> string \<Rightarrow> session option" where
  "session_at r i = umap_find (clients_by_id r) i"

definition username_index :: "client_registry \<Rightarrow> string \<Rightarrow> string option" where
  "username_index r n = umap_find (username_to_id r) n"

definition username_history :: "client_registry \<Rightarrow> string \<Rightarrow> username option" where
  "username_history r i = umap_find (historical_usernames r) i"

definition clients_wf :: "client_registry \<Rightarrow> bool" where
  "clients_wf r \<longleftrightarrow>
     indexed_wf (\<lambda>s. id_value (sess_id s)) (\<lambda>s. username_value (sess_username s)) session_ok
       (clients_by_id r) (username_to_id r) \<and>
     umap_wf (historical_usernames r) \<and>
     (\<forall>i s. session_at r i = Some s \<longrightarrow> username_history r i = Some (sess_username s))"

lemma clients_wf_entity:
  "clients_wf r \<Longrightarrow> session_at r i = Some s \<Longrightarrow> id_value (sess_id s) = i \<and> session_ok s"
  unfolding clients_wf_def session_at_def by (blast dest: indexed_wf_entity)

lemma clients_wf_index:
  "clients_wf r \<Longrightarrow> username_index r n = Some i \<longleftrightarrow>
     (\<exists>s. session_at r i = Some s \<and> username_value (sess_username s) = n)"
  unfolding clients_wf_def session_at_def username_index_def
  by (elim conjE) (rule indexed_wf_index)

lemma clients_wf_history:
  "clients_wf r \<Longrightarrow> session_at r i = Some s \<Longrightarrow> username_history r i = Some (sess_username s)"
  by (simp add: clients_wf_def)

lemma clients_wf_umap:
  "clients_wf r \<Longrightarrow>
     umap_wf (clients_by_id r) \<and> umap_wf (username_to_id r) \<and> umap_wf (historical_usernames r)"
  by (auto simp: clients_wf_def dest: indexed_wf_umap)

lemma clients_wf_empty [simp]: "clients_wf clients_empty"
  by (simp add: clients_wf_def clients_empty_def session_at_def)

lemma session_at_save [simp]:
  "session_at (snd (clients_save s r)) i = (if i = id_value (sess_id s) then Some s else session_at r i)"
  by (simp add: session_at_def clients_save_def)

lemma clients_wf_save:
  "clients_wf r \<Longrightarrow> session_ok s \<Longrightarrow> session_at r (id_value (sess_id s)) = Some s' \<Longrightarrow>
   username_value (sess_username s) = username_value (sess_username s') \<Longrightarrow>
   clients_wf (snd (clients_save s r))"
  using indexed_wf_put [of "\<lambda>s. id_value (sess_id s)" "\<lambda>s. username_value (sess_username s)"
      session_ok "clients_by_id r" "username_to_id r" s s']
  by (auto simp: clients_wf_def clients_save_def session_at_def username_history_def)

text \<open>What registering and removing do to the three tables.\<close>

lemma clients_register_taken:
  "username_index r (username_value n) \<noteq> None \<Longrightarrow>
   clients_registerClient P u t t' n r = (Inl ClientAlreadyExists, r)"
  by (simp add: clients_registerClient_def username_index_def)

lemma clients_register_result:
  "username_index r (username_value n) = None \<Longrightarrow>
   fst (clients_registerClient P u t t' n r) = Inr (new_session (strong_id_generate P u) n t t')"
  by (simp add: clients_registerClient_def username_index_def Let_def)

lemma session_at_register:
  "username_index r (username_value n) = None \<Longrightarrow> session_at r (uuid_to_string P u) = None \<Longrightarrow>
   session_at (snd (clients_registerClient P u t t' n r)) i =
     (if i = uuid_to_string P u then Some (new_session (strong_id_generate P u) n t t')
      else session_at r i)"
  by (simp add: clients_registerClient_def session_at_def username_index_def Let_def strong_id_generate_def)

lemma username_history_register:
  "username_index r (username_value n) = None \<Longrightarrow>
   username_history (snd (clients_registerClient P u t t' n r)) i =
     (if i = uuid_to_string P u then Some n else username_history r i)"
  by (simp add: clients_registerClient_def username_history_def username_index_def Let_def
      strong_id_generate_def)

lemma clients_wf_register:
  assumes wf: "clients_wf r" and ok: "valid_username (username_value n)"
    and fresh: "session_at r (uuid_to_string P u) = None"
  shows "clients_wf (snd (clients_registerClient P u t t' n r))"
proof (cases "username_index r (username_value n)")
  case None
  let ?r = "snd (clients_registerClient P u t t' n r)"
  let ?s = "new_session (strong_id_generate P u) n t t'"
  have eqs: "clients_by_id ?r = umap_emplace (id_value (sess_id ?s)) ?s (clients_by_id r)"
    "username_to_id ?r = umap_emplace (username_value (sess_username ?s)) (id_value (sess_id ?s)) (username_to_id r)"
    "umap_wf (historical_usernames r) \<Longrightarrow> umap_wf (historical_usernames ?r)"
    using None by (simp_all add: clients_registerClient_def username_index_def Let_def)
  have "username_history ?r i = Some (sess_username s)" if "session_at ?r i = Some s" for i s
    using that clients_wf_history [OF wf, of i s] fresh
    by (auto simp: session_at_register [OF None fresh] username_history_register [OF None] split: if_splits)
  moreover have "indexed_wf (\<lambda>s. id_value (sess_id s)) (\<lambda>s. username_value (sess_username s)) session_ok
      (clients_by_id ?r) (username_to_id ?r)"
    unfolding eqs(1,2) using wf None fresh ok
    by (intro indexed_wf_new)
      (simp_all add: clients_wf_def session_ok_def session_at_def username_index_def strong_id_generate_def)
  ultimately show ?thesis
    using eqs(3) clients_wf_umap [OF wf] by (simp add: clients_wf_def)
next
  case (Some i)
  then show ?thesis using wf by (simp add: clients_register_taken)
qed

lemma clients_remove_missing: "session_at r (id_value c) = None \<Longrightarrow> clients_remove c r = (Inl ClientNotFound, r)"
  by (simp add: clients_remove_def session_at_def)

lemma clients_remove_present: "session_at r (id_value c) = Some s \<Longrightarrow> fst (clients_remove c r) = Inr ()"
  by (simp add: clients_remove_def session_at_def)

lemma session_at_remove [simp]:
  "session_at (snd (clients_remove c r)) i = (if i = id_value c then None else session_at r i)"
  by (auto simp: clients_remove_def session_at_def split: option.splits)

lemma username_history_remove [simp]:
  "username_history (snd (clients_remove c r)) i = username_history r i"
  by (auto simp: clients_remove_def username_history_def split: option.splits)

lemma clients_wf_remove:
  assumes wf: "clients_wf r"
  shows "clients_wf (snd (clients_remove c r))"
proof (cases "session_at r (id_value c)")
  case (Some s)
  have "indexed_wf (\<lambda>s. id_value (sess_id s)) (\<lambda>s. username_value (sess_username s)) session_ok
      (clients_by_id (snd (clients_remove c r))) (username_to_id (snd (clients_remove c r)))"
    using wf Some indexed_wf_erase [of "\<lambda>s. id_value (sess_id s)" "\<lambda>s. username_value (sess_username s)"
        session_ok "clients_by_id r" "username_to_id r" "id_value c" s]
    by (simp add: clients_wf_def clients_remove_def session_at_def)
  moreover have "historical_usernames (snd (clients_remove c r)) = historical_usernames r"
    by (simp add: clients_remove_def split: option.splits)
  ultimately show ?thesis
    using wf by (simp add: clients_wf_def)
next
  case None
  then show ?thesis using wf by (simp add: clients_remove_missing)
qed

text \<open>The registry is a removing store: the contract of \<open>IClientRegistry\<close>.\<close>

interpretation client_store: removing_store session_at username_index
    "\<lambda>s. id_value (sess_id s)" "\<lambda>s. username_value (sess_username s)" session_ok clients_wf
    "\<lambda>r i. clients_findById (StrongId i) r" "\<lambda>r n. clients_findByUsername (Username n) r"
    ClientNotFound "\<lambda>s r. snd (clients_save s r)"
    "\<lambda>(P, u, t, t', n). new_session (strong_id_generate P u) n t t'"
    "\<lambda>(P, u, t, t', n). clients_registerClient P u t t' n" ClientAlreadyExists
    "\<lambda>i. clients_remove (StrongId i)"
proof (unfold_locales, goal_cases)
  case (1 s i)
  then show ?case by (simp add: clients_findById_def session_at_def)
next
  case (2 s n)
  then show ?case
    by (auto simp: clients_findByUsername_def session_at_def username_index_def split: option.splits)
next
  case (3 s i e)
  then show ?case by (rule clients_wf_entity)
next
  case (4 s n i)
  then show ?case by (rule clients_wf_index)
next
  case (5 e s i)
  then show ?case by simp
next
  case (6 s e e')
  then show ?case by (simp add: clients_wf_save)
next
  case (7 s a)
  then show ?case by (auto simp: clients_register_taken split: prod.splits)
next
  case (8 s a)
  then show ?case by (auto simp: clients_register_result split: prod.splits)
next
  case (9 s a i)
  then show ?case by (auto simp: session_at_register strong_id_generate_def split: prod.splits)
next
  case (10 s a)
  then show ?case
    by (auto simp: clients_wf_register session_ok_def strong_id_generate_def split: prod.splits)
next
  case (11 s i)
  then show ?case by (simp add: clients_remove_missing)
next
  case (12 s i e)
  then show ?case by (simp add: clients_remove_present)
next
  case (13 i s j)
  then show ?case by simp
next
  case (14 s i)
  then show ?case by (rule clients_wf_remove)
qed

lemma clients_findById_eq:
  "clients_findById c r = (case session_at r (id_value c) of None \<Rightarrow> Inl ClientNotFound | Some s \<Rightarrow> Inr s)"
  by (simp add: clients_findById_def session_at_def)

lemma clients_findById_Inr: "clients_findById c r = Inr s \<longleftrightarrow> session_at r (id_value c) = Some s"
  by (simp add: clients_findById_eq split: option.splits)

lemma clients_findById_Inl:
  "clients_findById c r = Inl e \<longleftrightarrow> session_at r (id_value c) = None \<and> e = ClientNotFound"
  by (auto simp: clients_findById_eq split: option.splits)

lemma clients_findById_id: "clients_wf r \<Longrightarrow> clients_findById c r = Inr s \<Longrightarrow> sess_id s = c"
  using clients_wf_entity [of r "id_value c" s] by (auto simp: clients_findById_Inr intro: strong_id.expand)

subsection \<open>Changes in place\<close>

text \<open>The in-place operations replace the stored session by one with the same identity.\<close>

definition modify_session :: "client_id \<Rightarrow> (session \<Rightarrow> session) \<Rightarrow> client_registry \<Rightarrow> client_registry" where
  "modify_session c f r =
     (case session_at r (id_value c) of
        None \<Rightarrow> r
      | Some s \<Rightarrow> r\<lparr>clients_by_id := umap_insert_or_assign (id_value c) (f s) (clients_by_id r)\<rparr>)"

lemma in_place_eq:
  "clients_touchHeartbeat t c r =
     (if session_at r (id_value c) = None then (Inl ClientNotFound, r) else (Inr (), modify_session c (touch t) r))"
  "clients_joinChannelAtomic c ch r =
     (if session_at r (id_value c) = None then (Inl ClientNotFound, r)
      else (Inr (), modify_session c (session_joinChannel ch) r))"
  "clients_leaveChannelAtomic c ch r =
     (if session_at r (id_value c) = None then (Inl ClientNotFound, r)
      else (Inr (), modify_session c (session_leaveChannel ch) r))"
  by (auto simp: clients_touchHeartbeat_def clients_joinChannelAtomic_def clients_leaveChannelAtomic_def
      modify_session_def session_at_def split: option.splits)

lemma session_at_modify [simp]:
  "session_at (modify_session c f r) i =
     (if i = id_value c then map_option f (session_at r i) else session_at r i)"
  by (auto simp: modify_session_def session_at_def split: option.splits)

lemma username_index_modify [simp]: "username_index (modify_session c f r) = username_index r"
  by (auto simp: modify_session_def username_index_def fun_eq_iff split: option.splits)

lemma username_history_modify [simp]: "username_history (modify_session c f r) = username_history r"
  by (auto simp: modify_session_def username_history_def fun_eq_iff split: option.splits)

lemma clients_wf_modify:
  assumes wf: "clients_wf r"
    and f: "\<And>s. sess_id (f s) = sess_id s \<and> sess_username (f s) = sess_username s"
    and ok: "\<And>s. session_ok s \<Longrightarrow> session_ok (f s)"
  shows "clients_wf (modify_session c f r)"
proof (cases "session_at r (id_value c)")
  case (Some s)
  have s: "id_value (sess_id (f s)) = id_value c" "session_ok (f s)"
    using clients_wf_entity [OF wf Some] f ok by auto
  have "indexed_wf (\<lambda>s. id_value (sess_id s)) (\<lambda>s. username_value (sess_username s)) session_ok
      (clients_by_id (modify_session c f r)) (username_to_id (modify_session c f r))"
    using wf Some s f
      indexed_wf_update [of "\<lambda>s. id_value (sess_id s)" "\<lambda>s. username_value (sess_username s)"
        session_ok "clients_by_id r" "username_to_id r" "f s" s]
    by (simp add: clients_wf_def modify_session_def session_at_def)
  moreover have "username_history (modify_session c f r) i = Some (sess_username t)"
    if "session_at (modify_session c f r) i = Some t" for i t
    using that clients_wf_history [OF wf] f by (auto split: if_splits)
  moreover have "historical_usernames (modify_session c f r) = historical_usernames r"
    by (simp add: modify_session_def split: option.splits)
  ultimately show ?thesis
    using clients_wf_umap [OF wf] by (simp add: clients_wf_def)
next
  case None
  then show ?thesis using wf by (simp add: modify_session_def)
qed

lemma clients_wf_in_place [wf_intros]:
  assumes "clients_wf r"
  shows "clients_wf (snd (clients_touchHeartbeat t c r))"
    and "clients_wf (snd (clients_joinChannelAtomic c ch r))"
    and "clients_wf (snd (clients_leaveChannelAtomic c ch r))"
  using assms clients_wf_modify [OF assms, of "touch t"] clients_wf_modify [OF assms, of "session_joinChannel ch"]
    clients_wf_modify [OF assms, of "session_leaveChannel ch"]
  by (auto simp: in_place_eq session_ok_def)

lemma clients_wf_perm:
  assumes "clients_wf r" "mset (clients_by_id r') = mset (clients_by_id r)"
    "mset (username_to_id r') = mset (username_to_id r)"
    "mset (historical_usernames r') = mset (historical_usernames r)"
  shows "clients_wf r'" and "session_at r' = session_at r" and "username_index r' = username_index r"
    and "username_history r' = username_history r"
proof -
  show at: "session_at r' = session_at r" and "username_index r' = username_index r"
    and hist: "username_history r' = username_history r"
    using umap_find_perm [OF _ assms(2)] umap_find_perm [OF _ assms(3)] umap_find_perm [OF _ assms(4)]
      clients_wf_umap [OF assms(1)]
    by (simp_all add: session_at_def username_index_def username_history_def fun_eq_iff)
  show "clients_wf r'"
    using assms(1) umap_wf_perm [OF _ assms(4)]
      indexed_wf_perm [OF _ assms(2,3), of "\<lambda>s. id_value (sess_id s)"
        "\<lambda>s. username_value (sess_username s)" session_ok]
    by (simp add: clients_wf_def at hist)
qed

lemma expired_loop_filter:
  "expired_loop d xs acc = acc @ filter (isExpired d) (map snd xs)"
  by (induction d xs acc rule: expired_loop.induct) auto

lemma set_collectExpired:
  assumes "clients_wf r"
  shows "s \<in> set (clients_collectExpired d r) \<longleftrightarrow>
     session_at r (id_value (sess_id s)) = Some s \<and> isExpired d s"
proof -
  have "s \<in> set (clients_collectExpired d r) \<longleftrightarrow> (\<exists>i. session_at r i = Some s) \<and> isExpired d s"
    using umap_mem_iff [OF clients_wf_umap [OF assms, THEN conjunct1]]
    by (force simp: clients_collectExpired_def expired_loop_filter session_at_def image_iff)
  then show ?thesis
    using clients_wf_entity [OF assms] by metis
qed

subsection \<open>Properties\<close>

lemma valid_username_examples [simp]:
  "valid_username ''alice''" "valid_username ''bob''" "valid_username ''carol''"
  by (simp_all add: valid_username_def username_allowed_char_def is_alnum_def)

text \<open>
  Registering under a free username, with a fresh identifier, refines the insertion into the
  directory of clients: the invariant is kept, the new session has joined no channel and is found
  under its name and identifier, all other lookups are unchanged, its name is on record, and
  while it is registered nobody else gets the name.
\<close>

theorem clients_register_directory:
  assumes "clients_wf r" and "valid_username n" and "session_at r (uuid_to_string P u) = None"
    and "clients_registerClient P u t t' (Username n) r = (Inr s, r')"
  shows "clients_wf r' \<and> sess_joined s = [] \<and> sess_last_heartbeat s = t' \<and>
    (\<forall>m. clients_findByUsername (Username m) r' =
       (if m = n then Inr s else clients_findByUsername (Username m) r)) \<and>
    (\<forall>c. clients_findById c r' = (if c = sess_id s then Inr s else clients_findById c r)) \<and>
    clients_lookupUsername (sess_id s) r' = Inr (Username n) \<and>
    (\<forall>v q q'. clients_registerClient P v q q' (Username n) r' = (Inl ClientAlreadyExists, r'))"
proof -
  let ?a = "(P, u, t, t', Username n)"
  have r': "r' = snd (clients_registerClient P u t t' (Username n) r)"
    and ok: "fst (clients_registerClient P u t t' (Username n) r) = Inr s"
    using assms(4) by simp_all
  have free: "username_index r n = None"
    and s: "s = new_session (strong_id_generate P u) (Username n) t t'"
    using client_store.create_Inr_free [of ?a r s] ok by simp_all
  have wf': "clients_wf r'"
    unfolding r' using assms(1-3) by (simp add: clients_wf_register)
  moreover have name: "clients_findByUsername (Username m) r' =
      (if m = n then Inr s else clients_findByUsername (Username m) r)" for m
    unfolding r' using client_store.find_name_create [of r ?a s m] assms(1-3) s ok
    by (simp add: session_ok_def strong_id_generate_def)
  moreover have "clients_findById c r' = (if c = sess_id s then Inr s else clients_findById c r)" for c
    unfolding r' using free assms(3) s session_at_register [of r "Username n" P u t t' "id_value c"]
    by (cases c) (auto simp: clients_findById_eq strong_id_generate_def)
  moreover have "clients_lookupUsername (sess_id s) r' = Inr (Username n)"
    unfolding r' using free s username_history_register [of r "Username n" P u t t']
    by (simp add: clients_lookupUsername_def username_history_def strong_id_generate_def)
  moreover have "clients_registerClient P v q q' (Username n) r' = (Inl ClientAlreadyExists, r')" for v q q'
    using client_store.find_name_taken [OF wf', of n] name [of n] by (simp add: clients_register_taken)
  ultimately show ?thesis
    using s by simp
qed

theorem clients_register_directory_witness:
  "clients_registerClient demo_platform U2 0 0 (Username ''alice'')
     (snd (clients_registerClient demo_platform U1 5 6 (Username ''alice'') clients_empty)) =
   (Inl ClientAlreadyExists,
    snd (clients_registerClient demo_platform U1 5 6 (Username ''alice'') clients_empty))"
proof -
  have fresh: "session_at clients_empty (uuid_to_string demo_platform U1) = None"
    by (simp add: session_at_def clients_empty_def)
  have step: "clients_registerClient demo_platform U1 5 6 (Username ''alice'') clients_empty =
      (Inr (new_session (strong_id_generate demo_platform U1) (Username ''alice'') 5 6),
       snd (clients_registerClient demo_platform U1 5 6 (Username ''alice'') clients_empty))"
    by (simp add: clients_registerClient_def clients_empty_def Let_def)
  show ?thesis
    using clients_register_directory [OF clients_wf_empty valid_username_examples(1) fresh step] by blast
qed

text \<open>
  Removing a client ends its session and frees its name, for the identifier is unknown
  afterwards and the name can be registered again, while every other client is found as before;
  the name that was registered for the identifier stays on record.
\<close>

theorem clients_remove_spec:
  assumes "clients_wf r" and "clients_findById c r = Inr s"
  shows "fst (clients_remove c r) = Inr () \<and> clients_wf (snd (clients_remove c r)) \<and>
    (\<forall>d. clients_findById d (snd (clients_remove c r)) =
       (if d = c then Inl ClientNotFound else clients_findById d r)) \<and>
    (\<forall>(P :: 'u platform) u t t'.
       fst (clients_registerClient P u t t' (sess_username s) (snd (clients_remove c r))) =
       Inr (new_session (strong_id_generate P u) (sess_username s) t t')) \<and>
    clients_lookupUsername c (snd (clients_remove c r)) = Inr (sess_username s)"
proof -
  have s: "session_at r (id_value c) = Some s"
    using assms(2) by (simp add: clients_findById_Inr)
  have "clients_findById d (snd (clients_remove c r)) =
      (if d = c then Inl ClientNotFound else clients_findById d r)" for d
    by (auto simp: clients_findById_eq intro: strong_id.expand)
  moreover have "fst (clients_registerClient P u t t' (sess_username s) (snd (clients_remove c r))) =
      Inr (new_session (strong_id_generate P u) (sess_username s) t t')" for P :: "'u platform" and u t t'
    using client_store.remove_frees_name [OF assms(1) s, of "(P, u, t, t', sess_username s)"] by simp
  moreover have "clients_lookupUsername c (snd (clients_remove c r)) = Inr (sess_username s)"
    using clients_wf_history [OF assms(1) s] username_history_remove [of c r "id_value c"]
    by (simp add: clients_lookupUsername_def username_history_def)
  ultimately show ?thesis
    using s assms(1) by (simp add: clients_remove_present clients_wf_remove)
qed

definition demo_clients :: client_registry where
  "demo_clients = \<lparr>clients_by_id =
     [(demo_text U1, new_session (StrongId (demo_text U1)) (Username ''alice'') 5 6)],
     username_to_id = [(''alice'', demo_text U1)],
     historical_usernames = [(demo_text U1, Username ''alice'')]\<rparr>"

lemma demo_clients_wf: "clients_wf demo_clients"
  unfolding clients_wf_def
proof (intro conjI indexed_wfI)
  show "\<forall>i s. session_at demo_clients i = Some s \<longrightarrow> username_history demo_clients i = Some (sess_username s)"
    by (simp add: session_at_def username_history_def demo_clients_def umap_find_def)
qed (auto simp: demo_clients_def umap_find_def umap_wf_def session_ok_def split: if_splits)

theorem clients_remove_spec_witness:
  "clients_findById (StrongId (demo_text U1)) (snd (clients_remove (StrongId (demo_text U1)) demo_clients)) =
     Inl ClientNotFound \<and>
   clients_lookupUsername (StrongId (demo_text U1)) (snd (clients_remove (StrongId (demo_text U1)) demo_clients)) =
     Inr (Username ''alice'')"
proof -
  have "clients_findById (StrongId (demo_text U1)) demo_clients =
      Inr (new_session (StrongId (demo_text U1)) (Username ''alice'') 5 6)"
    by (simp add: clients_findById_def demo_clients_def umap_find_def)
  note spec = clients_remove_spec [OF demo_clients_wf this, where ?'u = demo_uuid]
  have "clients_findById (StrongId (demo_text U1)) (snd (clients_remove (StrongId (demo_text U1)) demo_clients)) =
      (if StrongId (demo_text U1) = (StrongId (demo_text U1) :: client_id) then Inl ClientNotFound
       else clients_findById (StrongId (demo_text U1)) demo_clients)"
    using spec by blast
  then show ?thesis
    using spec by simp
qed

text \<open>
  Joining and leaving a channel in place does not interfere with a concurrent heartbeat: in
  either order both updates take effect and give the same registry, whereas writing back a session
  read before the heartbeat would undo it.
\<close>

theorem heartbeat_join_commute:
  assumes "clients_findById c r = Inr s"
  shows "snd (clients_joinChannelAtomic c ch (snd (clients_touchHeartbeat t c r))) =
         snd (clients_touchHeartbeat t c (snd (clients_joinChannelAtomic c ch r))) \<and>
    snd (clients_leaveChannelAtomic c ch (snd (clients_touchHeartbeat t c r))) =
         snd (clients_touchHeartbeat t c (snd (clients_leaveChannelAtomic c ch r))) \<and>
    (\<exists>s'. clients_findById c (snd (clients_joinChannelAtomic c ch (snd (clients_touchHeartbeat t c r)))) = Inr s' \<and>
       sess_last_heartbeat s' = t \<and> isInChannel ch s') \<and>
    (clients_wf r \<longrightarrow>
       (\<exists>s'. clients_findById c (snd (clients_save (session_joinChannel ch s) (snd (clients_touchHeartbeat t c r)))) =
          Inr s' \<and> sess_last_heartbeat s' = sess_last_heartbeat s))"
proof -
  have s: "session_at r (id_value c) = Some s"
    using assms by (simp add: clients_findById_Inr)
  have twice: "modify_session c f (modify_session c g r) = modify_session c (f \<circ> g) r" for f g
    using s by (simp add: modify_session_def session_at_def update_swap umap_insert_or_assign_def umap_find_def update_conv')
  have "session_joinChannel ch \<circ> touch t = touch t \<circ> session_joinChannel ch"
       "session_leaveChannel ch \<circ> touch t = touch t \<circ> session_leaveChannel ch"
    by (simp_all add: fun_eq_iff session_joinChannel_def session_leaveChannel_def touch_def)
  moreover have "clients_wf r \<Longrightarrow> sess_id s = c"
    using assms by (rule clients_findById_id [rotated])
  ultimately show ?thesis
    using s by (auto simp: in_place_eq twice clients_findById_Inr isInChannel_def)
qed

theorem heartbeat_join_commute_witness:
  "\<exists>s'. clients_findById (StrongId (demo_text U1))
      (snd (clients_joinChannelAtomic (StrongId (demo_text U1)) (StrongId ''c'')
        (snd (clients_touchHeartbeat 99 (StrongId (demo_text U1)) demo_clients)))) = Inr s' \<and>
     sess_last_heartbeat s' = 99 \<and> isInChannel (StrongId ''c'') s'"
proof -
  have "clients_findById (StrongId (demo_text U1)) demo_clients =
      Inr (new_session (StrongId (demo_text U1)) (Username ''alice'') 5 6)"
    by (simp add: clients_findById_def demo_clients_def umap_find_def)
  from heartbeat_join_commute [OF this] show ?thesis by blast
qed

text \<open>
  A sweep collects exactly the sessions whose last heartbeat is older than the deadline; a
  session touched at or after the deadline is never collected.
\<close>

theorem collectExpired_exact:
  assumes "clients_wf r"
  shows "set (clients_collectExpired deadline r) =
      {s. clients_findById (sess_id s) r = Inr s \<and> sess_last_heartbeat s < deadline} \<and>
    (\<forall>c t s. deadline \<le> t \<longrightarrow> s \<in> set (clients_collectExpired deadline (snd (clients_touchHeartbeat t c r))) \<longrightarrow>
       sess_id s \<noteq> c)"
proof
  show "set (clients_collectExpired deadline r) =
      {s. clients_findById (sess_id s) r = Inr s \<and> sess_last_heartbeat s < deadline}"
    using set_collectExpired [OF assms] by (auto simp: clients_findById_Inr isExpired_def)
  show "\<forall>c t s. deadline \<le> t \<longrightarrow> s \<in> set (clients_collectExpired deadline (snd (clients_touchHeartbeat t c r))) \<longrightarrow>
       sess_id s \<noteq> c"
    using set_collectExpired [OF clients_wf_in_place(1) [OF assms]]
    by (auto simp: in_place_eq isExpired_def split: if_splits)
qed

theorem collectExpired_exact_witness:
  "new_session (StrongId (demo_text U1)) (Username ''alice'') 5 6 \<in> set (clients_collectExpired 7 demo_clients) \<and>
   new_session (StrongId (demo_text U1)) (Username ''alice'') 5 7 \<notin>
     set (clients_collectExpired 7 (snd (clients_touchHeartbeat 7 (StrongId (demo_text U1)) demo_clients)))"
proof
  show "new_session (StrongId (demo_text U1)) (Username ''alice'') 5 6 \<in> set (clients_collectExpired 7 demo_clients)"
    using collectExpired_exact [OF demo_clients_wf, of 7]
    by (simp add: clients_findById_def demo_clients_def umap_find_def)
  show "new_session (StrongId (demo_text U1)) (Username ''alice'') 5 7 \<notin>
     set (clients_collectExpired 7 (snd (clients_touchHeartbeat 7 (StrongId (demo_text U1)) demo_clients)))"
  proof
    assume "new_session (StrongId (demo_text U1)) (Username ''alice'') 5 7 \<in>
      set (clients_collectExpired 7 (snd (clients_touchHeartbeat 7 (StrongId (demo_text U1)) demo_clients)))"
    moreover have "(7::int) \<le> 7" by simp
    ultimately have "sess_id (new_session (StrongId (demo_text U1)) (Username ''alice'') 5 7) \<noteq>
        StrongId (demo_text U1)"
      using collectExpired_exact [OF demo_clients_wf, of 7] by blast
    then show False by simp
  qed
qed

end
