(* ===== verification/Message_Repository.thy ===== *)
theory Message_Repository
  imports Domain
begin

text \<open>
  \<open>InMemoryMessageRepository\<close>: one bounded buffer of messages per channel, read by the most
  recent messages or backwards from a cursor; and \<open>InMemoryEventLog\<close>. The cap and the counts are
  32 bit unsigned integers, buffer lengths are sizes. Every operation runs under the repository's
  mutex and is one atomic function.
\<close>

record message_repo =
  repo_cap :: "32 word"
  buffers :: "(string, message list) umap"

definition kDefaultCap :: "32 word" where
  "kDefaultCap = 200"

definition messages_init :: "32 word \<Rightarrow> message_repo" where
  "messages_init cap = \<lparr>repo_cap = (if cap = 0 then kDefaultCap else cap), buffers = []\<rparr>"

fun pop_front_loop :: "nat \<Rightarrow> message list \<Rightarrow> message list" where
  "pop_front_loop cap [] = []"
| "pop_front_loop cap (m # buffer) =
     (if length (m # buffer) > cap then pop_front_loop cap buffer else m # buffer)"

definition messages_save :: "message \<Rightarrow> message_repo \<Rightarrow> unit result \<times> message_repo" where
  "messages_save m r =
     (let key = id_value (msg_channel_id m);
          buffer = (case umap_find (buffers r) key of None \<Rightarrow> [] | Some b \<Rightarrow> b) @ [m]
      in (Inr (), r\<lparr>buffers :=
            umap_insert_or_assign key (pop_front_loop (unat (repo_cap r)) buffer) (buffers r)\<rparr>))"

definition messages_recent :: "channel_id \<Rightarrow> 32 word \<Rightarrow> message_repo \<Rightarrow> message list" where
  "messages_recent channel_id cnt r =
     (case umap_find (buffers r) (id_value channel_id) of
        None \<Rightarrow> []
      | Some buffer \<Rightarrow>
          if cnt = 0 then []
          else let n = min (unat cnt) (length buffer) in drop (length buffer - n) buffer)"

text \<open>\<open>find_if\<close> returns the first position that satisfies the predicate, or the end.\<close>

fun find_if :: "('a \<Rightarrow> bool) \<Rightarrow> 'a list \<Rightarrow> nat" where
  "find_if p [] = 0"
| "find_if p (x # xs) = (if p x then 0 else Suc (find_if p xs))"

definition messages_listBefore :: "channel_id \<Rightarrow> message_id \<Rightarrow> 32 word \<Rightarrow> message_repo \<Rightarrow> message list" where
  "messages_listBefore channel_id before_message_id cnt r =
     (case umap_find (buffers r) (id_value channel_id) of
        None \<Rightarrow> []
      | Some buffer \<Rightarrow>
          if cnt = 0 then []
          else
            let cursor = find_if (\<lambda>m. msg_id m = before_message_id) buffer
            in if cursor = length buffer then []
               else let n = min (unat cnt) cursor in take n (drop (cursor - n) buffer))"

record event_log =
  log_entries :: "(string \<times> string) list"

definition event_log_log :: "string \<Rightarrow> string \<Rightarrow> event_log \<Rightarrow> event_log" where
  "event_log_log event_type details l = l\<lparr>log_entries := log_entries l @ [(event_type, details)]\<rparr>"

subsection \<open>History as a list\<close>

definition history :: "message_repo \<Rightarrow> string \<Rightarrow> message list" where
  "history r k = (case umap_find (buffers r) k of None \<Rightarrow> [] | Some b \<Rightarrow> b)"

lemma pop_front_loop_drop: "pop_front_loop cap b = drop (length b - cap) b"
  by (induction cap b rule: pop_front_loop.induct) (auto simp: Suc_diff_le not_less_eq_eq)

lemma find_if_end: "find_if p xs = length xs \<longleftrightarrow> (\<forall>x\<in>set xs. \<not> p x)"
  by (induction xs) auto

lemma find_if_at: "(\<forall>x\<in>set xs. \<not> p x) \<Longrightarrow> p y \<Longrightarrow> find_if p (xs @ y # ys) = length xs"
  by (induction xs) auto

lemma unat_eq_0: "unat (n :: 32 word) = 0 \<longleftrightarrow> n = 0"
  by (simp add: unat_eq_zero)

lemma le_diff_self_iff: "(a::nat) \<le> a - b \<longleftrightarrow> a = 0 \<or> b = 0"
  by arith

text \<open>
  The contract of \<open>IMessageRepository\<close>: a history per channel, of which \<open>recent\<close> returns the
  end and \<open>before\<close> the part that precedes a cursor, both in chronological order.
\<close>

locale message_history =
  fixes hist :: "'s \<Rightarrow> string \<Rightarrow> message list"
    and recent :: "channel_id \<Rightarrow> 32 word \<Rightarrow> 's \<Rightarrow> message list"
    and before :: "channel_id \<Rightarrow> message_id \<Rightarrow> 32 word \<Rightarrow> 's \<Rightarrow> message list"
  assumes recent_law: "recent c n s =
        drop (length (hist s (id_value c)) - unat n) (hist s (id_value c))"
    and before_law: "hist s (id_value c) = older @ m # newer \<Longrightarrow> i \<notin> msg_id ` set older \<Longrightarrow>
        msg_id m = i \<Longrightarrow> before c i n s = drop (length older - unat n) older"
    and before_unknown: "i \<notin> msg_id ` set (hist s (id_value c)) \<Longrightarrow> before c i n s = []"
begin

lemma recent_split: "\<exists>older. hist s (id_value c) = older @ recent c n s"
  by (metis append_take_drop_id recent_law)

lemma recent_empty: "recent c n s = [] \<longleftrightarrow> hist s (id_value c) = [] \<or> n = 0"
  by (simp add: recent_law le_diff_self_iff unat_eq_0)

lemma length_recent: "length (recent c n s) = min (unat n) (length (hist s (id_value c)))"
  by (simp add: recent_law min_def)

text \<open>The page before the first message of a suffix of the history extends that suffix.\<close>

lemma before_split:
  assumes "hist s (id_value c) = older @ page" "page \<noteq> []" "distinct (map msg_id (hist s (id_value c)))"
  shows "before c (msg_id (hd page)) n s = drop (length older - unat n) older"
proof -
  obtain m rest where page: "page = m # rest"
    using assms(2) by (cases page) auto
  have "msg_id m \<notin> msg_id ` set older"
    using assms(1,3) page by (auto simp: image_iff)
  then show ?thesis
    using before_law [of s c older m rest "msg_id m" n] assms(1) page by simp
qed

lemma before_empty:
  assumes "hist s (id_value c) = older @ page" "page \<noteq> []" "distinct (map msg_id (hist s (id_value c)))"
  shows "before c (msg_id (hd page)) n s = [] \<longleftrightarrow> older = [] \<or> n = 0"
  by (simp add: before_split [OF assms] le_diff_self_iff unat_eq_0)

end

text \<open>A reader that pages backwards from the newest messages until nothing older is returned.\<close>

fun page_back :: "(message_id \<Rightarrow> message list) \<Rightarrow> nat \<Rightarrow> message list \<Rightarrow> message list" where
  "page_back older_than 0 acc = acc"
| "page_back older_than (Suc k) acc =
     (if acc = [] then []
      else let page = older_than (msg_id (hd acc))
           in if page = [] then acc else page_back older_than k (page @ acc))"

context message_history
begin

lemma page_back_complete:
  assumes distinct: "distinct (map msg_id (hist s (id_value c)))" and n: "n \<noteq> 0"
  shows "hist s (id_value c) = older @ page \<Longrightarrow> page \<noteq> [] \<Longrightarrow> length older \<le> k \<Longrightarrow>
    page_back (\<lambda>i. before c i n s) k page = hist s (id_value c)"
proof (induction k arbitrary: older page)
  case 0
  then show ?case by simp
next
  case (Suc k)
  let ?new = "drop (length older - unat n) older"
  let ?rest = "take (length older - unat n) older"
  have page: "before c (msg_id (hd page)) n s = ?new"
    using Suc.prems distinct before_split by blast
  show ?case
  proof (cases "older = []")
    case True
    then show ?thesis using Suc.prems page by simp
  next
    case False
    have "0 < unat n"
      using n by (simp add: unat_gt_0)
    then have "length ?rest < length older" "?new \<noteq> []"
      using False by (simp_all add: le_diff_self_iff)
    moreover have "hist s (id_value c) = ?rest @ (?new @ page)"
      using Suc.prems by (metis append.assoc append_take_drop_id)
    ultimately have "page_back (\<lambda>i. before c i n s) k (?new @ page) = hist s (id_value c)"
      using Suc.IH [of ?rest "?new @ page"] Suc.prems by simp
    then show ?thesis
      using Suc.prems page \<open>?new \<noteq> []\<close> by (simp add: Let_def)
  qed
qed

lemma page_back_recent:
  assumes "distinct (map msg_id (hist s (id_value c)))" "n \<noteq> 0" "length (hist s (id_value c)) \<le> k"
  shows "page_back (\<lambda>i. before c i n s) k (recent c n s) = hist s (id_value c)"
proof (cases "hist s (id_value c) = []")
  case True
  then show ?thesis by (cases k) (simp_all add: recent_law)
next
  case False
  obtain older where older: "hist s (id_value c) = older @ recent c n s"
    using recent_split by blast
  show ?thesis
  proof (rule page_back_complete [OF assms(1,2) older])
    show "recent c n s \<noteq> []" using False assms(2) by (simp add: recent_empty)
    have "length older \<le> length (hist s (id_value c))"
      using older by (metis le_add1 length_append)
    then show "length older \<le> k" using assms(3) by simp
  qed
qed

end

lemma messages_recent_history:
  "messages_recent c n r = drop (length (history r (id_value c)) - unat n) (history r (id_value c))"
  by (simp add: messages_recent_def history_def min_def unat_eq_0 Let_def split: option.splits)

lemma messages_listBefore_history:
  "messages_listBefore c i n r =
     (let b = history r (id_value c); k = find_if (\<lambda>m. msg_id m = i) b
      in if k = length b then [] else drop (k - unat n) (take k b))"
proof -
  have "take (min (unat n) k) (drop (k - min (unat n) k) b) = drop (k - unat n) (take k b)"
    for k and b :: "message list"
    by (simp add: drop_take min_def)
  then show ?thesis
    by (auto simp: messages_listBefore_def history_def Let_def split: option.splits)
qed

interpretation message_store: message_history history messages_recent messages_listBefore
proof (unfold_locales, goal_cases)
  case (1 c n s)
  show ?case by (rule messages_recent_history)
next
  case (2 s c older m newer i n)
  have "find_if (\<lambda>m. msg_id m = i) (older @ m # newer) = length older"
    using 2 by (intro find_if_at) (auto simp: image_iff)
  then show ?case
    using 2 by (simp add: messages_listBefore_history Let_def)
next
  case (3 i s c n)
  then have "find_if (\<lambda>m. msg_id m = i) (history s (id_value c)) = length (history s (id_value c))"
    by (auto simp: find_if_end)
  then show ?case
    by (simp add: messages_listBefore_history Let_def)
qed

subsection \<open>The repository invariant\<close>

definition messages_wf :: "message_repo \<Rightarrow> bool" where
  "messages_wf r \<longleftrightarrow> repo_cap r \<noteq> 0 \<and> umap_wf (buffers r) \<and>
     (\<forall>k. length (history r k) \<le> unat (repo_cap r) \<and>
        (\<forall>m\<in>set (history r k). id_value (msg_channel_id m) = k) \<and>
        distinct (map msg_id (history r k)))"

lemma messages_wf_init [simp]: "messages_wf (messages_init cap)"
  by (simp add: messages_wf_def messages_init_def kDefaultCap_def history_def)

lemma messages_save_ok [simp]: "fst (messages_save m r) = Inr ()"
  by (simp add: messages_save_def Let_def)

lemma repo_cap_save [simp]: "repo_cap (snd (messages_save m r)) = repo_cap r"
  by (simp add: messages_save_def Let_def)

lemma history_save:
  "history (snd (messages_save m r)) k =
     (if k = id_value (msg_channel_id m)
      then drop (Suc (length (history r k)) - unat (repo_cap r)) (history r k @ [m])
      else history r k)"
  by (simp add: messages_save_def history_def Let_def pop_front_loop_drop)

lemma messages_wf_history:
  assumes "messages_wf r"
  shows "length (history r k) \<le> unat (repo_cap r)"
    and "m \<in> set (history r k) \<Longrightarrow> id_value (msg_channel_id m) = k"
    and "distinct (map msg_id (history r k))"
  using assms by (simp_all add: messages_wf_def)

lemma messages_wf_save:
  assumes wf: "messages_wf r" and fresh: "msg_id m \<notin> msg_id ` set (history r (id_value (msg_channel_id m)))"
  shows "messages_wf (snd (messages_save m r))"
proof -
  have "umap_wf (buffers (snd (messages_save m r)))"
    using wf by (simp add: messages_wf_def messages_save_def Let_def)
  moreover have "distinct (map msg_id (drop n (history r k @ [m])))"
    if "k = id_value (msg_channel_id m)" for n k
  proof -
    have "distinct (map msg_id (history r k @ [m]))"
      using that messages_wf_history(3) [OF wf, of k] fresh by simp
    then show ?thesis
      by (metis distinct_drop drop_map)
  qed
  ultimately show ?thesis
    using wf messages_wf_history(2) [OF wf]
    by (auto simp: messages_wf_def history_save dest!: in_set_dropD simp del: drop_append)
qed

lemma history_perm:
  assumes "messages_wf r" "mset (buffers r') = mset (buffers r)"
  shows "history r' = history r"
  using umap_find_perm [OF _ assms(2)] assms(1) by (simp add: history_def messages_wf_def fun_eq_iff)

lemma messages_wf_perm:
  assumes "messages_wf r" "mset (buffers r') = mset (buffers r)" "repo_cap r' = repo_cap r"
  shows "messages_wf r'"
  using assms history_perm [OF assms(1,2)] umap_wf_perm [OF _ assms(2)] by (simp add: messages_wf_def)

subsection \<open>Properties\<close>

text \<open>
  Saving a message appends it to the history of its channel and drops the oldest messages
  beyond the cap, so that the newest message is always kept, never more than the cap is stored,
  what is kept is the end of the full history, and the other channels are unaffected. The cap is
  never zero.
\<close>

theorem messages_save_bounded:
  assumes "messages_wf r" and "msg_channel_id m = c"
    and "msg_id m \<notin> msg_id ` set (history r (id_value c))"
  shows "let r' = snd (messages_save m r) in
    messages_wf r' \<and>
    (\<exists>dropped. history r (id_value c) @ [m] = dropped @ history r' (id_value c) \<and> length dropped \<le> 1 \<and>
       (dropped \<noteq> [] \<longrightarrow> length (history r (id_value c)) = unat (repo_cap r))) \<and>
    last (history r' (id_value c)) = m \<and> history r' (id_value c) \<noteq> [] \<and>
    length (history r' (id_value c)) \<le> unat (repo_cap r) \<and>
    (\<forall>k. k \<noteq> id_value c \<longrightarrow> history r' k = history r k)"
proof -
  let ?r = "snd (messages_save m r)" and ?b = "history r (id_value c)"
  let ?n = "Suc (length ?b) - unat (repo_cap r)"
  have cap: "0 < unat (repo_cap r)" "length ?b \<le> unat (repo_cap r)"
    using assms(1) by (simp_all add: messages_wf_def unat_gt_0)
  have b: "history ?r (id_value c) = drop ?n (?b @ [m])"
    using assms(2) by (simp add: history_save)
  have "\<exists>dropped. ?b @ [m] = dropped @ history ?r (id_value c) \<and> length dropped \<le> 1 \<and>
      (dropped \<noteq> [] \<longrightarrow> length ?b = unat (repo_cap r))"
  proof (intro exI conjI)
    show "?b @ [m] = take ?n (?b @ [m]) @ history ?r (id_value c)"
      by (simp only: b append_take_drop_id)
  qed (use cap in auto)
  moreover have "history ?r (id_value c) = drop ?n ?b @ [m]"
    using cap b by simp
  moreover have "messages_wf ?r"
    using assms by (simp add: messages_wf_save)
  moreover have "\<forall>k. k \<noteq> id_value c \<longrightarrow> history ?r k = history r k"
    using assms(2) by (simp add: history_save)
  moreover have "length (history ?r (id_value c)) \<le> unat (repo_cap r)"
    using messages_wf_history(1) [OF \<open>messages_wf ?r\<close>] by simp
  ultimately show ?thesis
    unfolding Let_def by (metis append_is_Nil_conv last_snoc list.distinct(1))
qed

definition demo_message :: "string \<Rightarrow> message" where
  "demo_message i = \<lparr>msg_id = StrongId i, msg_sender_id = StrongId ''a'', msg_channel_id = StrongId ''c'',
     msg_content = MessageContent ''x'', msg_sent_at = 0\<rparr>"

theorem messages_save_bounded_witness:
  "history (snd (messages_save (demo_message ''2'') (snd (messages_save (demo_message ''1'') (messages_init 1))))) ''c'' =
     [demo_message ''2'']"
proof -
  let ?r = "snd (messages_save (demo_message ''1'') (messages_init 1))"
  have c: "msg_channel_id (demo_message i) = StrongId ''c''" "msg_id (demo_message i) = StrongId i" for i
    by (simp_all add: demo_message_def)
  have h: "history ?r ''c'' = [demo_message ''1'']"
    by (simp add: history_save c) (simp add: messages_init_def history_def)
  have wf: "messages_wf ?r"
    by (rule messages_wf_save [OF messages_wf_init]) (simp_all add: messages_init_def history_def c)
  have "repo_cap ?r = 1"
    by (simp add: messages_init_def)
  then show ?thesis
    using messages_save_bounded [OF wf c(1), of "''2''"] h c
    by (auto simp: Let_def neq_Nil_conv length_Suc_conv le_Suc_eq)
qed

text \<open>
  Both readers return contiguous parts of the stored history in chronological order: \<open>recent\<close>
  the last messages, as many as asked for when there are that many; \<open>listBefore\<close> the messages
  directly before the cursor, and nothing for a cursor that is not stored.
\<close>

theorem messages_read_contiguous:
  assumes "messages_wf r"
  shows "(\<exists>older. history r (id_value c) = older @ messages_recent c n r) \<and>
    length (messages_recent c n r) = min (unat n) (length (history r (id_value c))) \<and>
    (\<forall>older m newer. history r (id_value c) = older @ m # newer \<longrightarrow>
       (\<exists>skipped. older = skipped @ messages_listBefore c (msg_id m) n r) \<and>
       length (messages_listBefore c (msg_id m) n r) = min (unat n) (length older)) \<and>
    (\<forall>i. i \<notin> msg_id ` set (history r (id_value c)) \<longrightarrow> messages_listBefore c i n r = [])"
proof -
  have "(\<exists>skipped. older = skipped @ messages_listBefore c (msg_id m) n r) \<and>
      length (messages_listBefore c (msg_id m) n r) = min (unat n) (length older)"
    if "history r (id_value c) = older @ m # newer" for older m newer
  proof -
    have eq: "messages_listBefore c (msg_id m) n r = drop (length older - unat n) older"
      using message_store.before_split [of r c older "m # newer" n] that
        messages_wf_history(3) [OF assms, of "id_value c"] by (metis list.discI list.sel(1))
    then have "older = take (length older - unat n) older @ messages_listBefore c (msg_id m) n r"
      by simp
    then show ?thesis
      using eq by (intro conjI exI [of _ "take (length older - unat n) older"]) (simp_all add: min_def)
  qed
  then show ?thesis
    using message_store.recent_split message_store.length_recent message_store.before_unknown by blast
qed

theorem messages_read_contiguous_witness:
  "messages_listBefore (StrongId ''c'') (StrongId ''2'') 5
     (snd (messages_save (demo_message ''1'') (messages_init 9))) = []"
proof -
  let ?r = "snd (messages_save (demo_message ''1'') (messages_init 9))"
  have wf: "messages_wf ?r"
    by (rule messages_wf_save [OF messages_wf_init]) (simp_all add: messages_init_def history_def demo_message_def)
  have "StrongId ''2'' \<notin> msg_id ` set (history ?r (id_value (StrongId ''c'' :: channel_id)))"
    by (simp add: history_save) (simp add: messages_init_def history_def demo_message_def)
  then show ?thesis
    using messages_read_contiguous [OF wf, of "StrongId ''c''" 5] by blast
qed

text \<open>
  C28: paging backwards loses and repeats nothing. A reader that starts with the most recent
  messages and asks for the page before its oldest message until a page is empty ends with the
  whole stored history in order, whatever positive page size it uses, after at most as many
  requests as there are stored messages.
\<close>

theorem paging_complete:
  assumes "messages_wf r" and "n \<noteq> 0" and "length (history r (id_value c)) \<le> k"
  shows "page_back (\<lambda>i. messages_listBefore c i n r) k (messages_recent c n r) = history r (id_value c)"
  using assms(2,3) by (rule message_store.page_back_recent [OF messages_wf_history(3) [OF assms(1)]])

theorem paging_complete_witness:
  "page_back (\<lambda>i. messages_listBefore (StrongId ''c'') i 1
        (snd (messages_save (demo_message ''2'') (snd (messages_save (demo_message ''1'') (messages_init 9))))))
      2 (messages_recent (StrongId ''c'') 1
        (snd (messages_save (demo_message ''2'') (snd (messages_save (demo_message ''1'') (messages_init 9)))))) =
    [demo_message ''1'', demo_message ''2'']"
proof -
  let ?r1 = "snd (messages_save (demo_message ''1'') (messages_init 9))"
  let ?r = "snd (messages_save (demo_message ''2'') ?r1)"
  have c: "msg_channel_id (demo_message i) = StrongId ''c''" "msg_id (demo_message i) = StrongId i" for i
    by (simp_all add: demo_message_def)
  have h1: "history ?r1 ''c'' = [demo_message ''1'']"
    by (simp add: history_save c) (simp add: messages_init_def history_def)
  have wf1: "messages_wf ?r1"
    by (rule messages_wf_save [OF messages_wf_init]) (simp_all add: messages_init_def history_def c)
  have wf: "messages_wf ?r"
    using wf1 by (rule messages_wf_save) (simp add: c h1)
  have h: "history ?r ''c'' = [demo_message ''1'', demo_message ''2'']"
    by (simp add: history_save c h1) (simp add: messages_init_def history_def c)
  show ?thesis
    using paging_complete [OF wf, of 1 "StrongId ''c''" 2] h by simp
qed

end
