(* ===== verification/Publishers.thy ===== *)
theory Publishers
  imports Channel_Repository Client_Registry
begin

text \<open>
  The outbound side of the server: \<open>GrpcClientPublisher\<close>, which streams channel events to the
  subscribers of a channel, and \<open>GrpcChannelListPublisher\<close>, which streams changes of the channel
  list. Both keep a table from client identifiers to shared writer entries. The entries live in a
  store of their own, so that a thread that took an entry from the table still reaches it after
  the table changed; the entry's \<open>writer\<close> pointer is \<open>None\<close> once it is disarmed. \<open>written\<close> is the
  sequence of \<open>Write\<close> calls on the streams. The functions here run one operation to its end; the
  theory of interleavings splits them at the points where the locks are released.
\<close>

type_synonym writer = nat

record 'ev writer_table =
  writers :: "(string, nat option) umap"
  entries :: "writer option list"
  written :: "(writer \<times> 'ev) list"

definition no_writers :: "'ev writer_table" where
  "no_writers = \<lparr>writers = [], entries = [], written = []\<rparr>"

subsection \<open>Writer entries\<close>

definition entry_writer :: "'ev writer_table \<Rightarrow> nat \<Rightarrow> writer option" where
  "entry_writer t e = (if e < length (entries t) then entries t ! e else None)"

definition new_entry :: "writer option \<Rightarrow> 'ev writer_table \<Rightarrow> nat \<times> 'ev writer_table" where
  "new_entry w t = (length (entries t), t\<lparr>entries := entries t @ [w]\<rparr>)"

definition disarm_entry :: "nat \<Rightarrow> 'ev writer_table \<Rightarrow> 'ev writer_table" where
  "disarm_entry e t = t\<lparr>entries := (entries t)[e := None]\<rparr>"

definition write_entry :: "'ev \<Rightarrow> nat \<Rightarrow> 'ev writer_table \<Rightarrow> 'ev writer_table" where
  "write_entry event e t =
     (case entry_writer t e of
        None \<Rightarrow> t
      | Some w \<Rightarrow> t\<lparr>written := written t @ [(w, event)]\<rparr>)"

fun all_targets :: "(string \<times> nat option) list \<Rightarrow> nat list \<Rightarrow> nat list" where
  "all_targets [] targets = targets"
| "all_targets ((k, entry) # rest) targets =
     (case entry of
        None \<Rightarrow> all_targets rest targets
      | Some e \<Rightarrow> all_targets rest (targets @ [e]))"

subsection \<open>The publisher of channel events\<close>

record message_event =
  ev_message_id :: string
  ev_channel_id :: string
  ev_sender_id :: string
  ev_sender_name :: string
  ev_content :: string
  ev_sent_at_ms :: int

datatype channel_event =
    MessageEv message_event
  | MemberJoined string string string
  | MemberLeft string string string
  | ChannelClosed string string
  | EventNotSet

text \<open>\<open>duration_cast\<close> to milliseconds rounds towards zero.\<close>

definition to_epoch_ms :: "'u platform \<Rightarrow> int \<Rightarrow> int" where
  "to_epoch_ms P time_point = sgn time_point * (\<bar>time_point\<bar> div clock_ticks_per_ms P)"

definition message_to_event :: "'u platform \<Rightarrow> client_registry option \<Rightarrow> message \<Rightarrow> channel_event" where
  "message_to_event P client_registry m =
     MessageEv
       \<lparr>ev_message_id = id_value (msg_id m),
        ev_channel_id = id_value (msg_channel_id m),
        ev_sender_id = id_value (msg_sender_id m),
        ev_sender_name =
          (case client_registry of
             None \<Rightarrow> []
           | Some reg \<Rightarrow>
               (case clients_lookupUsername (msg_sender_id m) reg of
                  Inl e \<Rightarrow> []
                | Inr name \<Rightarrow> username_value name)),
        ev_content = content_value (msg_content m),
        ev_sent_at_ms = to_epoch_ms P (msg_sent_at m)\<rparr>"

definition publisher_registerSubscriber ::
  "client_id \<Rightarrow> writer option \<Rightarrow> channel_event writer_table \<Rightarrow> channel_event writer_table" where
  "publisher_registerSubscriber i w t =
     (let (entry, t') = new_entry w t
      in t'\<lparr>writers := umap_insert_or_assign (id_value i) (Some entry) (writers t')\<rparr>)"

definition publisher_unregisterSubscriber ::
  "client_id \<Rightarrow> channel_event writer_table \<Rightarrow> channel_event writer_table" where
  "publisher_unregisterSubscriber i t =
     (case umap_find (writers t) (id_value i) of
        None \<Rightarrow> t
      | Some entry \<Rightarrow>
          let t' = t\<lparr>writers := umap_erase (id_value i) (writers t)\<rparr>
          in (case entry of None \<Rightarrow> t' | Some e \<Rightarrow> disarm_entry e t'))"

definition publisher_publish ::
  "'u platform \<Rightarrow> client_registry option \<Rightarrow> client_id \<Rightarrow> message \<Rightarrow>
   channel_event writer_table \<Rightarrow> channel_event writer_table" where
  "publisher_publish P reg recipient_id m t =
     (case umap_find (writers t) (id_value recipient_id) of
        None \<Rightarrow> t
      | Some entry \<Rightarrow>
          (case entry of
             None \<Rightarrow> t
           | Some e \<Rightarrow> write_entry (message_to_event P reg m) e t))"

fun member_targets ::
  "'u platform \<Rightarrow> client_id list \<Rightarrow> (string \<times> nat option) list \<Rightarrow> nat list \<Rightarrow> nat list" where
  "member_targets P recipients [] targets = targets"
| "member_targets P recipients ((client_id_str, entry) # rest) targets =
     (case (entry, strong_id_parse P client_id_str :: client_id option) of
        (Some e, Some recipient_id) \<Rightarrow>
          if recipient_id \<in> set recipients
          then member_targets P recipients rest (targets @ [e])
          else member_targets P recipients rest targets
      | _ \<Rightarrow> member_targets P recipients rest targets)"

definition publisher_broadcastMemberJoined ::
  "'u platform \<Rightarrow> channel_id \<Rightarrow> client_id list \<Rightarrow> client_id \<Rightarrow> username \<Rightarrow>
   channel_event writer_table \<Rightarrow> channel_event writer_table" where
  "publisher_broadcastMemberJoined P channel_id recipients client_id name t =
     (let event = MemberJoined (id_value channel_id) (id_value client_id) (username_value name)
      in fold (write_entry event) (member_targets P recipients (writers t) []) t)"

definition publisher_broadcastMemberLeft ::
  "'u platform \<Rightarrow> channel_id \<Rightarrow> client_id list \<Rightarrow> client_id \<Rightarrow> username \<Rightarrow>
   channel_event writer_table \<Rightarrow> channel_event writer_table" where
  "publisher_broadcastMemberLeft P channel_id recipients client_id name t =
     (let event = MemberLeft (id_value channel_id) (id_value client_id) (username_value name)
      in fold (write_entry event) (member_targets P recipients (writers t) []) t)"

definition publisher_broadcastEvent ::
  "channel_id \<Rightarrow> channel_event \<Rightarrow> channel_event writer_table \<Rightarrow> channel_event writer_table" where
  "publisher_broadcastEvent channel_id event t =
     fold (write_entry event) (all_targets (writers t) []) t"

subsection \<open>The publisher of the channel list\<close>

record channel_summary =
  sum_id :: string
  sum_name :: string
  sum_member_count :: "32 word"

datatype channel_list_event =
    Snapshot "channel_summary list"
  | ChannelCreated channel_summary
  | MemberCountChanged string "32 word"
  | ListEventNotSet

definition channel_summary_of :: "channel \<Rightarrow> channel_summary" where
  "channel_summary_of ch =
     \<lparr>sum_id = id_value (chan_id ch), sum_name = channel_name_value (chan_name ch),
      sum_member_count = int32_of_size (memberCount ch)\<rparr>"

definition list_registerSubscriberWithSnapshot ::
  "channel_repo \<Rightarrow> client_id \<Rightarrow> writer option \<Rightarrow> channel_list_event writer_table \<Rightarrow>
   channel_list_event writer_table" where
  "list_registerSubscriberWithSnapshot chans subscriber_id w t =
     (let (entry, t1) = new_entry w t;
          t2 = t1\<lparr>writers := umap_insert_or_assign (id_value subscriber_id) (Some entry) (writers t1)\<rparr>;
          event = Snapshot (map channel_summary_of (channels_listAll chans))
      in write_entry event entry t2)"

definition list_unregisterSubscriber ::
  "client_id \<Rightarrow> channel_list_event writer_table \<Rightarrow> channel_list_event writer_table" where
  "list_unregisterSubscriber subscriber_id t =
     (case umap_find (writers t) (id_value subscriber_id) of
        None \<Rightarrow> t
      | Some entry \<Rightarrow>
          let t' = t\<lparr>writers := umap_erase (id_value subscriber_id) (writers t)\<rparr>
          in (case entry of None \<Rightarrow> t' | Some e \<Rightarrow> disarm_entry e t'))"

definition list_publishChannelCreated ::
  "channel \<Rightarrow> channel_list_event writer_table \<Rightarrow> channel_list_event writer_table" where
  "list_publishChannelCreated ch t =
     fold (\<lambda>entry t'. write_entry (ChannelCreated (channel_summary_of ch)) entry t')
       (all_targets (writers t) []) t"

definition list_publishMemberCountChanged ::
  "channel_id \<Rightarrow> 32 word \<Rightarrow> channel_list_event writer_table \<Rightarrow> channel_list_event writer_table" where
  "list_publishMemberCountChanged channel_id member_count t =
     fold (\<lambda>entry t'. write_entry (MemberCountChanged (id_value channel_id) member_count) entry t')
       (all_targets (writers t) []) t"

subsection \<open>The table invariant\<close>

text \<open>The writer that currently receives the events of a client.\<close>

definition live :: "'ev writer_table \<Rightarrow> string \<Rightarrow> writer option" where
  "live t k = (case umap_find (writers t) k of Some (Some e) \<Rightarrow> entry_writer t e | _ \<Rightarrow> None)"

text \<open>
  Table entries are never null pointers, two clients never share one, and every key is the text of
  an identifier that the parser accepts.
\<close>

definition table_wf :: "'u platform \<Rightarrow> 'ev writer_table \<Rightarrow> bool" where
  "table_wf P t \<longleftrightarrow> umap_wf (writers t) \<and>
     (\<forall>k x. umap_find (writers t) k = Some x \<longrightarrow>
        (\<exists>e. x = Some e \<and> e < length (entries t)) \<and>
        strong_id_parse P k = Some (StrongId k :: client_id)) \<and>
     (\<forall>k l e. umap_find (writers t) k = Some (Some e) \<longrightarrow> umap_find (writers t) l = Some (Some e) \<longrightarrow> k = l)"

lemma table_wf_umap: "table_wf P t \<Longrightarrow> umap_wf (writers t)"
  by (simp add: table_wf_def)

lemma table_wf_entry:
  "table_wf P t \<Longrightarrow> umap_find (writers t) k = Some x \<Longrightarrow> \<exists>e. x = Some e \<and> e < length (entries t)"
  by (simp add: table_wf_def)

lemma table_wf_key:
  "table_wf P t \<Longrightarrow> umap_find (writers t) k = Some x \<Longrightarrow> strong_id_parse P k = Some (StrongId k :: client_id)"
  by (simp add: table_wf_def)

lemma table_wf_inj:
  "table_wf P t \<Longrightarrow> umap_find (writers t) k = Some (Some e) \<Longrightarrow>
   umap_find (writers t) l = Some (Some e) \<Longrightarrow> k = l"
  unfolding table_wf_def by blast

lemma no_writers_simps [simp]:
  "table_wf P no_writers" "live no_writers k = None" "written no_writers = []"
  by (simp_all add: no_writers_def table_wf_def live_def)

text \<open>Writing to entries changes nothing but the sequence of \<open>Write\<close> calls.\<close>

lemma write_entry_simps [simp]:
  "writers (write_entry ev e t) = writers t" "entries (write_entry ev e t) = entries t"
  "written (write_entry ev e t) =
     written t @ (case entry_writer t e of None \<Rightarrow> [] | Some w \<Rightarrow> [(w, ev)])"
  by (simp_all add: write_entry_def split: option.splits)

lemma entry_writer_write [simp]: "entry_writer (write_entry ev e t) d = entry_writer t d"
  by (simp add: entry_writer_def)

lemma fold_write_simps [simp]:
  "writers (fold (write_entry ev) es t) = writers t" "entries (fold (write_entry ev) es t) = entries t"
  by (induction es arbitrary: t) simp_all

lemma written_fold_write:
  "written (fold (write_entry ev) es t) =
     written t @ concat (map (\<lambda>e. case entry_writer t e of None \<Rightarrow> [] | Some w \<Rightarrow> [(w, ev)]) es)"
  by (induction es arbitrary: t) simp_all

lemma table_wf_cong: "writers t' = writers t \<Longrightarrow> entries t' = entries t \<Longrightarrow> table_wf P t' = table_wf P t"
  by (simp add: table_wf_def)

lemma live_cong: "writers t' = writers t \<Longrightarrow> entries t' = entries t \<Longrightarrow> live t' = live t"
  by (simp add: live_def entry_writer_def fun_eq_iff split: option.splits)

text \<open>Both publishers register and unregister in the same way, but for the snapshot.\<close>

definition table_register :: "string \<Rightarrow> writer option \<Rightarrow> 'ev writer_table \<Rightarrow> 'ev writer_table" where
  "table_register k w t =
     t\<lparr>entries := entries t @ [w], writers := umap_insert_or_assign k (Some (length (entries t))) (writers t)\<rparr>"

definition table_unregister :: "string \<Rightarrow> 'ev writer_table \<Rightarrow> 'ev writer_table" where
  "table_unregister k t =
     (case umap_find (writers t) k of
        None \<Rightarrow> t
      | Some None \<Rightarrow> t\<lparr>writers := umap_erase k (writers t)\<rparr>
      | Some (Some e) \<Rightarrow> t\<lparr>writers := umap_erase k (writers t), entries := (entries t)[e := None]\<rparr>)"

lemma publisher_register_eq: "publisher_registerSubscriber i w t = table_register (id_value i) w t"
  by (simp add: publisher_registerSubscriber_def new_entry_def table_register_def)

lemma publisher_unregister_eq: "publisher_unregisterSubscriber i t = table_unregister (id_value i) t"
  by (simp add: publisher_unregisterSubscriber_def table_unregister_def disarm_entry_def
      split: option.splits)

lemma list_unregister_eq: "list_unregisterSubscriber i t = table_unregister (id_value i) t"
  by (simp add: list_unregisterSubscriber_def table_unregister_def disarm_entry_def
      split: option.splits)

lemma list_register_eq:
  "list_registerSubscriberWithSnapshot chans i w t =
     write_entry (Snapshot (map channel_summary_of (channels_listAll chans))) (length (entries t))
       (table_register (id_value i) w t)"
  by (simp add: list_registerSubscriberWithSnapshot_def new_entry_def table_register_def Let_def)

lemma table_wf_register:
  assumes wf: "table_wf P t" and key: "strong_id_parse P k = Some (StrongId k :: client_id)"
  shows "table_wf P (table_register k w t)"
proof -
  have "e < length (entries t)" if "umap_find (writers t) l = Some (Some e)" for l e
    using table_wf_entry [OF wf that] by simp
  then show ?thesis
    using wf key unfolding table_wf_def table_register_def
    by (auto simp: less_Suc_eq split: if_splits) (blast | fastforce)+
qed

lemma live_register:
  assumes wf: "table_wf P t"
  shows "live (table_register k w t) l = (if l = k then w else live t l)"
proof (cases "umap_find (writers t) l")
  case None
  then show ?thesis by (simp add: live_def table_register_def entry_writer_def)
next
  case (Some x)
  then show ?thesis
    using table_wf_entry [OF wf Some]
    by (auto simp: live_def table_register_def entry_writer_def nth_append)
qed

lemma table_wf_unregister:
  assumes wf: "table_wf P t"
  shows "table_wf P (table_unregister k t)"
  using wf by (fastforce simp: table_wf_def table_unregister_def split: option.splits if_splits)

lemma live_unregister:
  assumes wf: "table_wf P t"
  shows "live (table_unregister k t) l = (if l = k then None else live t l)"
proof (cases "umap_find (writers t) k")
  case None
  then show ?thesis by (simp add: live_def table_unregister_def)
next
  case (Some x)
  then obtain e where x: "x = Some e" "e < length (entries t)"
    using table_wf_entry [OF wf] by blast
  have "d \<noteq> e" if "umap_find (writers t) l = Some (Some d)" "l \<noteq> k" for d
    using that Some x table_wf_inj [OF wf] by blast
  then show ?thesis
    using Some x by (auto simp: live_def table_unregister_def entry_writer_def split: option.splits)
qed

lemma written_table [simp]:
  "written (table_register k w t) = written t" "written (table_unregister k t) = written t"
  by (simp_all add: table_register_def table_unregister_def split: option.splits)

subsection \<open>Whom the loops reach\<close>

text \<open>The writers that events for the clients in \<open>Q\<close> go to, in the order of the table.\<close>

definition live_targets :: "(string \<Rightarrow> bool) \<Rightarrow> 'ev writer_table \<Rightarrow> writer list" where
  "live_targets Q t =
     List.map_filter (\<lambda>k. if Q k then live t k else None) (map fst (writers t))"

lemma all_targets_acc:
  "all_targets m targets = targets @ List.map_filter snd m"
  by (induction m arbitrary: targets) (auto simp: map_filter_simps split: option.splits)

lemma member_targets_acc:
  assumes "\<And>k x. (k, x) \<in> set m \<Longrightarrow> strong_id_parse P k = Some (StrongId k :: client_id)"
  shows "member_targets P recipients m targets =
     targets @ List.map_filter (\<lambda>(k, x). if StrongId k \<in> set recipients then x else None) m"
  using assms
proof (induction m arbitrary: targets)
  case (Cons a m)
  obtain k x where "a = (k, x)" by fastforce
  moreover from this have "strong_id_parse P k = Some (StrongId k :: client_id)"
    using Cons.prems [of k x] by simp
  moreover have "member_targets P recipients m ts =
      ts @ List.map_filter (\<lambda>(k, x). if StrongId k \<in> set recipients then x else None) m" for ts
    by (rule Cons.IH) (auto intro: Cons.prems)
  ultimately show ?case
    by (simp add: map_filter_simps split: option.splits)
qed (simp add: map_filter_simps)

lemma concat_map_filter_writes:
  "concat (map (\<lambda>e. case f e of None \<Rightarrow> [] | Some w \<Rightarrow> [(w, ev)]) (List.map_filter g m)) =
     map (\<lambda>w. (w, ev)) (List.map_filter (\<lambda>a. Option.bind (g a) f) m)"
  by (induction m) (auto simp: map_filter_simps split: option.splits)

lemma live_targets_writes:
  assumes wf: "table_wf P t"
  shows "List.map_filter (\<lambda>a. Option.bind (if Q (fst a) then snd a else None) (entry_writer t)) (writers t)
     = live_targets Q t"
proof -
  have "live t k = Option.bind x (entry_writer t)" if "(k, x) \<in> set (writers t)" for k x
    using that table_wf_umap [OF wf] by (simp add: umap_mem_iff live_def split: option.splits)
  then have "Option.bind (if Q (fst a) then snd a else None) (entry_writer t) =
      (if Q (fst a) then live t (fst a) else None)" if "a \<in> set (writers t)" for a
    using that by (cases a) simp
  then show ?thesis
    unfolding live_targets_def List.map_filter_def
    by (simp add: filter_map comp_def cong: filter_cong map_cong)
qed

lemma written_all_targets:
  assumes wf: "table_wf P t"
  shows "written (fold (write_entry ev) (all_targets (writers t) []) t) =
     written t @ map (\<lambda>w. (w, ev)) (live_targets (\<lambda>k. True) t)"
  using live_targets_writes [OF wf, of "\<lambda>k. True"]
  by (simp add: written_fold_write all_targets_acc concat_map_filter_writes)

lemma written_member_targets:
  assumes wf: "table_wf P t"
  shows "written (fold (write_entry ev) (member_targets P recipients (writers t) []) t) =
     written t @ map (\<lambda>w. (w, ev)) (live_targets (\<lambda>k. StrongId k \<in> set recipients) t)"
proof -
  have key: "strong_id_parse P k = Some (StrongId k :: client_id)" if "(k, x) \<in> set (writers t)" for k x
    using that wf table_wf_umap [OF wf] by (simp add: umap_mem_iff table_wf_key)
  show ?thesis
    using live_targets_writes [OF wf, of "\<lambda>k. StrongId k \<in> set recipients"]
    by (simp add: written_fold_write member_targets_acc [OF key] concat_map_filter_writes case_prod_beta)
qed

lemma live_mem_writers: "live t k = Some w \<Longrightarrow> k \<in> fst ` set (writers t)"
  by (force simp: live_def dest: umap_find_mem split: option.splits)

lemma set_live_targets: "set (live_targets Q t) = {w. \<exists>k. Q k \<and> live t k = Some w}"
proof
  show "set (live_targets Q t) \<subseteq> {w. \<exists>k. Q k \<and> live t k = Some w}"
    by (fastforce simp: live_targets_def List.map_filter_def split: if_splits)
  show "{w. \<exists>k. Q k \<and> live t k = Some w} \<subseteq> set (live_targets Q t)"
  proof
    fix w assume "w \<in> {w. \<exists>k. Q k \<and> live t k = Some w}"
    then obtain k where k: "Q k" "live t k = Some w" by blast
    then have "k \<in> set (filter (\<lambda>x. (if Q x then live t x else None) \<noteq> None) (map fst (writers t)))"
      using live_mem_writers [OF k(2)] by simp
    then show "w \<in> set (live_targets Q t)"
      using k(1,2) unfolding live_targets_def List.map_filter_def set_map
      by (intro image_eqI [of _ _ k]) simp_all
  qed
qed

lemma length_live_targets:
  assumes wf: "table_wf P t"
  shows "length (live_targets Q t) = card {k. Q k \<and> live t k \<noteq> None}"
proof -
  define ks where "ks = filter (\<lambda>k. (if Q k then live t k else None) \<noteq> None) (map fst (writers t))"
  have distinct: "distinct ks"
    using table_wf_umap [OF wf] by (simp add: umap_wf_def ks_def)
  have "k \<in> set ks \<longleftrightarrow> Q k \<and> live t k \<noteq> None" for k
    using live_mem_writers [of t k] unfolding ks_def set_filter set_map by (cases "live t k") simp_all
  then have "set ks = {k. Q k \<and> live t k \<noteq> None}"
    by blast
  moreover have "length (live_targets Q t) = length ks"
    unfolding live_targets_def List.map_filter_def length_map ks_def by (rule refl)
  ultimately show ?thesis
    using distinct_card [OF distinct] by simp
qed

lemma filter_map_filter_unique:
  assumes "distinct ks" and at: "f k = Some w" and only: "\<And>l. f l = Some w \<Longrightarrow> l = k"
  shows "filter (\<lambda>x. x = w) (List.map_filter f ks) = (if k \<in> set ks then [w] else [])"
  using assms(1)
proof (induction ks)
  case (Cons a ks)
  show ?case
  proof (cases "a = k")
    case True
    then show ?thesis
      using Cons at by (simp add: map_filter_simps)
  next
    case False
    then have "f a \<noteq> Some w"
      using only by blast
    then show ?thesis
      using Cons False by (cases "f a") (simp_all add: map_filter_simps)
  qed
qed (simp add: map_filter_simps)

lemma live_targets_once:
  assumes wf: "table_wf P t" and live: "live t k = Some w" and only: "\<And>l. live t l = Some w \<Longrightarrow> l = k"
    and Q: "Q k"
  shows "filter (\<lambda>x. x = w) (live_targets Q t) = [w]"
proof -
  have distinct: "distinct (map fst (writers t))"
    using table_wf_umap [OF wf] by (simp add: umap_wf_def)
  have "l = k" if "(if Q l then live t l else None) = Some w" for l
    using that only by (simp split: if_splits)
  from filter_map_filter_unique [OF distinct, where f = "\<lambda>l. if Q l then live t l else None", OF _ this]
  show ?thesis
    using live Q live_mem_writers [OF live] by (simp add: live_targets_def)
qed

subsection \<open>The contract of a subscriber table\<close>

text \<open>What the client behind a writer has received, in order.\<close>

definition events_to :: "writer \<Rightarrow> (writer \<times> 'ev) list \<Rightarrow> 'ev list" where
  "events_to w log = map snd (filter (\<lambda>x. fst x = w) log)"

lemma events_to_append [simp]: "events_to w (xs @ ys) = events_to w xs @ events_to w ys"
  by (simp add: events_to_def)

lemma events_to_same: "events_to w (map (\<lambda>v. (v, ev)) ws) = map (\<lambda>v. ev) (filter (\<lambda>v. v = w) ws)"
  by (induction ws) (simp_all add: events_to_def)

text \<open>
  What both publishers promise: a registration replaces the writer of its client and of no other,
  an unregistration takes it away, and a delivery writes only to writers that are registered when
  it runs.
\<close>

locale subscriber_table =
  fixes live_writer :: "'t \<Rightarrow> string \<Rightarrow> writer option"
    and sent :: "'t \<Rightarrow> (writer \<times> 'ev) list"
    and wf :: "'t \<Rightarrow> bool"
    and key_ok :: "string \<Rightarrow> bool"
    and register :: "client_id \<Rightarrow> writer option \<Rightarrow> 't \<Rightarrow> 't"
    and unregister :: "client_id \<Rightarrow> 't \<Rightarrow> 't"
    and deliver :: "'d \<Rightarrow> 't \<Rightarrow> 't"
  assumes live_register: "wf t \<Longrightarrow>
        live_writer (register i w t) l = (if l = id_value i then w else live_writer t l)"
    and live_unregister: "wf t \<Longrightarrow>
        live_writer (unregister i t) l = (if l = id_value i then None else live_writer t l)"
    and live_deliver: "live_writer (deliver d t) = live_writer t"
    and wf_register: "wf t \<Longrightarrow> key_ok (id_value i) \<Longrightarrow> wf (register i w t)"
    and wf_unregister: "wf t \<Longrightarrow> wf (unregister i t)"
    and wf_deliver: "wf t \<Longrightarrow> wf (deliver d t)"
    and sent_unregister: "sent (unregister i t) = sent t"
    and sent_deliver: "wf t \<Longrightarrow> \<exists>evs. sent (deliver d t) = sent t @ evs \<and>
        (\<forall>w\<in>fst ` set evs. \<exists>k. live_writer t k = Some w)"
begin

lemma live_run: "live_writer (fold deliver ds t) = live_writer t"
  by (induction ds arbitrary: t) (simp_all add: live_deliver)

lemma wf_run: "wf t \<Longrightarrow> wf (fold deliver ds t)"
  by (induction ds arbitrary: t) (simp_all add: wf_deliver)

lemma silent_deliver:
  assumes "wf t" and "\<And>k. live_writer t k \<noteq> Some w"
  shows "events_to w (sent (deliver d t)) = events_to w (sent t)"
proof -
  obtain evs where evs: "sent (deliver d t) = sent t @ evs"
      "\<forall>v\<in>fst ` set evs. \<exists>k. live_writer t k = Some v"
    using sent_deliver [OF assms(1)] by blast
  have "filter (\<lambda>x. fst x = w) evs = []"
    using evs(2) assms(2) by (force simp: filter_empty_conv)
  then show ?thesis
    by (simp add: events_to_def evs(1))
qed

lemma silent_run:
  "wf t \<Longrightarrow> (\<And>k. live_writer t k \<noteq> Some w) \<Longrightarrow> events_to w (sent (fold deliver ds t)) = events_to w (sent t)"
proof (induction ds arbitrary: t)
  case (Cons d ds)
  then show ?case
    by (simp add: wf_deliver live_deliver silent_deliver)
qed simp

lemma silent_after_unregister:
  assumes "wf t" and "\<And>k. live_writer t k = Some w \<Longrightarrow> k = id_value i"
  shows "events_to w (sent (fold deliver ds (unregister i t))) = events_to w (sent t)"
proof -
  have "events_to w (sent (fold deliver ds (unregister i t))) = events_to w (sent (unregister i t))"
    using assms by (intro silent_run wf_unregister) (auto simp: live_unregister)
  then show ?thesis
    by (simp add: events_to_def sent_unregister)
qed

lemma silent_after_replace:
  assumes "wf t" and "key_ok (id_value i)" and "v \<noteq> w"
    and "\<And>k. live_writer t k = Some w \<Longrightarrow> k = id_value i"
  shows "events_to w (sent (fold deliver ds (register i (Some v) t))) = events_to w (sent (register i (Some v) t))"
  using assms by (intro silent_run wf_register) (auto simp: live_register)

end

text \<open>The deliveries of the two publishers.\<close>

datatype channel_delivery =
    Publish "client_registry option" client_id message
  | BroadcastJoined channel_id "client_id list" client_id username
  | BroadcastLeft channel_id "client_id list" client_id username
  | BroadcastAny channel_id channel_event

fun channel_deliver ::
  "'u platform \<Rightarrow> channel_delivery \<Rightarrow> channel_event writer_table \<Rightarrow> channel_event writer_table" where
  "channel_deliver P (Publish reg i m) t = publisher_publish P reg i m t"
| "channel_deliver P (BroadcastJoined c rs i u) t = publisher_broadcastMemberJoined P c rs i u t"
| "channel_deliver P (BroadcastLeft c rs i u) t = publisher_broadcastMemberLeft P c rs i u t"
| "channel_deliver P (BroadcastAny c ev) t = publisher_broadcastEvent c ev t"

datatype list_delivery = PublishCreated channel | PublishCount channel_id "32 word"

fun list_deliver ::
  "list_delivery \<Rightarrow> channel_list_event writer_table \<Rightarrow> channel_list_event writer_table" where
  "list_deliver (PublishCreated ch) t = list_publishChannelCreated ch t"
| "list_deliver (PublishCount c n) t = list_publishMemberCountChanged c n t"

definition client_key_ok :: "'u platform \<Rightarrow> string \<Rightarrow> bool" where
  "client_key_ok P k \<longleftrightarrow> strong_id_parse P k = Some (StrongId k :: client_id)"

lemma publisher_publish_eq:
  "publisher_publish P reg i m t =
     (case umap_find (writers t) (id_value i) of
        Some (Some e) \<Rightarrow> write_entry (message_to_event P reg m) e t | _ \<Rightarrow> t)"
  by (simp add: publisher_publish_def split: option.splits)

lemma written_publish:
  "written (publisher_publish P reg i m t) =
     written t @ (case live t (id_value i) of None \<Rightarrow> [] | Some w \<Rightarrow> [(w, message_to_event P reg m)])"
  by (simp add: publisher_publish_eq live_def split: option.splits)

lemma publish_frame [simp, frame_simps]:
  "writers (publisher_publish P reg i m t) = writers t" "entries (publisher_publish P reg i m t) = entries t"
  by (simp_all add: publisher_publish_eq split: option.splits)

lemma channel_deliver_frame [simp]:
  "writers (channel_deliver P d t) = writers t" "entries (channel_deliver P d t) = entries t"
  by (cases d; simp add: publisher_broadcastMemberJoined_def publisher_broadcastMemberLeft_def
      publisher_broadcastEvent_def)+

lemma list_deliver_frame [simp]:
  "writers (list_deliver d t) = writers t" "entries (list_deliver d t) = entries t"
  by (cases d; simp add: list_publishChannelCreated_def list_publishMemberCountChanged_def)+

lemma channel_deliver_sent:
  assumes wf: "table_wf P t"
  shows "\<exists>evs. written (channel_deliver P d t) = written t @ evs \<and>
     (\<forall>w\<in>fst ` set evs. \<exists>k. live t k = Some w)"
proof (cases d)
  case (Publish reg i m)
  then show ?thesis
    by (cases "live t (id_value i)") (auto simp: written_publish)
next
  case (BroadcastJoined c rs i u)
  then show ?thesis
    by (auto simp: publisher_broadcastMemberJoined_def written_member_targets [OF wf] set_live_targets)
next
  case (BroadcastLeft c rs i u)
  then show ?thesis
    by (auto simp: publisher_broadcastMemberLeft_def written_member_targets [OF wf] set_live_targets)
next
  case (BroadcastAny c ev)
  then show ?thesis
    by (auto simp: publisher_broadcastEvent_def written_all_targets [OF wf] set_live_targets)
qed

fun list_event_of :: "list_delivery \<Rightarrow> channel_list_event" where
  "list_event_of (PublishCreated ch) = ChannelCreated (channel_summary_of ch)"
| "list_event_of (PublishCount c n) = MemberCountChanged (id_value c) n"

lemma written_list_deliver:
  "table_wf P t \<Longrightarrow> written (list_deliver d t) =
     written t @ map (\<lambda>w. (w, list_event_of d)) (live_targets (\<lambda>k. True) t)"
  by (cases d) (simp_all add: list_publishChannelCreated_def list_publishMemberCountChanged_def
      written_all_targets)

interpretation channel_pub: subscriber_table live written "table_wf P" "client_key_ok P"
    publisher_registerSubscriber publisher_unregisterSubscriber "channel_deliver P"
  for P :: "'u platform"
proof
  fix t :: "channel_event writer_table" and i w l d
  show "table_wf P t \<Longrightarrow>
      live (publisher_registerSubscriber i w t) l = (if l = id_value i then w else live t l)"
    by (simp add: publisher_register_eq live_register)
  show "table_wf P t \<Longrightarrow>
      live (publisher_unregisterSubscriber i t) l = (if l = id_value i then None else live t l)"
    by (simp add: publisher_unregister_eq live_unregister)
  show "live (channel_deliver P d t) = live t"
    by (intro live_cong) simp_all
  show "table_wf P t \<Longrightarrow> client_key_ok P (id_value i) \<Longrightarrow> table_wf P (publisher_registerSubscriber i w t)"
    by (simp add: publisher_register_eq client_key_ok_def table_wf_register)
  show "table_wf P t \<Longrightarrow> table_wf P (publisher_unregisterSubscriber i t)"
    by (simp add: publisher_unregister_eq table_wf_unregister)
  show "table_wf P t \<Longrightarrow> table_wf P (channel_deliver P d t)"
    by (simp add: table_wf_cong [of "channel_deliver P d t" t])
  show "written (publisher_unregisterSubscriber i t) = written t"
    by (simp add: publisher_unregister_eq)
qed (rule channel_deliver_sent)

interpretation list_pub: subscriber_table live written "table_wf P" "client_key_ok P"
    "list_registerSubscriberWithSnapshot chans" list_unregisterSubscriber list_deliver
  for P :: "'u platform" and chans :: channel_repo
proof
  fix t :: "channel_list_event writer_table" and i w l d
  show "table_wf P t \<Longrightarrow>
      live (list_registerSubscriberWithSnapshot chans i w t) l = (if l = id_value i then w else live t l)"
    by (simp add: list_register_eq live_register live_cong [of "write_entry _ _ _"])
  show "table_wf P t \<Longrightarrow>
      live (list_unregisterSubscriber i t) l = (if l = id_value i then None else live t l)"
    by (simp add: list_unregister_eq live_unregister)
  show "live (list_deliver d t) = live t"
    by (intro live_cong) simp_all
  show "table_wf P t \<Longrightarrow> client_key_ok P (id_value i) \<Longrightarrow>
      table_wf P (list_registerSubscriberWithSnapshot chans i w t)"
    by (simp add: list_register_eq client_key_ok_def table_wf_register
        table_wf_cong [of "write_entry _ _ _"])
  show "table_wf P t \<Longrightarrow> table_wf P (list_unregisterSubscriber i t)"
    by (simp add: list_unregister_eq table_wf_unregister)
  show "table_wf P t \<Longrightarrow> table_wf P (list_deliver d t)"
    by (simp add: table_wf_cong [of "list_deliver d t" t])
  show "written (list_unregisterSubscriber i t) = written t"
    by (simp add: list_unregister_eq)
  assume "table_wf P t"
  from written_list_deliver [OF this, of d]
  show "\<exists>evs. written (list_deliver d t) = written t @ evs \<and> (\<forall>w\<in>fst ` set evs. \<exists>k. live t k = Some w)"
    by (auto simp: set_live_targets)
qed

subsection \<open>Properties\<close>

text \<open>
  Delivering a message to a recipient writes exactly one event, with the message's fields and
  the sender's recorded name, to the writer the recipient is registered with, and nothing when the
  recipient has no live writer; nobody's registration changes.
\<close>

theorem publisher_publish_exact:
  "(\<exists>name. written (publisher_publish P (Some reg) i m t) =
      written t @
      (case live t (id_value i) of
         None \<Rightarrow> []
       | Some w \<Rightarrow>
           [(w, MessageEv \<lparr>ev_message_id = id_value (msg_id m), ev_channel_id = id_value (msg_channel_id m),
               ev_sender_id = id_value (msg_sender_id m), ev_sender_name = name,
               ev_content = content_value (msg_content m), ev_sent_at_ms = to_epoch_ms P (msg_sent_at m)\<rparr>)])
      \<and> name = (case username_history reg (id_value (msg_sender_id m)) of
                  None \<Rightarrow> [] | Some u \<Rightarrow> username_value u))
   \<and> live (publisher_publish P (Some reg) i m t) = live t"
proof -
  have "live (publisher_publish P (Some reg) i m t) = live t"
    by (intro live_cong) simp_all
  moreover have "message_to_event P (Some reg) m =
      MessageEv \<lparr>ev_message_id = id_value (msg_id m), ev_channel_id = id_value (msg_channel_id m),
        ev_sender_id = id_value (msg_sender_id m),
        ev_sender_name = (case username_history reg (id_value (msg_sender_id m)) of
          None \<Rightarrow> [] | Some u \<Rightarrow> username_value u),
        ev_content = content_value (msg_content m), ev_sent_at_ms = to_epoch_ms P (msg_sent_at m)\<rparr>"
    by (simp add: message_to_event_def clients_lookupUsername_def username_history_def split: option.splits)
  ultimately show ?thesis
    by (simp only: written_publish simp_thms) (rule exI, rule conjI [OF _ refl], simp)
qed

text \<open>
  A departure is broadcast to exactly the live writers of the remaining members, once each,
  whoever else is subscribed; the registrations do not change.
\<close>

theorem broadcastMemberLeft_exact:
  assumes "table_wf P t"
  shows "\<exists>ws. written (publisher_broadcastMemberLeft P c recipients i u t) =
       written t @ map (\<lambda>w. (w, MemberLeft (id_value c) (id_value i) (username_value u))) ws
     \<and> set ws = {w. \<exists>r\<in>set recipients. live t (id_value r) = Some w}
     \<and> length ws = card {r\<in>set recipients. live t (id_value r) \<noteq> None}
     \<and> live (publisher_broadcastMemberLeft P c recipients i u t) = live t"
proof -
  let ?ws = "live_targets (\<lambda>k. StrongId k \<in> set recipients) t"
  have ids: "(\<exists>k. StrongId k \<in> set recipients \<and> live t k = Some w) \<longleftrightarrow>
      (\<exists>r\<in>set recipients. live t (id_value r) = Some w)" for w
    by (metis strong_id.collapse strong_id.sel)
  have "{r\<in>set recipients. live t (id_value r) \<noteq> None} =
      StrongId ` {k. StrongId k \<in> set recipients \<and> live t k \<noteq> None}"
    by (auto simp: image_iff) (metis strong_id.collapse)
  then have "length ?ws = card {r\<in>set recipients. live t (id_value r) \<noteq> None}"
    using length_live_targets [OF assms] by (simp add: card_image inj_on_def)
  moreover have "live (publisher_broadcastMemberLeft P c recipients i u t) = live t"
    by (intro live_cong) (simp_all add: publisher_broadcastMemberLeft_def)
  ultimately show ?thesis
    using ids by (intro exI [of _ ?ws])
      (simp add: publisher_broadcastMemberLeft_def written_member_targets [OF assms] set_live_targets)
qed

definition demo_table :: "channel_event writer_table" where
  "demo_table = publisher_registerSubscriber (StrongId (demo_text U2)) (Some 7)
     (publisher_registerSubscriber (StrongId (demo_text U1)) (Some 5) no_writers)"

lemma demo_table_wf: "table_wf demo_platform demo_table"
  by (simp add: demo_table_def publisher_register_eq table_wf_register demo_parse)

lemma demo_table_live:
  "live demo_table k = (if k = demo_text U2 then Some 7 else if k = demo_text U1 then Some 5 else None)"
  by (simp add: demo_table_def publisher_register_eq table_wf_register live_register demo_parse
      live_register [of demo_platform] table_wf_register [of demo_platform])

theorem broadcastMemberLeft_exact_witness:
  "\<exists>ws. written (publisher_broadcastMemberLeft demo_platform (StrongId (demo_text U0))
        [StrongId (demo_text U1)] (StrongId (demo_text U3)) (Username ''bob'') demo_table) =
      written demo_table @ map (\<lambda>w. (w, MemberLeft (demo_text U0) (demo_text U3) ''bob'')) ws
      \<and> set ws = {5}"
proof -
  have "{w. \<exists>r\<in>set [StrongId (demo_text U1)]. live demo_table (id_value r) = Some w} = {5}"
    by (auto simp: demo_table_live)
  then show ?thesis
    using broadcastMemberLeft_exact [OF demo_table_wf, of "StrongId (demo_text U0)"
      "[StrongId (demo_text U1)]" "StrongId (demo_text U3)" "Username ''bob''"]
    by auto
qed

text \<open>
  Once a stream is unregistered, no later delivery of any kind writes to it again, provided
  the stream was registered for that client only: the writer may be freed.
\<close>

theorem unregister_silences:
  assumes "table_wf P t" and "\<And>k. live t k = Some w \<Longrightarrow> k = id_value i"
  shows "events_to w (written (fold (channel_deliver P) ds (publisher_unregisterSubscriber i t))) =
     events_to w (written t)"
  using assms by (rule channel_pub.silent_after_unregister)

theorem unregister_silences_witness:
  "events_to 5 (written (channel_deliver demo_platform (BroadcastAny (StrongId (demo_text U0)) EventNotSet)
     (publisher_unregisterSubscriber (StrongId (demo_text U1)) demo_table))) = []"
proof -
  have "k = id_value (StrongId (demo_text U1) :: client_id)" if "live demo_table k = Some 5" for k
    using that by (simp add: demo_table_live split: if_splits)
  from unregister_silences [OF demo_table_wf this, where ds =
      "[BroadcastAny (StrongId (demo_text U0)) EventNotSet]"]
  have "events_to 5 (written (channel_deliver demo_platform
      (BroadcastAny (StrongId (demo_text U0)) EventNotSet)
      (publisher_unregisterSubscriber (StrongId (demo_text U1)) demo_table))) = events_to 5 (written demo_table)"
    by simp
  then show ?thesis
    by (simp only:) (simp add: demo_table_def publisher_register_eq events_to_def)
qed

lemma list_deliver_stream:
  assumes "table_wf P t" and "live t k = Some w" and "\<And>l. live t l = Some w \<Longrightarrow> l = k"
  shows "events_to w (written (fold list_deliver ds t)) =
     events_to w (written t) @ map list_event_of ds"
  using assms
proof (induction ds arbitrary: t)
  case (Cons d ds)
  have "events_to w (written (list_deliver d t)) = events_to w (written t) @ [list_event_of d]"
    using written_list_deliver [OF Cons.prems(1)] live_targets_once [OF Cons.prems, of "\<lambda>k. True"]
    by (simp add: events_to_same)
  moreover have "events_to w (written (fold list_deliver ds (list_deliver d t))) =
      events_to w (written (list_deliver d t)) @ map list_event_of ds"
  proof (rule Cons.IH)
    show "table_wf P (list_deliver d t)"
      using Cons.prems(1) by (rule list_pub.wf_deliver)
    show "live (list_deliver d t) k = Some w"
      unfolding list_pub.live_deliver by (rule Cons.prems(2))
    show "l = k" if "live (list_deliver d t) l = Some w" for l
      using that unfolding list_pub.live_deliver by (rule Cons.prems(3))
  qed
  ultimately show ?case
    by simp
qed simp

text \<open>
  A subscriber of the channel list gets the snapshot of all channels first, and then every
  later change exactly once and in order, provided its writer is new.
\<close>

theorem list_snapshot_then_updates:
  assumes wf: "table_wf P t" and key: "strong_id_parse P (id_value i) = Some (i :: client_id)"
    and fresh: "events_to w (written t) = []" "\<And>k. live t k = Some w \<Longrightarrow> k = id_value i"
  shows "events_to w (written (fold list_deliver ds (list_registerSubscriberWithSnapshot chans i (Some w) t))) =
     Snapshot (map channel_summary_of (channels_listAll chans)) # map list_event_of ds"
proof -
  let ?t = "list_registerSubscriberWithSnapshot chans i (Some w) t"
  have ok: "client_key_ok P (id_value i)"
    using key by (simp add: client_key_ok_def)
  have "events_to w (written ?t) = [Snapshot (map channel_summary_of (channels_listAll chans))]"
    using fresh(1) by (simp add: list_register_eq entry_writer_def table_register_def events_to_def)
  moreover have "live ?t (id_value i) = Some w"
    by (simp add: list_pub.live_register [OF wf])
  moreover have "l = id_value i" if "live ?t l = Some w" for l
    using that fresh(2) [of l] by (simp add: list_pub.live_register [OF wf] split: if_splits)
  ultimately show ?thesis
    using list_deliver_stream [OF list_pub.wf_register [OF wf ok, of chans "Some w"], of "id_value i" w ds]
    by (metis append_Cons append_Nil)
qed

theorem list_snapshot_then_updates_witness:
  "events_to 3 (written (list_deliver (PublishCount (StrongId (demo_text U2)) 4)
      (list_registerSubscriberWithSnapshot channels_empty (StrongId (demo_text U1)) (Some 3) no_writers))) =
    [Snapshot [], MemberCountChanged (demo_text U2) 4]"
proof -
  have "strong_id_parse demo_platform (id_value (StrongId (demo_text U1))) =
      Some (StrongId (demo_text U1) :: client_id)"
    by simp
  from list_snapshot_then_updates [OF no_writers_simps(1) this, of 3
      "[PublishCount (StrongId (demo_text U2)) 4]" channels_empty]
  show ?thesis
    by (simp add: events_to_def channels_listAll_def channels_empty_def)
qed

end
