(* ===== verification/Usecases.thy ===== *)
theory Usecases
  imports Channel_Repository Client_Registry Message_Repository Publishers
begin

text \<open>
  The application layer of the server (\<open>application/usecase/\<close>): each use case is a function from
  the state of the ports it was constructed with to its result and their new state, with every
  early return of the source as a branch. Clock readings and generated UUIDs are arguments. Each
  port call is atomic; a use case runs here without interference, and the theory of interleavings
  takes \<open>JoinChannel\<close> apart.
\<close>

record server =
  srv_channels :: channel_repo
  srv_clients :: client_registry
  srv_messages :: message_repo
  srv_publisher :: "channel_event writer_table"
  srv_list_publisher :: "channel_list_event writer_table"

subsection \<open>Leaving\<close>

definition removeMemberAndBroadcast ::
  "'u platform \<Rightarrow> session \<Rightarrow> channel_id \<Rightarrow> server \<Rightarrow> unit result \<times> server" where
  "removeMemberAndBroadcast P s channel_id srv =
     (case channels_findById channel_id (srv_channels srv) of
        Inl e \<Rightarrow> (unexpected e, srv)
      | Inr ch \<Rightarrow>
          (case removeMember (sess_id s) ch of
             (Inl e, _) \<Rightarrow> (unexpected e, srv)
           | (Inr _, ch') \<Rightarrow>
               (case channels_save ch' (srv_channels srv) of
                  (Inl e, repo) \<Rightarrow> (unexpected e, srv\<lparr>srv_channels := repo\<rparr>)
                | (Inr _, repo) \<Rightarrow>
                    (Inr (), srv\<lparr>srv_channels := repo,
                       srv_publisher := publisher_broadcastMemberLeft P channel_id (chan_members ch')
                         (sess_id s) (sess_username s) (srv_publisher srv)\<rparr>))))"

definition publish_member_count :: "channel_id \<Rightarrow> channel \<Rightarrow> server \<Rightarrow> server" where
  "publish_member_count channel_id ch srv =
     srv\<lparr>srv_list_publisher :=
       list_publishMemberCountChanged channel_id (int32_of_size (memberCount ch)) (srv_list_publisher srv)\<rparr>"

definition LeaveChannel_execute ::
  "'u platform \<Rightarrow> client_id \<Rightarrow> channel_id \<Rightarrow> server \<Rightarrow> unit result \<times> server" where
  "LeaveChannel_execute P client_id channel_id srv =
     (case clients_findById client_id (srv_clients srv) of
        Inl e \<Rightarrow> (unexpected e, srv)
      | Inr s \<Rightarrow>
          (case removeMemberAndBroadcast P s channel_id srv of
             (Inl e, srv1) \<Rightarrow> (unexpected e, srv1)
           | (Inr _, srv1) \<Rightarrow>
               (case clients_leaveChannelAtomic client_id channel_id (srv_clients srv1) of
                  (left, reg) \<Rightarrow>
                    let srv2 = srv1\<lparr>srv_clients := reg\<rparr>
                    in if (case left of Inl e \<Rightarrow> e \<noteq> ClientNotFound | Inr _ \<Rightarrow> False)
                       then (left, srv2)
                       else (case channels_findById channel_id (srv_channels srv2) of
                               Inl e \<Rightarrow> (unexpected e, srv2)
                             | Inr ch \<Rightarrow> (Inr (), publish_member_count channel_id ch srv2)))))"

subsection \<open>Joining\<close>

fun other_channels_loop :: "channel_id \<Rightarrow> channel_id list \<Rightarrow> channel_id list \<Rightarrow> channel_id list" where
  "other_channels_loop target [] others = others"
| "other_channels_loop target (joined # rest) others =
     other_channels_loop target rest (if joined \<noteq> target then others @ [joined] else others)"

fun leave_each :: "'u platform \<Rightarrow> session \<Rightarrow> channel_id list \<Rightarrow> server \<Rightarrow> unit result \<times> server" where
  "leave_each P s [] srv = (Inr (), srv)"
| "leave_each P s (other_channel_id # rest) srv =
     (case removeMemberAndBroadcast P s other_channel_id srv of
        (removed, srv1) \<Rightarrow>
          if (case removed of Inl e \<Rightarrow> e \<noteq> NotAMember \<and> e \<noteq> ChannelNotFound | Inr _ \<Rightarrow> False)
          then (removed, srv1)
          else
            (case clients_leaveChannelAtomic (sess_id s) other_channel_id (srv_clients srv1) of
               (left, reg) \<Rightarrow>
                 let srv2 = srv1\<lparr>srv_clients := reg\<rparr>
                 in if (case left of Inl e \<Rightarrow> e \<noteq> ClientNotFound | Inr _ \<Rightarrow> False)
                    then (left, srv2)
                    else leave_each P s rest
                      (case channels_findById other_channel_id (srv_channels srv2) of
                         Inl e \<Rightarrow> srv2
                       | Inr other \<Rightarrow> publish_member_count other_channel_id other srv2)))"

definition leaveOtherChannels ::
  "'u platform \<Rightarrow> session \<Rightarrow> channel_id \<Rightarrow> server \<Rightarrow> unit result \<times> server" where
  "leaveOtherChannels P s target srv =
     leave_each P s (other_channels_loop target (sess_joined s) []) srv"

text \<open>The common tail of \<open>execute\<close> and \<open>executeByName\<close>, on the caller's copy of the channel.\<close>

definition join_found ::
  "'u platform \<Rightarrow> client_id \<Rightarrow> session \<Rightarrow> channel \<Rightarrow> channel_id \<Rightarrow> server \<Rightarrow> unit result \<times> server" where
  "join_found P client_id s ch target srv =
     (case leaveOtherChannels P s target srv of
        (Inl e, srv1) \<Rightarrow> (unexpected e, srv1)
      | (Inr _, srv1) \<Rightarrow>
          let was_already_member = hasMember client_id ch
          in case (if \<not> was_already_member
                   then (case addMember client_id ch of
                           (Inl e, ch1) \<Rightarrow> (unexpected e, ch1, srv1)
                         | (Inr _, ch1) \<Rightarrow>
                             (case channels_save ch1 (srv_channels srv1) of
                                (saved, repo) \<Rightarrow> (saved, ch1, srv1\<lparr>srv_channels := repo\<rparr>)))
                   else (Inr (), ch, srv1)) of
               (Inl e, _, srv2) \<Rightarrow> (unexpected e, srv2)
             | (Inr _, ch1, srv2) \<Rightarrow>
                 (case clients_joinChannelAtomic client_id target (srv_clients srv2) of
                    (Inl e, reg) \<Rightarrow> (unexpected e, srv2\<lparr>srv_clients := reg\<rparr>)
                  | (Inr _, reg) \<Rightarrow>
                      let srv3 = srv2\<lparr>srv_clients := reg\<rparr>
                      in if \<not> was_already_member
                         then (Inr (), publish_member_count (chan_id ch1) ch1
                           (srv3\<lparr>srv_publisher := publisher_broadcastMemberJoined P (chan_id ch1)
                             (chan_members ch1) client_id (sess_username s) (srv_publisher srv3)\<rparr>))
                         else (Inr (), srv3)))"

definition JoinChannel_execute ::
  "'u platform \<Rightarrow> client_id \<Rightarrow> channel_id \<Rightarrow> server \<Rightarrow> unit result \<times> server" where
  "JoinChannel_execute P client_id channel_id srv =
     (case clients_findById client_id (srv_clients srv) of
        Inl e \<Rightarrow> (unexpected e, srv)
      | Inr s \<Rightarrow>
          (case channels_findById channel_id (srv_channels srv) of
             Inl e \<Rightarrow> (unexpected e, srv)
           | Inr ch \<Rightarrow> join_found P client_id s ch channel_id srv))"

definition JoinChannel_executeByName ::
  "'u platform \<Rightarrow> client_id \<Rightarrow> string \<Rightarrow> server \<Rightarrow> channel_id result \<times> server" where
  "JoinChannel_executeByName P client_id name srv =
     (case clients_findById client_id (srv_clients srv) of
        Inl e \<Rightarrow> (unexpected e, srv)
      | Inr s \<Rightarrow>
          (case ChannelName_create (trim name) of
             None \<Rightarrow> (unexpected InvalidChannelName, srv)
           | Some validated_name \<Rightarrow>
               (case channels_findByName validated_name (srv_channels srv) of
                  Inl e \<Rightarrow> (unexpected e, srv)
                | Inr ch \<Rightarrow>
                    (case join_found P client_id s ch (chan_id ch) srv of
                       (Inl e, srv1) \<Rightarrow> (unexpected e, srv1)
                     | (Inr _, srv1) \<Rightarrow> (Inr (chan_id ch), srv1)))))"

subsection \<open>Channels and messages\<close>

definition CreateChannel_execute ::
  "'u platform \<Rightarrow> 'u \<Rightarrow> int \<Rightarrow> client_id \<Rightarrow> string \<Rightarrow> server \<Rightarrow> channel_id result \<times> server" where
  "CreateChannel_execute P u system_now client_id name srv =
     (case clients_findById client_id (srv_clients srv) of
        Inl e \<Rightarrow> (unexpected e, srv)
      | Inr s \<Rightarrow>
          (case ChannelName_create (trim name) of
             None \<Rightarrow> (unexpected InvalidChannelName, srv)
           | Some validated_name \<Rightarrow>
               (case channels_create P u system_now validated_name (srv_channels srv) of
                  (Inl e, repo) \<Rightarrow> (unexpected e, srv\<lparr>srv_channels := repo\<rparr>)
                | (Inr created, repo) \<Rightarrow>
                    (Inr (chan_id created), srv\<lparr>srv_channels := repo,
                       srv_list_publisher := list_publishChannelCreated created (srv_list_publisher srv)\<rparr>))))"

definition ListChannels_execute :: "server \<Rightarrow> channel list" where
  "ListChannels_execute srv = channels_listAll (srv_channels srv)"

fun publish_each ::
  "'u platform \<Rightarrow> message \<Rightarrow> client_id list \<Rightarrow> server \<Rightarrow> server" where
  "publish_each P m [] srv = srv"
| "publish_each P m (recipient # rest) srv =
     publish_each P m rest
       (srv\<lparr>srv_publisher := publisher_publish P (Some (srv_clients srv)) recipient m (srv_publisher srv)\<rparr>)"

definition SendMessage_execute ::
  "'u platform \<Rightarrow> 'u \<Rightarrow> int \<Rightarrow> client_id \<Rightarrow> channel_id \<Rightarrow> string \<Rightarrow> EchoPolicy \<Rightarrow> server \<Rightarrow>
   message_id result \<times> server" where
  "SendMessage_execute P u system_now sender_id channel_id content echo_policy srv =
     (case clients_findById sender_id (srv_clients srv) of
        Inl e \<Rightarrow> (unexpected e, srv)
      | Inr sender \<Rightarrow>
          (case channels_findById channel_id (srv_channels srv) of
             Inl e \<Rightarrow> (unexpected e, srv)
           | Inr ch \<Rightarrow>
               if \<not> hasMember sender_id ch then (unexpected NotAMember, srv)
               else (case MessageContent_create content of
                  Inl e \<Rightarrow> (unexpected e, srv)
                | Inr validated_content \<Rightarrow>
                    let m = \<lparr>msg_id = strong_id_generate P u, msg_sender_id = sender_id,
                             msg_channel_id = channel_id, msg_content = validated_content,
                             msg_sent_at = system_now\<rparr>
                    in (case messages_save m (srv_messages srv) of
                          (Inl e, repo) \<Rightarrow> (unexpected e, srv\<lparr>srv_messages := repo\<rparr>)
                        | (Inr _, repo) \<Rightarrow>
                            (Inr (msg_id m),
                             publish_each P m (recipientsFor ch m echo_policy)
                               (srv\<lparr>srv_messages := repo\<rparr>))))))"

definition kServerMaxLimit :: "32 word" where
  "kServerMaxLimit = 200"

definition ListMessages_execute ::
  "client_id \<Rightarrow> channel_id \<Rightarrow> message_id option \<Rightarrow> 32 word \<Rightarrow> server \<Rightarrow> (message list \<times> bool) result" where
  "ListMessages_execute client_id channel_id before_message_id limit srv =
     (case channels_findById channel_id (srv_channels srv) of
        Inl e \<Rightarrow> unexpected e
      | Inr ch \<Rightarrow>
          if \<not> hasMember client_id ch then unexpected NotAMember
          else
            let capped = min limit kServerMaxLimit;
                page = (case before_message_id of
                    Some before \<Rightarrow> messages_listBefore channel_id before capped (srv_messages srv)
                  | None \<Rightarrow> messages_recent channel_id capped (srv_messages srv));
                has_more = (page \<noteq> [] \<and>
                  messages_listBefore channel_id (msg_id (hd page)) 1 (srv_messages srv) \<noteq> [])
            in Inr (page, has_more))"

subsection \<open>Subscriptions and expiry\<close>

definition SubscribeToChannel_execute :: "client_id \<Rightarrow> channel_id \<Rightarrow> server \<Rightarrow> unit result" where
  "SubscribeToChannel_execute client_id channel_id srv =
     (case channels_findById channel_id (srv_channels srv) of
        Inl e \<Rightarrow> unexpected e
      | Inr ch \<Rightarrow> if \<not> hasMember client_id ch then unexpected NotAMember else Inr ())"

definition SubscribeToChannelList_execute ::
  "client_id \<Rightarrow> writer option \<Rightarrow> server \<Rightarrow> unit result \<times> server" where
  "SubscribeToChannelList_execute subscriber_id w srv =
     (case clients_findById subscriber_id (srv_clients srv) of
        Inl e \<Rightarrow> (unexpected e, srv)
      | Inr client \<Rightarrow>
          (Inr (), srv\<lparr>srv_list_publisher :=
             list_registerSubscriberWithSnapshot (srv_channels srv) subscriber_id w (srv_list_publisher srv)\<rparr>))"

fun expire_channels :: "'u platform \<Rightarrow> session \<Rightarrow> channel_id list \<Rightarrow> server \<Rightarrow> server" where
  "expire_channels P s [] srv = srv"
| "expire_channels P s (channel_id # rest) srv =
     expire_channels P s rest (snd (removeMemberAndBroadcast P s channel_id srv))"

fun expire_each :: "'u platform \<Rightarrow> session list \<Rightarrow> nat \<Rightarrow> server \<Rightarrow> nat \<times> server" where
  "expire_each P [] cnt srv = (cnt, srv)"
| "expire_each P (s # rest) cnt srv =
     (let srv1 = expire_channels P s (sess_joined s) srv;
          srv2 = srv1\<lparr>srv_clients := snd (clients_remove (sess_id s) (srv_clients srv1))\<rparr>;
          srv3 = srv2\<lparr>srv_publisher := publisher_unregisterSubscriber (sess_id s) (srv_publisher srv2)\<rparr>
      in expire_each P rest (cnt + 1) srv3)"

definition ExpireInactiveClients_run :: "'u platform \<Rightarrow> int \<Rightarrow> server \<Rightarrow> nat \<times> server" where
  "ExpireInactiveClients_run P deadline srv =
     expire_each P (clients_collectExpired deadline (srv_clients srv)) 0 srv"

end
