(* ===== verification/Rpc_Status.thy ===== *)
theory Rpc_Status
  imports Shared_Library
begin

text \<open>
  Errors on the wire: \<open>errorToStatus\<close> of the server (\<open>error_to_status.cpp\<close>) maps an error to a gRPC
  status code and its text, \<open>statusToError\<close> of the client (\<open>status_to_error.cpp\<close>) maps a status back.
  Of the gRPC status codes the ones that the sources name are constructors, the others are numbered.
\<close>

datatype grpc_code =
    OK | UNKNOWN | INVALID_ARGUMENT | NOT_FOUND | ALREADY_EXISTS | INTERNAL | UNAVAILABLE
  | OTHER_CODE nat

datatype grpc_status = Status (status_code: grpc_code) (status_message: string)

definition status_ok :: grpc_status where
  "status_ok = Status OK []"

fun errorToStatus :: "error \<Rightarrow> grpc_status" where
  "errorToStatus ChannelNotFound = Status NOT_FOUND (error_message ChannelNotFound)"
| "errorToStatus ClientNotFound = Status NOT_FOUND (error_message ClientNotFound)"
| "errorToStatus NotAMember = Status NOT_FOUND (error_message NotAMember)"
| "errorToStatus AlreadyMember = Status ALREADY_EXISTS (error_message AlreadyMember)"
| "errorToStatus ChannelAlreadyExists = Status ALREADY_EXISTS (error_message ChannelAlreadyExists)"
| "errorToStatus ClientAlreadyExists = Status ALREADY_EXISTS (error_message ClientAlreadyExists)"
| "errorToStatus InvalidUsername = Status INVALID_ARGUMENT (error_message InvalidUsername)"
| "errorToStatus InvalidChannelName = Status INVALID_ARGUMENT (error_message InvalidChannelName)"
| "errorToStatus InvalidArgument = Status INVALID_ARGUMENT (error_message InvalidArgument)"
| "errorToStatus MessageEmpty = Status INVALID_ARGUMENT (error_message MessageEmpty)"
| "errorToStatus MessageInvalidPrefix = Status INVALID_ARGUMENT (error_message MessageInvalidPrefix)"
| "errorToStatus MessageTooLong = Status INVALID_ARGUMENT (error_message MessageTooLong)"
| "errorToStatus StorageError = Status INTERNAL (error_message StorageError)"
| "errorToStatus NetworkError = Status INTERNAL (error_message NetworkError)"
| "errorToStatus NotImplemented = Status INTERNAL (error_message NotImplemented)"

definition starts_with :: "string \<Rightarrow> string \<Rightarrow> bool" where
  "starts_with text pre \<longleftrightarrow> take (length pre) text = pre"

lemma starts_with_append [simp]: "starts_with (pre @ s) pre"
  by (simp add: starts_with_def)

lemma starts_with_prefix: "starts_with text pre \<longleftrightarrow> prefix pre text"
  by (metis append_eq_conv_conj append_take_drop_id prefixE prefixI starts_with_def)

definition statusToError :: "grpc_status \<Rightarrow> error" where
  "statusToError status =
     (let message = status_message status in
      case status_code status of
        NOT_FOUND \<Rightarrow>
          if starts_with message ''client not found'' then ClientNotFound
          else if starts_with message ''not a member'' then NotAMember
          else ChannelNotFound
      | ALREADY_EXISTS \<Rightarrow>
          if starts_with message ''channel already exists'' then ChannelAlreadyExists
          else if starts_with message ''client already exists'' then ClientAlreadyExists
          else AlreadyMember
      | INVALID_ARGUMENT \<Rightarrow>
          if starts_with message ''invalid username'' then InvalidUsername
          else if starts_with message ''message too long'' then MessageTooLong
          else if starts_with message ''message is empty'' then MessageEmpty
          else if starts_with message (''message must not start with '' @ [CHR 0x27] @ ''/'' @ [CHR 0x27])
            then MessageInvalidPrefix
          else InvalidChannelName
      | _ \<Rightarrow> NetworkError)"

text \<open>
  C36: the client reads back the error that the server reported, also when text follows the
  message, except for three errors whose status is ambiguous: an invalid argument arrives as an
  invalid channel name, and the two internal failures arrive as network errors. An error never
  travels as success.
\<close>

theorem status_roundtrip:
  "status_code (errorToStatus e) \<noteq> OK \<and>
   statusToError (Status (status_code (errorToStatus e)) (status_message (errorToStatus e) @ details)) =
     (if e = InvalidArgument then InvalidChannelName
      else if e = StorageError \<or> e = NotImplemented then NetworkError else e)"
  by (cases e) (simp_all add: statusToError_def starts_with_def)

end
