(* ===== verification/Service.thy ===== *)
theory Service
  imports Usecases Rpc_Status
begin

text \<open>
  \<open>BroadcastServiceImpl\<close>: one function per remote procedure, from the fields of the request and the
  server's state to the status, the response and the new state. A response that the handler has not
  filled in has the default values of its fields. The two streaming procedures are split at their
  wait loop: the part before it either finishes the call with a status or leaves the stream open,
  the part after it runs when the call is cancelled.
\<close>

definition Connect ::
  "'u platform \<Rightarrow> 'u \<Rightarrow> int \<Rightarrow> int \<Rightarrow> string \<Rightarrow> server \<Rightarrow> (grpc_status \<times> string) \<times> server" where
  "Connect P u system_now steady_now request_username srv =
     (case Username_create (trim request_username) of
        None \<Rightarrow> ((errorToStatus InvalidUsername, []), srv)
      | Some name \<Rightarrow>
          (case clients_registerClient P u system_now steady_now name (srv_clients srv) of
             (Inl e, reg) \<Rightarrow> ((errorToStatus e, []), srv\<lparr>srv_clients := reg\<rparr>)
           | (Inr s, reg) \<Rightarrow> ((status_ok, id_value (sess_id s)), srv\<lparr>srv_clients := reg\<rparr>)))"

text \<open>Failures to leave a channel are at most logged; the loop goes on.\<close>

fun disconnect_loop :: "'u platform \<Rightarrow> client_id \<Rightarrow> channel_id list \<Rightarrow> server \<Rightarrow> server" where
  "disconnect_loop P client_id [] srv = srv"
| "disconnect_loop P client_id (channel_id # rest) srv =
     disconnect_loop P client_id rest (snd (LeaveChannel_execute P client_id channel_id srv))"

definition Disconnect :: "'u platform \<Rightarrow> string \<Rightarrow> server \<Rightarrow> grpc_status \<times> server" where
  "Disconnect P request_client_id srv =
     (case strong_id_parse P (trim request_client_id) of
        None \<Rightarrow> (errorToStatus ClientNotFound, srv)
      | Some client_id \<Rightarrow>
          (case clients_findById client_id (srv_clients srv) of
             Inl e \<Rightarrow> (errorToStatus e, srv)
           | Inr s \<Rightarrow>
               let srv1 = disconnect_loop P client_id (sess_joined s) srv
               in (case clients_remove client_id (srv_clients srv1) of
                     (Inl e, reg) \<Rightarrow> (errorToStatus e, srv1\<lparr>srv_clients := reg\<rparr>)
                   | (Inr _, reg) \<Rightarrow>
                       (status_ok, srv1\<lparr>srv_clients := reg,
                          srv_publisher := publisher_unregisterSubscriber client_id (srv_publisher srv1)\<rparr>))))"

definition ListChannels :: "server \<Rightarrow> grpc_status \<times> channel_summary list" where
  "ListChannels srv = (status_ok, map channel_summary_of (ListChannels_execute srv))"

definition CreateChannel ::
  "'u platform \<Rightarrow> 'u \<Rightarrow> int \<Rightarrow> string \<Rightarrow> string \<Rightarrow> server \<Rightarrow> (grpc_status \<times> string \<times> string) \<times> server" where
  "CreateChannel P u system_now request_client_id request_channel_name srv =
     (case strong_id_parse P (trim request_client_id) of
        None \<Rightarrow> ((errorToStatus ClientNotFound, [], []), srv)
      | Some client_id \<Rightarrow>
          let trimmed_name = trim request_channel_name
          in (case CreateChannel_execute P u system_now client_id trimmed_name srv of
                (Inl e, srv') \<Rightarrow> ((errorToStatus e, [], []), srv')
              | (Inr created, srv') \<Rightarrow> ((status_ok, id_value created, trimmed_name), srv')))"

definition JoinChannel :: "'u platform \<Rightarrow> string \<Rightarrow> string \<Rightarrow> server \<Rightarrow> grpc_status \<times> server" where
  "JoinChannel P request_client_id request_channel_id srv =
     (case strong_id_parse P (trim request_client_id) of
        None \<Rightarrow> (errorToStatus ClientNotFound, srv)
      | Some client_id \<Rightarrow>
          let trimmed_channel = trim request_channel_id
          in (case strong_id_parse P trimmed_channel of
                Some channel_id \<Rightarrow>
                  (case JoinChannel_execute P client_id channel_id srv of
                     (Inr _, srv') \<Rightarrow> (status_ok, srv')
                   | (Inl e, srv') \<Rightarrow> (errorToStatus e, srv'))
              | None \<Rightarrow>
                  (case JoinChannel_executeByName P client_id trimmed_channel srv of
                     (Inr _, srv') \<Rightarrow> (status_ok, srv')
                   | (Inl e, srv') \<Rightarrow> (errorToStatus e, srv'))))"

definition LeaveChannel :: "'u platform \<Rightarrow> string \<Rightarrow> string \<Rightarrow> server \<Rightarrow> grpc_status \<times> server" where
  "LeaveChannel P request_client_id request_channel_id srv =
     (let client = strong_id_parse P (trim request_client_id);
          ch = strong_id_parse P (trim request_channel_id)
      in case client of
           None \<Rightarrow> (errorToStatus ClientNotFound, srv)
         | Some client_id \<Rightarrow>
             (case ch of
                None \<Rightarrow> (errorToStatus ChannelNotFound, srv)
              | Some channel_id \<Rightarrow>
                  (case LeaveChannel_execute P client_id channel_id srv of
                     (Inr _, srv') \<Rightarrow> (status_ok, srv')
                   | (Inl e, srv') \<Rightarrow> (errorToStatus e, srv'))))"

definition SendMessage ::
  "'u platform \<Rightarrow> 'u \<Rightarrow> int \<Rightarrow> string \<Rightarrow> string \<Rightarrow> string \<Rightarrow> server \<Rightarrow> (grpc_status \<times> string) \<times> server" where
  "SendMessage P u system_now request_client_id request_channel_id request_content srv =
     (let client = strong_id_parse P (trim request_client_id);
          ch = strong_id_parse P (trim request_channel_id)
      in case client of
           None \<Rightarrow> ((errorToStatus ClientNotFound, []), srv)
         | Some client_id \<Rightarrow>
             (case ch of
                None \<Rightarrow> ((errorToStatus ChannelNotFound, []), srv)
              | Some channel_id \<Rightarrow>
                  let trimmed_content = trim request_content
                  in (case SendMessage_execute P u system_now client_id channel_id trimmed_content
                             IncludeSender srv of
                        (Inl e, srv') \<Rightarrow> ((errorToStatus e, []), srv')
                      | (Inr message_id, srv') \<Rightarrow> ((status_ok, id_value message_id), srv'))))"

definition listed_event :: "'u platform \<Rightarrow> client_registry \<Rightarrow> message \<Rightarrow> message_event" where
  "listed_event P client_registry m =
     \<lparr>ev_message_id = id_value (msg_id m), ev_channel_id = id_value (msg_channel_id m),
      ev_sender_id = id_value (msg_sender_id m),
      ev_sender_name =
        (case clients_lookupUsername (msg_sender_id m) client_registry of
           Inl e \<Rightarrow> [] | Inr name \<Rightarrow> username_value name),
      ev_content = content_value (msg_content m), ev_sent_at_ms = to_epoch_ms P (msg_sent_at m)\<rparr>"

definition ListMessages ::
  "'u platform \<Rightarrow> string \<Rightarrow> string \<Rightarrow> string \<Rightarrow> 32 word \<Rightarrow> server \<Rightarrow>
   grpc_status \<times> message_event list \<times> bool" where
  "ListMessages P request_client_id request_channel_id request_before limit srv =
     (let client = strong_id_parse P (trim request_client_id);
          ch = strong_id_parse P (trim request_channel_id)
      in case client of
           None \<Rightarrow> (errorToStatus ClientNotFound, [], False)
         | Some client_id \<Rightarrow>
             (case ch of
                None \<Rightarrow> (errorToStatus ChannelNotFound, [], False)
              | Some channel_id \<Rightarrow>
                  let trimmed_cursor = trim request_before
                  in (case (if trimmed_cursor = [] then Some None
                            else (case strong_id_parse P trimmed_cursor of
                                    None \<Rightarrow> None | Some parsed \<Rightarrow> Some (Some parsed))) of
                        None \<Rightarrow> (errorToStatus InvalidArgument, [], False)
                      | Some cursor \<Rightarrow>
                          (case ListMessages_execute client_id channel_id cursor limit srv of
                             Inl e \<Rightarrow> (errorToStatus e, [], False)
                           | Inr (page, has_more) \<Rightarrow>
                               (status_ok, map (listed_event P (srv_clients srv)) page, has_more)))))"

definition Heartbeat :: "'u platform \<Rightarrow> int \<Rightarrow> string \<Rightarrow> server \<Rightarrow> grpc_status \<times> server" where
  "Heartbeat P steady_now request_client_id srv =
     (case strong_id_parse P (trim request_client_id) of
        None \<Rightarrow> (errorToStatus ClientNotFound, srv)
      | Some client_id \<Rightarrow>
          (case clients_touchHeartbeat steady_now client_id (srv_clients srv) of
             (Inl e, reg) \<Rightarrow> (errorToStatus e, srv\<lparr>srv_clients := reg\<rparr>)
           | (Inr _, reg) \<Rightarrow> (status_ok, srv\<lparr>srv_clients := reg\<rparr>)))"

subsection \<open>The streaming procedures\<close>

definition SubscribeToChannel_open ::
  "'u platform \<Rightarrow> string \<Rightarrow> string \<Rightarrow> writer \<Rightarrow> server \<Rightarrow> grpc_status option \<times> server" where
  "SubscribeToChannel_open P request_client_id request_channel_id w srv =
     (let client = strong_id_parse P (trim request_client_id);
          ch = strong_id_parse P (trim request_channel_id)
      in case client of
           None \<Rightarrow> (Some (errorToStatus ClientNotFound), srv)
         | Some client_id \<Rightarrow>
             (case ch of
                None \<Rightarrow> (Some (errorToStatus ChannelNotFound), srv)
              | Some channel_id \<Rightarrow>
                  let srv1 = srv\<lparr>srv_publisher := publisher_registerSubscriber client_id (Some w) (srv_publisher srv)\<rparr>
                  in (case SubscribeToChannel_execute client_id channel_id srv1 of
                        Inl e \<Rightarrow>
                          (Some (errorToStatus e),
                           srv1\<lparr>srv_publisher := publisher_unregisterSubscriber client_id (srv_publisher srv1)\<rparr>)
                      | Inr _ \<Rightarrow> (None, srv1))))"

definition SubscribeToChannel_close :: "client_id \<Rightarrow> server \<Rightarrow> grpc_status \<times> server" where
  "SubscribeToChannel_close client_id srv =
     (status_ok, srv\<lparr>srv_publisher := publisher_unregisterSubscriber client_id (srv_publisher srv)\<rparr>)"

definition SubscribeToChannelList_open ::
  "'u platform \<Rightarrow> string \<Rightarrow> writer \<Rightarrow> server \<Rightarrow> grpc_status option \<times> server" where
  "SubscribeToChannelList_open P request_client_id w srv =
     (case strong_id_parse P (trim request_client_id) of
        None \<Rightarrow> (Some (errorToStatus ClientNotFound), srv)
      | Some client_id \<Rightarrow>
          (case SubscribeToChannelList_execute client_id (Some w) srv of
             (Inl e, srv') \<Rightarrow> (Some (errorToStatus e), srv')
           | (Inr _, srv') \<Rightarrow> (None, srv')))"

definition SubscribeToChannelList_close :: "client_id \<Rightarrow> server \<Rightarrow> grpc_status \<times> server" where
  "SubscribeToChannelList_close client_id srv =
     (status_ok, srv\<lparr>srv_list_publisher := list_unregisterSubscriber client_id (srv_list_publisher srv)\<rparr>)"

end
