(* ===== verification/Chat_Rooms.thy ===== *)
theory Chat_Rooms
  imports Usecases
begin

text \<open>
  The abstract specification of the server, a chat with rooms: every room has a name, every user a
  name and at most one place, and every room a list of posts. The abstraction function reads this
  state off the repositories; the server invariant says that the redundant data of the
  implementation (members in the channels, joined channels in the sessions, the two name indices)
  agree with it. One lemma for each way in which the use cases change the repositories shows that
  the invariant is kept and what happens to the abstract state.
\<close>

record chat =
  room :: "channel_id \<Rightarrow> channel_name option"
  user :: "client_id \<Rightarrow> username option"
  place :: "client_id \<Rightarrow> channel_id option"
  posts :: "channel_id \<Rightarrow> message list"

definition place_of :: "client_registry \<Rightarrow> client_id \<Rightarrow> channel_id option" where
  "place_of r i =
     (case session_at r (id_value i) of
        None \<Rightarrow> None
      | Some s \<Rightarrow> (case sess_joined s of [] \<Rightarrow> None | c # _ \<Rightarrow> Some c))"

definition abs_chat :: "server \<Rightarrow> chat" where
  "abs_chat srv =
     \<lparr>room = (\<lambda>c. map_option chan_name (channel_at (srv_channels srv) (id_value c))),
      user = (\<lambda>i. map_option sess_username (session_at (srv_clients srv) (id_value i))),
      place = place_of (srv_clients srv),
      posts = (\<lambda>c. history (srv_messages srv) (id_value c))\<rparr>"

definition tables_wf :: "'u platform \<Rightarrow> server \<Rightarrow> bool" where
  "tables_wf P srv \<longleftrightarrow> table_wf P (srv_publisher srv) \<and> table_wf P (srv_list_publisher srv)"

definition repos_wf :: "server \<Rightarrow> bool" where
  "repos_wf srv \<longleftrightarrow> channels_wf (srv_channels srv) \<and> clients_wf (srv_clients srv) \<and>
     messages_wf (srv_messages srv)"

text \<open>Members and joined channels agree, and nobody is in two channels.\<close>

definition membership_wf :: "channel_repo \<Rightarrow> client_registry \<Rightarrow> bool" where
  "membership_wf chans reg \<longleftrightarrow>
     (\<forall>k ch. channel_at chans k = Some ch \<longrightarrow>
        set (chan_members ch) = {i. place_of reg i = Some (StrongId k)}) \<and>
     (\<forall>i c. place_of reg i = Some c \<longrightarrow> channel_at chans (id_value c) \<noteq> None) \<and>
     (\<forall>k s. session_at reg k = Some s \<longrightarrow> length (sess_joined s) \<le> 1)"

text \<open>Every stored message has a known sender, a room and valid content.\<close>

definition posts_wf :: "channel_repo \<Rightarrow> client_registry \<Rightarrow> message_repo \<Rightarrow> bool" where
  "posts_wf chans reg msgs \<longleftrightarrow>
     (\<forall>k. \<forall>m\<in>set (history msgs k).
        channel_at chans k \<noteq> None \<and> username_history reg (id_value (msg_sender_id m)) \<noteq> None \<and>
        valid_content (content_value (msg_content m)))"

definition server_inv :: "'u platform \<Rightarrow> server \<Rightarrow> bool" where
  "server_inv P srv \<longleftrightarrow> tables_wf P srv \<and> repos_wf srv \<and>
     membership_wf (srv_channels srv) (srv_clients srv) \<and>
     posts_wf (srv_channels srv) (srv_clients srv) (srv_messages srv)"

lemma server_invD:
  assumes "server_inv P srv"
  shows "table_wf P (srv_publisher srv)" "table_wf P (srv_list_publisher srv)"
    "channels_wf (srv_channels srv)" "clients_wf (srv_clients srv)" "messages_wf (srv_messages srv)"
    "membership_wf (srv_channels srv) (srv_clients srv)"
    "posts_wf (srv_channels srv) (srv_clients srv) (srv_messages srv)"
  using assms by (simp_all add: server_inv_def tables_wf_def repos_wf_def)

lemma server_invI [intro?]:
  assumes "table_wf P (srv_publisher srv)" "table_wf P (srv_list_publisher srv)"
    "channels_wf (srv_channels srv)" "clients_wf (srv_clients srv)" "messages_wf (srv_messages srv)"
    "membership_wf (srv_channels srv) (srv_clients srv)"
    "posts_wf (srv_channels srv) (srv_clients srv) (srv_messages srv)"
  shows "server_inv P srv"
  using assms by (simp add: server_inv_def tables_wf_def repos_wf_def)

lemma chat_eqI:
  assumes "room c = room d" "user c = user d" "place c = place d" "posts c = posts d"
  shows "c = (d :: chat)"
  using assms by (cases c, cases d) simp

lemma abs_chat_sel [simp]:
  "room (abs_chat srv) c = map_option chan_name (channel_at (srv_channels srv) (id_value c))"
  "user (abs_chat srv) i = map_option sess_username (session_at (srv_clients srv) (id_value i))"
  "place (abs_chat srv) = place_of (srv_clients srv)"
  "posts (abs_chat srv) c = history (srv_messages srv) (id_value c)"
  by (simp_all add: abs_chat_def)

lemma strong_id_eq_iff: "id_value c = id_value d \<longleftrightarrow> c = (d :: 'a strong_id)"
  by (metis strong_id.collapse)

subsection \<open>Membership, read either way\<close>

lemma membership_members:
  "membership_wf chans reg \<Longrightarrow> channel_at chans (id_value c) = Some ch \<Longrightarrow>
   hasMember i ch \<longleftrightarrow> place_of reg i = Some c"
  by (fastforce simp: membership_wf_def hasMember_def)

lemma membership_room:
  "membership_wf chans reg \<Longrightarrow> place_of reg i = Some c \<Longrightarrow> \<exists>ch. channel_at chans (id_value c) = Some ch"
  by (fastforce simp: membership_wf_def)

lemma membership_joined:
  assumes "membership_wf chans reg" and "session_at reg (id_value i) = Some s"
  shows "sess_joined s = (case place_of reg i of None \<Rightarrow> [] | Some c \<Rightarrow> [c])"
proof -
  have "length (sess_joined s) \<le> 1"
    using assms by (auto simp: membership_wf_def)
  then show ?thesis
    using assms(2) by (auto simp: place_of_def split: list.splits)
qed

lemma place_of_session:
  "place_of reg i = Some c \<Longrightarrow> \<exists>s. session_at reg (id_value i) = Some s"
  by (simp add: place_of_def split: option.splits)

lemma place_of_modify:
  "place_of (modify_session i f reg) j =
     (if j = i then (case session_at reg (id_value i) of None \<Rightarrow> None
        | Some s \<Rightarrow> (case sess_joined (f s) of [] \<Rightarrow> None | c # _ \<Rightarrow> Some c))
      else place_of reg j)"
  by (auto simp: place_of_def strong_id_eq_iff split: option.splits)

lemma place_of_remove:
  "place_of (snd (clients_remove i reg)) j = (if j = i then None else place_of reg j)"
  by (simp add: place_of_def strong_id_eq_iff)

subsection \<open>How the use cases change the repositories\<close>

lemma save_members:
  assumes wf: "channels_wf r" and at: "channel_at r (id_value c) = Some ch" and ms: "distinct ms"
  shows "channels_wf (snd (channels_save (ch\<lparr>chan_members := ms\<rparr>) r))"
    and "channel_at (snd (channels_save (ch\<lparr>chan_members := ms\<rparr>) r)) k =
       (if k = id_value c then Some (ch\<lparr>chan_members := ms\<rparr>) else channel_at r k)"
proof -
  have ch: "id_value (chan_id ch) = id_value c" "channel_ok ch"
    using channels_wf_entity [OF wf at] by auto
  show "channels_wf (snd (channels_save (ch\<lparr>chan_members := ms\<rparr>) r))"
    using channels_wf_save [OF wf, of "ch\<lparr>chan_members := ms\<rparr>" ch] ch at ms by (simp add: channel_ok_def)
  show "channel_at (snd (channels_save (ch\<lparr>chan_members := ms\<rparr>) r)) k =
       (if k = id_value c then Some (ch\<lparr>chan_members := ms\<rparr>) else channel_at r k)"
    using ch by simp
qed

lemma membership_wfI:
  assumes "\<And>c ch. channel_at chans (id_value c) = Some ch \<Longrightarrow>
      set (chan_members ch) = {i. place_of reg i = Some c}"
    and "\<And>i c. place_of reg i = Some c \<Longrightarrow> channel_at chans (id_value c) \<noteq> None"
    and "\<And>i s. session_at reg (id_value i) = Some s \<Longrightarrow> length (sess_joined s) \<le> 1"
  shows "membership_wf chans reg"
  unfolding membership_wf_def
  using assms(1) [of "StrongId _"] assms(2) assms(3) [of "StrongId _"] by simp

lemma posts_wf_cong:
  assumes "posts_wf chans reg msgs"
    and "\<And>k. channel_at chans k \<noteq> None \<Longrightarrow> channel_at chans' k \<noteq> None"
    and "\<And>k. username_history reg k \<noteq> None \<Longrightarrow> username_history reg' k \<noteq> None"
  shows "posts_wf chans' reg' msgs"
  using assms unfolding posts_wf_def by blast

text \<open>One client moves into or out of one channel, or its session ends.\<close>

lemma membership_update:
  assumes wf: "membership_wf chans reg" and at: "channel_at chans (id_value c) = Some ch"
    and chans': "\<And>k. channel_at chans' k = (if k = id_value c then Some ch' else channel_at chans k)"
    and members: "set (chan_members ch') =
      (if enters then insert i (set (chan_members ch)) else set (chan_members ch) - {i})"
    and was: "place_of reg i = None \<or> place_of reg i = Some c"
    and place': "\<And>j. place_of reg' j = (if j = i then (if enters then Some c else None) else place_of reg j)"
    and len: "\<And>j s. session_at reg' (id_value j) = Some s \<Longrightarrow> length (sess_joined s) \<le> 1"
  shows "membership_wf chans' reg'"
proof (rule membership_wfI)
  have mem: "j \<in> set (chan_members x) \<longleftrightarrow> place_of reg j = Some d"
    if "channel_at chans (id_value d) = Some x" for j d x
    using membership_members [OF wf that] by (simp add: hasMember_def)
  fix d :: channel_id and x
  assume x: "channel_at chans' (id_value d) = Some x"
  show "set (chan_members x) = {j. place_of reg' j = Some d}"
  proof (cases "d = c")
    case True
    then have "x = ch'" using x chans' by simp
    then show ?thesis using True mem [OF at] members by (auto simp: place')
  next
    case False
    then have "channel_at chans (id_value d) = Some x" using x chans' by (simp add: strong_id_eq_iff)
    from mem [OF this] show ?thesis using False was by (auto simp: place')
  qed
next
  fix j and d :: channel_id
  assume "place_of reg' j = Some d"
  then show "channel_at chans' (id_value d) \<noteq> None"
    using membership_room [OF wf, of j d] by (auto simp: place' chans' split: if_splits)
qed (rule len)

lemma move_effect:
  assumes inv: "server_inv P srv" and at: "channel_at (srv_channels srv) (id_value c) = Some ch"
    and was: "place_of (srv_clients srv) i = None \<or> place_of (srv_clients srv) i = Some c"
    and ms: "distinct ms"
    and members: "set ms = (if enters then insert i (set (chan_members ch)) else set (chan_members ch) - {i})"
    and reg: "clients_wf reg" "\<And>j. place_of reg j =
        (if j = i then (if enters then Some c else None) else place_of (srv_clients srv) j)"
      "\<And>j s. session_at reg (id_value j) = Some s \<Longrightarrow> length (sess_joined s) \<le> 1"
      "\<And>k. username_history (srv_clients srv) k \<noteq> None \<Longrightarrow> username_history reg k \<noteq> None"
    and tables: "table_wf P T" "table_wf P L"
    and srv': "srv' = srv\<lparr>srv_channels := snd (channels_save (ch\<lparr>chan_members := ms\<rparr>) (srv_channels srv)),
        srv_clients := reg, srv_publisher := T, srv_list_publisher := L\<rparr>"
  shows "server_inv P srv'"
    and "abs_chat srv' = (abs_chat srv)\<lparr>
        user := (\<lambda>j. map_option sess_username (session_at reg (id_value j))),
        place := (place (abs_chat srv))(i := if enters then Some c else None)\<rparr>"
proof -
  note saved = save_members [OF server_invD(3) [OF inv] at ms]
  have "membership_wf (srv_channels srv') reg"
    by (rule membership_update [OF server_invD(6) [OF inv] at _ _ was reg(2)])
      (use saved(2) members reg(3) in \<open>auto simp: srv'\<close>)
  moreover have "posts_wf (srv_channels srv') reg (srv_messages srv)"
    by (rule posts_wf_cong [OF server_invD(7) [OF inv]]) (use saved(2) reg(4) at in \<open>auto simp: srv'\<close>)
  ultimately show "server_inv P srv'"
    using saved(1) reg(1) tables server_invD(5) [OF inv] by (auto simp: srv' intro!: server_invI)
  show "abs_chat srv' = (abs_chat srv)\<lparr>
        user := (\<lambda>j. map_option sess_username (session_at reg (id_value j))),
        place := (place (abs_chat srv))(i := if enters then Some c else None)\<rparr>"
    by (rule chat_eqI) (auto simp: abs_chat_def srv' saved(2) at reg(2) fun_eq_iff simp del: channel_at_save)
qed

text \<open>Deliveries keep the tables.\<close>

lemma table_wf_deliveries [simp, wf_intros]:
  fixes P :: "'u platform" and Q :: "'v platform" and t :: "channel_event writer_table"
    and l :: "channel_list_event writer_table"
  shows "table_wf P (publisher_publish Q reg i m t) \<longleftrightarrow> table_wf P t"
    and "table_wf P (publisher_broadcastMemberJoined Q c rs i n t) \<longleftrightarrow> table_wf P t"
    and "table_wf P (publisher_broadcastMemberLeft Q c rs i n t) \<longleftrightarrow> table_wf P t"
    and "table_wf P (list_publishMemberCountChanged c k l) \<longleftrightarrow> table_wf P l"
    and "table_wf P (list_publishChannelCreated x l) \<longleftrightarrow> table_wf P l"
  by (intro table_wf_cong; simp add: publisher_broadcastMemberJoined_def publisher_broadcastMemberLeft_def
      list_publishMemberCountChanged_def list_publishChannelCreated_def)+

lemma publish_member_count_fields [simp]:
  "srv_channels (publish_member_count c ch srv) = srv_channels srv"
  "srv_clients (publish_member_count c ch srv) = srv_clients srv"
  "srv_messages (publish_member_count c ch srv) = srv_messages srv"
  "srv_publisher (publish_member_count c ch srv) = srv_publisher srv"
  by (simp_all add: publish_member_count_def)

lemma removeMemberAndBroadcast_eq:
  "removeMemberAndBroadcast P s c srv =
     (case channel_at (srv_channels srv) (id_value c) of
        None \<Rightarrow> (Inl ChannelNotFound, srv)
      | Some ch \<Rightarrow>
          if \<not> hasMember (sess_id s) ch then (Inl NotAMember, srv)
          else let ms = uset_erase (sess_id s) (chan_members ch)
               in (Inr (), srv\<lparr>srv_channels := snd (channels_save (ch\<lparr>chan_members := ms\<rparr>) (srv_channels srv)),
                    srv_publisher := publisher_broadcastMemberLeft P c ms (sess_id s) (sess_username s)
                      (srv_publisher srv)\<rparr>))"
  by (simp add: removeMemberAndBroadcast_def channels_findById_eq channels_save_def Let_def split: option.splits)

text \<open>Registries after a change in place.\<close>

lemma sessions_after_move:
  assumes wf: "clients_wf r" and len: "\<And>k s. session_at r k = Some s \<Longrightarrow> length (sess_joined s) \<le> 1"
    and at: "session_at r (id_value i) = Some s"
  shows "sess_joined s = [c] \<Longrightarrow> place_of (modify_session i (session_leaveChannel c) r) j =
      (if j = i then None else place_of r j)"
    and "sess_joined s = [] \<Longrightarrow> place_of (modify_session i (session_joinChannel c) r) j =
      (if j = i then Some c else place_of r j)"
    and "session_at (modify_session i (session_leaveChannel c) r) k = Some t \<Longrightarrow> length (sess_joined t) \<le> 1"
    and "sess_joined s = [] \<Longrightarrow> session_at (modify_session i (session_joinChannel c) r) k = Some t \<Longrightarrow>
      length (sess_joined t) \<le> 1"
    and "map_option sess_username (session_at (modify_session i (session_leaveChannel c) r) k) =
      map_option sess_username (session_at r k)"
    and "map_option sess_username (session_at (modify_session i (session_joinChannel c) r) k) =
      map_option sess_username (session_at r k)"
  using at len [of k] by (auto simp: place_of_modify uset_insert_def uset_erase_def option.map_comp comp_def
      split: if_splits intro: order_trans [OF length_filter_le] intro!: map_option_cong)

subsection \<open>The operations of the specification\<close>

definition chat_join :: "client_id \<Rightarrow> channel_id \<Rightarrow> chat \<Rightarrow> unit result \<times> chat" where
  "chat_join i c ct =
     (if user ct i = None then (Inl ClientNotFound, ct)
      else if room ct c = None then (Inl ChannelNotFound, ct)
      else (Inr (), ct\<lparr>place := (place ct)(i \<mapsto> c)\<rparr>))"

definition chat_leave :: "client_id \<Rightarrow> channel_id \<Rightarrow> chat \<Rightarrow> unit result \<times> chat" where
  "chat_leave i c ct =
     (if user ct i = None then (Inl ClientNotFound, ct)
      else if room ct c = None then (Inl ChannelNotFound, ct)
      else if place ct i \<noteq> Some c then (Inl NotAMember, ct)
      else (Inr (), ct\<lparr>place := (place ct)(i := None)\<rparr>))"

definition chat_quit :: "client_id \<Rightarrow> chat \<Rightarrow> unit result \<times> chat" where
  "chat_quit i ct =
     (if user ct i = None then (Inl ClientNotFound, ct)
      else (Inr (), ct\<lparr>user := (user ct)(i := None), place := (place ct)(i := None)\<rparr>))"

text \<open>The client with a name, the channel with a name, as the name indices find them.\<close>

definition name_taken :: "channel_name \<Rightarrow> chat \<Rightarrow> bool" where
  "name_taken n ct \<longleftrightarrow> (\<exists>c. room ct c = Some n)"

definition user_taken :: "username \<Rightarrow> chat \<Rightarrow> bool" where
  "user_taken n ct \<longleftrightarrow> (\<exists>i. user ct i = Some n)"

definition chat_create :: "channel_id \<Rightarrow> channel_name \<Rightarrow> chat \<Rightarrow> channel_id result \<times> chat" where
  "chat_create c n ct =
     (if name_taken n ct then (Inl ChannelAlreadyExists, ct)
      else (Inr c, ct\<lparr>room := (room ct)(c \<mapsto> n)\<rparr>))"

definition chat_enter :: "client_id \<Rightarrow> username \<Rightarrow> chat \<Rightarrow> client_id result \<times> chat" where
  "chat_enter i n ct =
     (if user_taken n ct then (Inl ClientAlreadyExists, ct)
      else (Inr i, ct\<lparr>user := (user ct)(i \<mapsto> n)\<rparr>))"

definition chat_post :: "nat \<Rightarrow> message \<Rightarrow> chat \<Rightarrow> chat" where
  "chat_post cap m ct =
     (let old = posts ct (msg_channel_id m)
      in ct\<lparr>posts := (posts ct)(msg_channel_id m := drop (Suc (length old) - cap) (old @ [m]))\<rparr>)"

end
