(* ===== verification/Usecase_Refinement.thy ===== *)
theory Usecase_Refinement
  imports Chat_Rooms
begin

text \<open>
  The use cases implement the chat specification: in every state that satisfies the invariant, a
  use case keeps the invariant, returns what the specification returns, and its effect on the
  abstract state is that of the specification.
\<close>

subsection \<open>Effects of the building blocks\<close>

lemma sessions_short:
  "server_inv P srv \<Longrightarrow> session_at (srv_clients srv) k = Some s \<Longrightarrow> length (sess_joined s) \<le> 1"
  using server_invD(6) [of P srv] by (simp add: membership_wf_def)

lemma leave_effect:
  assumes inv: "server_inv P srv" and place: "place_of (srv_clients srv) i = Some c"
    and at: "channel_at (srv_channels srv) (id_value c) = Some ch"
    and tables: "table_wf P T" "table_wf P L"
    and srv': "srv' = srv\<lparr>srv_channels := snd (channels_save (ch\<lparr>chan_members := uset_erase i (chan_members ch)\<rparr>)
          (srv_channels srv)),
        srv_clients := modify_session i (session_leaveChannel c) (srv_clients srv),
        srv_publisher := T, srv_list_publisher := L\<rparr>"
  shows "server_inv P srv'" and "abs_chat srv' = (abs_chat srv)\<lparr>place := (place (abs_chat srv))(i := None)\<rparr>"
proof -
  let ?reg = "modify_session i (session_leaveChannel c) (srv_clients srv)"
  obtain s where s: "session_at (srv_clients srv) (id_value i) = Some s" "sess_joined s = [c]"
    using place_of_session [OF place] membership_joined [OF server_invD(6) [OF inv]] place by fastforce
  note moved = sessions_after_move [OF server_invD(4) [OF inv] sessions_short [OF inv] s(1)]
  have ms: "distinct (uset_erase i (chan_members ch))"
    using channels_wf_entity [OF server_invD(3) [OF inv] at] by (simp add: channel_ok_def)
  have reg: "clients_wf ?reg"
    using clients_wf_modify [OF server_invD(4) [OF inv], of "session_leaveChannel c"]
    by (simp add: session_ok_def)
  show "server_inv P srv'"
    by (rule move_effect(1) [OF inv at disjI2 [OF place] ms _ reg _ _ _ tables srv', where enters = False])
      (use moved(1,3) s(2) in auto)
  have "abs_chat srv' = (abs_chat srv)\<lparr>user := (\<lambda>j. map_option sess_username (session_at ?reg (id_value j))),
        place := (place (abs_chat srv))(i := if False then Some c else None)\<rparr>"
    by (rule move_effect(2) [OF inv at disjI2 [OF place] ms _ reg _ _ _ tables srv', where enters = False])
      (use moved(1,3) s(2) in auto)
  then show "abs_chat srv' = (abs_chat srv)\<lparr>place := (place (abs_chat srv))(i := None)\<rparr>"
    by (simp only: moved(5)) (simp add: abs_chat_def)
qed

lemma enter_effect:
  assumes inv: "server_inv P srv" and place: "place_of (srv_clients srv) i = None"
    and s: "session_at (srv_clients srv) (id_value i) = Some s"
    and at: "channel_at (srv_channels srv) (id_value c) = Some ch"
    and tables: "table_wf P T" "table_wf P L"
    and srv': "srv' = srv\<lparr>srv_channels := snd (channels_save (ch\<lparr>chan_members := chan_members ch @ [i]\<rparr>)
          (srv_channels srv)),
        srv_clients := modify_session i (session_joinChannel c) (srv_clients srv),
        srv_publisher := T, srv_list_publisher := L\<rparr>"
  shows "server_inv P srv'" and "abs_chat srv' = (abs_chat srv)\<lparr>place := (place (abs_chat srv))(i \<mapsto> c)\<rparr>"
proof -
  let ?reg = "modify_session i (session_joinChannel c) (srv_clients srv)"
  have joined: "sess_joined s = []"
    using membership_joined [OF server_invD(6) [OF inv] s] place by simp
  note moved = sessions_after_move [OF server_invD(4) [OF inv] sessions_short [OF inv] s]
  have "\<not> hasMember i ch"
    using membership_members [OF server_invD(6) [OF inv] at] place by simp
  then have ms: "distinct (chan_members ch @ [i])"
    using channels_wf_entity [OF server_invD(3) [OF inv] at] by (simp add: channel_ok_def hasMember_def)
  have reg: "clients_wf ?reg"
    using clients_wf_modify [OF server_invD(4) [OF inv], of "session_joinChannel c"]
    by (simp add: session_ok_def)
  show "server_inv P srv'"
    by (rule move_effect(1) [OF inv at disjI1 [OF place] ms _ reg _ _ _ tables srv', where enters = True])
      (use moved(2,4) joined in auto)
  have "abs_chat srv' = (abs_chat srv)\<lparr>user := (\<lambda>j. map_option sess_username (session_at ?reg (id_value j))),
        place := (place (abs_chat srv))(i := if True then Some c else None)\<rparr>"
    by (rule move_effect(2) [OF inv at disjI1 [OF place] ms _ reg _ _ _ tables srv', where enters = True])
      (use moved(2,4) joined in auto)
  then show "abs_chat srv' = (abs_chat srv)\<lparr>place := (place (abs_chat srv))(i \<mapsto> c)\<rparr>"
    by (simp only: moved(6)) (simp add: abs_chat_def)
qed

text \<open>Joining a channel again only inserts into a set that already has the element.\<close>

lemma rejoin_nothing:
  assumes "session_at r (id_value i) = Some s" and "c \<in> set (sess_joined s)"
  shows "modify_session i (session_joinChannel c) r = r"
proof -
  have "session_joinChannel c s = s"
    using assms(2) by (simp add: session_joinChannel_def uset_insert_def)
  then show ?thesis
    using assms(1) by (simp add: modify_session_def session_at_def umap_insert_or_assign_def umap_find_def update_triv)
qed

text \<open>A session ends: the client is taken out of its channel, if it is in one, and removed.\<close>

lemma remove_effect:
  assumes inv: "server_inv P srv" and place: "place_of (srv_clients srv) i = None"
    and tables: "table_wf P T" "table_wf P L"
    and srv': "srv' = srv\<lparr>srv_clients := snd (clients_remove i (srv_clients srv)),
        srv_publisher := T, srv_list_publisher := L\<rparr>"
  shows "server_inv P srv'"
    and "abs_chat srv' = (abs_chat srv)\<lparr>user := (user (abs_chat srv))(i := None),
        place := (place (abs_chat srv))(i := None)\<rparr>"
proof -
  let ?reg = "snd (clients_remove i (srv_clients srv))"
  have "place_of ?reg = place_of (srv_clients srv)"
    using place by (auto simp: place_of_remove fun_eq_iff)
  then have "membership_wf (srv_channels srv) ?reg"
    using server_invD(6) [OF inv] by (auto simp: membership_wf_def split: if_splits)
  moreover have "posts_wf (srv_channels srv) ?reg (srv_messages srv)"
    by (rule posts_wf_cong [OF server_invD(7) [OF inv]]) auto
  ultimately show "server_inv P srv'"
    using clients_wf_remove server_invD(3-5) [OF inv] tables by (auto simp: srv' intro!: server_invI)
  show "abs_chat srv' = (abs_chat srv)\<lparr>user := (user (abs_chat srv))(i := None),
        place := (place (abs_chat srv))(i := None)\<rparr>"
    by (rule chat_eqI) (auto simp: srv' abs_chat_def place_of_remove strong_id_eq_iff fun_eq_iff)
qed

lemma depart_effect:
  assumes inv: "server_inv P srv" and place: "place_of (srv_clients srv) i = Some c"
    and at: "channel_at (srv_channels srv) (id_value c) = Some ch"
    and tables: "table_wf P T" "table_wf P L"
    and srv': "srv' = srv\<lparr>srv_channels := snd (channels_save (ch\<lparr>chan_members := uset_erase i (chan_members ch)\<rparr>)
          (srv_channels srv)),
        srv_clients := snd (clients_remove i (srv_clients srv)),
        srv_publisher := T, srv_list_publisher := L\<rparr>"
  shows "server_inv P srv'"
    and "abs_chat srv' = (abs_chat srv)\<lparr>user := (user (abs_chat srv))(i := None),
        place := (place (abs_chat srv))(i := None)\<rparr>"
proof -
  let ?reg = "snd (clients_remove i (srv_clients srv))"
  have ms: "distinct (uset_erase i (chan_members ch))"
    using channels_wf_entity [OF server_invD(3) [OF inv] at] by (simp add: channel_ok_def)
  have len: "length (sess_joined s) \<le> 1" if "session_at ?reg (id_value j) = Some s" for j :: client_id and s
    using that sessions_short [OF inv] by (auto split: if_splits)
  show "server_inv P srv'"
    by (rule move_effect(1) [OF inv at disjI2 [OF place] ms _ _ _ len _ tables srv', where enters = False])
      (use clients_wf_remove server_invD(4) [OF inv] in \<open>auto simp: place_of_remove\<close>)
  have "abs_chat srv' = (abs_chat srv)\<lparr>user := (\<lambda>j. map_option sess_username (session_at ?reg (id_value j))),
        place := (place (abs_chat srv))(i := if False then Some c else None)\<rparr>"
    by (rule move_effect(2) [OF inv at disjI2 [OF place] ms _ _ _ len _ tables srv', where enters = False])
      (use clients_wf_remove server_invD(4) [OF inv] in \<open>auto simp: place_of_remove\<close>)
  then show "abs_chat srv' = (abs_chat srv)\<lparr>user := (user (abs_chat srv))(i := None),
        place := (place (abs_chat srv))(i := None)\<rparr>"
    by (auto simp: abs_chat_def strong_id_eq_iff fun_eq_iff)
qed

subsection \<open>Leaving\<close>

lemma LeaveChannel_cases:
  assumes inv: "server_inv P srv"
  obtains (no_user) "session_at (srv_clients srv) (id_value i) = None"
      "LeaveChannel_execute P i c srv = (Inl ClientNotFound, srv)"
  | (no_room) "session_at (srv_clients srv) (id_value i) \<noteq> None"
      "channel_at (srv_channels srv) (id_value c) = None"
      "LeaveChannel_execute P i c srv = (Inl ChannelNotFound, srv)"
  | (outside) "session_at (srv_clients srv) (id_value i) \<noteq> None"
      "channel_at (srv_channels srv) (id_value c) \<noteq> None"
      "place_of (srv_clients srv) i \<noteq> Some c"
      "LeaveChannel_execute P i c srv = (Inl NotAMember, srv)"
  | (left) ch T L where "place_of (srv_clients srv) i = Some c"
      "session_at (srv_clients srv) (id_value i) \<noteq> None"
      "channel_at (srv_channels srv) (id_value c) = Some ch" "table_wf P T" "table_wf P L"
      "LeaveChannel_execute P i c srv =
        (Inr (), srv\<lparr>srv_channels := snd (channels_save (ch\<lparr>chan_members := uset_erase i (chan_members ch)\<rparr>)
          (srv_channels srv)),
        srv_clients := modify_session i (session_leaveChannel c) (srv_clients srv),
        srv_publisher := T, srv_list_publisher := L\<rparr>)"
proof (cases "session_at (srv_clients srv) (id_value i)")
  case None
  then show ?thesis
    by (intro no_user) (simp_all add: LeaveChannel_execute_def clients_findById_eq)
next
  case (Some s)
  then have s: "sess_id s = i"
    using clients_findById_id [OF server_invD(4) [OF inv], of i s] by (simp add: clients_findById_Inr)
  show ?thesis
  proof (cases "channel_at (srv_channels srv) (id_value c)")
    case None
    with Some show ?thesis
      by (intro no_room) (simp_all add: LeaveChannel_execute_def clients_findById_eq removeMemberAndBroadcast_eq)
  next
    case at: (Some ch)
    have member: "hasMember i ch \<longleftrightarrow> place_of (srv_clients srv) i = Some c"
      by (rule membership_members [OF server_invD(6) [OF inv] at])
    show ?thesis
    proof (cases "hasMember i ch")
      case False
      with Some at s member show ?thesis
        by (intro outside) (simp_all add: LeaveChannel_execute_def clients_findById_eq removeMemberAndBroadcast_eq)
    next
      case True
      have ch: "id_value (chan_id ch) = id_value c"
        using channels_wf_entity [OF server_invD(3) [OF inv] at] by simp
      let ?ms = "uset_erase i (chan_members ch)"
      let ?T = "publisher_broadcastMemberLeft P c ?ms i (sess_username s) (srv_publisher srv)"
      let ?L = "list_publishMemberCountChanged c (int32_of_size (memberCount (ch\<lparr>chan_members := ?ms\<rparr>)))
        (srv_list_publisher srv)"
      show ?thesis
        by (rule left [of ch ?T ?L])
          (use True Some at s member ch server_invD(1,2) [OF inv] in \<open>simp_all add: LeaveChannel_execute_def
            clients_findById_eq channels_findById_eq removeMemberAndBroadcast_eq in_place_eq Let_def
            publish_member_count_def\<close>)
    qed
  qed
qed

lemma LeaveChannel_refines:
  assumes inv: "server_inv P srv"
  shows "server_inv P (snd (LeaveChannel_execute P i c srv))"
    and "map_prod id abs_chat (LeaveChannel_execute P i c srv) = chat_leave i c (abs_chat srv)"
    and "fst (LeaveChannel_execute P i c srv) \<noteq> Inr () \<Longrightarrow> snd (LeaveChannel_execute P i c srv) = srv"
proof -
  have "server_inv P (snd (LeaveChannel_execute P i c srv)) \<and>
      map_prod id abs_chat (LeaveChannel_execute P i c srv) = chat_leave i c (abs_chat srv) \<and>
      (fst (LeaveChannel_execute P i c srv) \<noteq> Inr () \<longrightarrow> snd (LeaveChannel_execute P i c srv) = srv)"
    using inv
  proof (cases rule: LeaveChannel_cases [of P srv i c])
    case (left ch T L)
    from leave_effect [OF inv left(1,3-5) refl] show ?thesis
      unfolding left(6) using left(1-3) by (simp add: chat_leave_def del: abs_chat_sel(3)) simp
  qed (use inv in \<open>simp_all add: chat_leave_def\<close>)
  then show "server_inv P (snd (LeaveChannel_execute P i c srv))"
    and "map_prod id abs_chat (LeaveChannel_execute P i c srv) = chat_leave i c (abs_chat srv)"
    and "fst (LeaveChannel_execute P i c srv) \<noteq> Inr () \<Longrightarrow> snd (LeaveChannel_execute P i c srv) = srv"
    by blast+
qed

subsection \<open>Joining\<close>

lemma other_channels_filter:
  "other_channels_loop t js acc = acc @ filter (\<lambda>j. j \<noteq> t) js"
  by (induction t js acc rule: other_channels_loop.induct) auto

lemma leaveOther_effect:
  assumes inv: "server_inv P srv" and s: "session_at (srv_clients srv) (id_value i) = Some s"
    and at: "channel_at (srv_channels srv) (id_value c) = Some ch"
    and elsewhere: "place_of (srv_clients srv) i \<noteq> Some c"
  obtains srv1 where "leaveOtherChannels P s c srv = (Inr (), srv1)" "server_inv P srv1"
    "channel_at (srv_channels srv1) (id_value c) = Some ch" "place_of (srv_clients srv1) i = None"
    "session_at (srv_clients srv1) (id_value i) \<noteq> None"
    "abs_chat srv1 = (abs_chat srv)\<lparr>place := (place (abs_chat srv))(i := None)\<rparr>"
proof (cases "place_of (srv_clients srv) i")
  case None
  then have "leaveOtherChannels P s c srv = (Inr (), srv)"
    using membership_joined [OF server_invD(6) [OF inv] s]
    by (simp add: leaveOtherChannels_def other_channels_filter)
  moreover have "abs_chat srv = (abs_chat srv)\<lparr>place := (place (abs_chat srv))(i := None)\<rparr>"
    by (rule chat_eqI) (use None in \<open>simp_all add: fun_upd_idem\<close>)
  ultimately show ?thesis
    using that [of srv] inv at None s by simp
next
  case (Some d)
  then have d: "d \<noteq> c" using elsewhere by simp
  have joined: "sess_joined s = [d]"
    using membership_joined [OF server_invD(6) [OF inv] s] Some by simp
  have sid: "sess_id s = i"
    using clients_findById_id [OF server_invD(4) [OF inv], of i s] s by (simp add: clients_findById_Inr)
  obtain dh where dh: "channel_at (srv_channels srv) (id_value d) = Some dh"
    using membership_room [OF server_invD(6) [OF inv] Some] by blast
  have did: "id_value (chan_id dh) = id_value d"
    using channels_wf_entity [OF server_invD(3) [OF inv] dh] by simp
  have member: "hasMember i dh"
    using membership_members [OF server_invD(6) [OF inv] dh] Some by simp
  let ?ms = "uset_erase i (chan_members dh)"
  let ?T = "publisher_broadcastMemberLeft P d ?ms i (sess_username s) (srv_publisher srv)"
  let ?L = "list_publishMemberCountChanged d (int32_of_size (memberCount (dh\<lparr>chan_members := ?ms\<rparr>)))
        (srv_list_publisher srv)"
  let ?srv1 = "srv\<lparr>srv_channels := snd (channels_save (dh\<lparr>chan_members := ?ms\<rparr>) (srv_channels srv)),
        srv_clients := modify_session i (session_leaveChannel d) (srv_clients srv),
        srv_publisher := ?T, srv_list_publisher := ?L\<rparr>"
  have "leaveOtherChannels P s c srv = (Inr (), ?srv1)"
    using d dh did member s by (simp add: leaveOtherChannels_def other_channels_filter joined sid
        removeMemberAndBroadcast_eq in_place_eq channels_findById_eq publish_member_count_def Let_def)
  moreover have "table_wf P ?T" "table_wf P ?L"
    using server_invD(1,2) [OF inv] by simp_all
  note left = leave_effect [OF inv Some dh this refl]
  moreover have "place_of (srv_clients ?srv1) i = None"
    using arg_cong [OF left(2), where f = place] by (simp add: fun_eq_iff)
  ultimately show ?thesis
    using that [of ?srv1] at d did s by (simp add: strong_id_eq_iff)
qed

lemma join_found_refines:
  assumes inv: "server_inv P srv" and s: "session_at (srv_clients srv) (id_value i) = Some s"
    and at: "channel_at (srv_channels srv) (id_value c) = Some ch"
  shows "server_inv P (snd (join_found P i s ch c srv))"
    and "fst (join_found P i s ch c srv) = Inr ()"
    and "abs_chat (snd (join_found P i s ch c srv)) = (abs_chat srv)\<lparr>place := (place (abs_chat srv))(i \<mapsto> c)\<rparr>"
proof -
  have "server_inv P (snd (join_found P i s ch c srv)) \<and> fst (join_found P i s ch c srv) = Inr () \<and>
    abs_chat (snd (join_found P i s ch c srv)) = (abs_chat srv)\<lparr>place := (place (abs_chat srv))(i \<mapsto> c)\<rparr>"
  proof (cases "place_of (srv_clients srv) i = Some c")
    case True
    then have joined: "sess_joined s = [c]"
      using membership_joined [OF server_invD(6) [OF inv] s] by simp
    have "hasMember i ch"
      using membership_members [OF server_invD(6) [OF inv] at] True by simp
    moreover have "modify_session i (session_joinChannel c) (srv_clients srv) = srv_clients srv"
      using rejoin_nothing [OF s] joined by simp
    ultimately have "join_found P i s ch c srv = (Inr (), srv)"
      using s by (simp add: join_found_def leaveOtherChannels_def other_channels_filter joined in_place_eq Let_def)
    moreover have "abs_chat srv = (abs_chat srv)\<lparr>place := (place (abs_chat srv))(i \<mapsto> c)\<rparr>"
      by (rule chat_eqI) (use True in \<open>simp_all add: fun_upd_idem\<close>)
    ultimately show ?thesis
      using inv by simp
  next
    case False
    obtain srv1 where left: "leaveOtherChannels P s c srv = (Inr (), srv1)" "server_inv P srv1"
      "channel_at (srv_channels srv1) (id_value c) = Some ch" "place_of (srv_clients srv1) i = None"
      "session_at (srv_clients srv1) (id_value i) \<noteq> None"
      "abs_chat srv1 = (abs_chat srv)\<lparr>place := (place (abs_chat srv))(i := None)\<rparr>"
      by (rule leaveOther_effect [OF inv s at False])
    then obtain s1 where s1: "session_at (srv_clients srv1) (id_value i) = Some s1" by blast
    have "\<not> hasMember i ch"
      using membership_members [OF server_invD(6) [OF inv] at] False by simp
    moreover define T where "T = publisher_broadcastMemberJoined P (chan_id ch) (chan_members ch @ [i]) i
      (sess_username s) (srv_publisher srv1)"
    moreover define L where "L = list_publishMemberCountChanged (chan_id ch)
      (int32_of_size (memberCount (ch\<lparr>chan_members := chan_members ch @ [i]\<rparr>))) (srv_list_publisher srv1)"
    ultimately have join: "join_found P i s ch c srv =
      (Inr (), srv1\<lparr>srv_channels := snd (channels_save (ch\<lparr>chan_members := chan_members ch @ [i]\<rparr>)
          (srv_channels srv1)),
        srv_clients := modify_session i (session_joinChannel c) (srv_clients srv1),
        srv_publisher := T, srv_list_publisher := L\<rparr>)"
      using s1 by (simp add: join_found_def left(1) channels_save_def in_place_eq Let_def publish_member_count_def)
    have "table_wf P T" "table_wf P L"
      using server_invD(1,2) [OF left(2)] by (simp_all add: T_def L_def)
    from enter_effect [OF left(2,4) s1 left(3) this refl] show ?thesis
      by (simp add: join left(6))
  qed
  then show "server_inv P (snd (join_found P i s ch c srv))"
    and "fst (join_found P i s ch c srv) = Inr ()"
    and "abs_chat (snd (join_found P i s ch c srv)) = (abs_chat srv)\<lparr>place := (place (abs_chat srv))(i \<mapsto> c)\<rparr>"
    by blast+
qed

lemma JoinChannel_refines:
  assumes inv: "server_inv P srv"
  shows "server_inv P (snd (JoinChannel_execute P i c srv))"
    and "map_prod id abs_chat (JoinChannel_execute P i c srv) = chat_join i c (abs_chat srv)"
    and "fst (JoinChannel_execute P i c srv) \<noteq> Inr () \<Longrightarrow> snd (JoinChannel_execute P i c srv) = srv"
proof -
  have "server_inv P (snd (JoinChannel_execute P i c srv)) \<and>
    map_prod id abs_chat (JoinChannel_execute P i c srv) = chat_join i c (abs_chat srv) \<and>
    (fst (JoinChannel_execute P i c srv) \<noteq> Inr () \<longrightarrow> snd (JoinChannel_execute P i c srv) = srv)"
  proof (cases "session_at (srv_clients srv) (id_value i)")
    case None
    then show ?thesis
      using inv by (simp add: JoinChannel_execute_def clients_findById_eq chat_join_def)
  next
    case s: (Some s)
    show ?thesis
    proof (cases "channel_at (srv_channels srv) (id_value c)")
      case None
      then show ?thesis
        using inv s by (simp add: JoinChannel_execute_def clients_findById_eq channels_findById_eq chat_join_def)
    next
      case at: (Some ch)
      have "JoinChannel_execute P i c srv = join_found P i s ch c srv"
        using s at by (simp add: JoinChannel_execute_def clients_findById_eq channels_findById_eq)
      with join_found_refines [OF inv s at] s at show ?thesis
        by (cases "join_found P i s ch c srv") (simp add: chat_join_def)
    qed
  qed
  then show "server_inv P (snd (JoinChannel_execute P i c srv))"
    and "map_prod id abs_chat (JoinChannel_execute P i c srv) = chat_join i c (abs_chat srv)"
    and "fst (JoinChannel_execute P i c srv) \<noteq> Inr () \<Longrightarrow> snd (JoinChannel_execute P i c srv) = srv"
    by blast+
qed

text \<open>The name indices agree with the abstract state.\<close>

lemma findByName_room:
  assumes inv: "server_inv P srv"
  shows "channels_findByName n (srv_channels srv) = Inr ch \<longleftrightarrow>
     channel_at (srv_channels srv) (id_value (chan_id ch)) = Some ch \<and> chan_name ch = n"
  using channel_store.find_name_Inr [OF server_invD(3) [OF inv], of "channel_name_value n" ch]
  by (auto simp: channel_name.expand)

lemma findByName_missing: "channels_findByName n r = Inl e \<Longrightarrow> e = ChannelNotFound"
  by (metis channel_name.collapse channel_store.find_name_Inl)

lemma findByName_free:
  assumes inv: "server_inv P srv"
  shows "(\<exists>e. channels_findByName n (srv_channels srv) = Inl e) \<longleftrightarrow> \<not> name_taken n (abs_chat srv)"
proof -
  have "name_taken n (abs_chat srv) \<longleftrightarrow> (\<exists>ch. channels_findByName n (srv_channels srv) = Inr ch)"
    using channels_wf_entity [OF server_invD(3) [OF inv]] by (auto simp: name_taken_def findByName_room [OF inv]) metis
  then show ?thesis
    by (metis Inl_Inr_False sum.exhaust)
qed

lemma channel_index_taken:
  assumes inv: "server_inv P srv"
  shows "channel_index (srv_channels srv) (channel_name_value n) \<noteq> None \<longleftrightarrow> name_taken n (abs_chat srv)"
  using channel_store.find_name_taken [OF server_invD(3) [OF inv], of "channel_name_value n"]
    findByName_free [OF inv, of n]
  by simp (metis Inl_Inr_False sum.exhaust)

lemma username_index_taken:
  assumes inv: "server_inv P srv"
  shows "username_index (srv_clients srv) (username_value n) \<noteq> None \<longleftrightarrow> user_taken n (abs_chat srv)"
proof -
  have "username_index (srv_clients srv) (username_value n) \<noteq> None \<longleftrightarrow>
      (\<exists>i s. session_at (srv_clients srv) i = Some s \<and> sess_username s = n)"
    using clients_wf_index [OF server_invD(4) [OF inv], of "username_value n"]
    by (auto simp: username.expand) (metis username.expand)
  then show ?thesis
    by (auto simp: user_taken_def) (metis strong_id.sel)
qed

lemma JoinByName_refines:
  assumes inv: "server_inv P srv"
  shows "server_inv P (snd (JoinChannel_executeByName P i raw srv))"
    and "case JoinChannel_executeByName P i raw srv of
        (Inr c, srv') \<Rightarrow> room (abs_chat srv) c = Some (ChannelName (trim raw)) \<and>
          chat_join i c (abs_chat srv) = (Inr (), abs_chat srv')
      | (Inl e, srv') \<Rightarrow> srv' = srv \<and>
          e = (if user (abs_chat srv) i = None then ClientNotFound
               else if \<not> valid_channel_name (trim raw) then InvalidChannelName else ChannelNotFound) \<and>
          (e = ChannelNotFound \<longrightarrow> \<not> name_taken (ChannelName (trim raw)) (abs_chat srv))"
proof -
  have main: "server_inv P (snd (JoinChannel_executeByName P i raw srv)) \<and>
    (case JoinChannel_executeByName P i raw srv of
        (Inr c, srv') \<Rightarrow> room (abs_chat srv) c = Some (ChannelName (trim raw)) \<and>
          chat_join i c (abs_chat srv) = (Inr (), abs_chat srv')
      | (Inl e, srv') \<Rightarrow> srv' = srv \<and>
          e = (if user (abs_chat srv) i = None then ClientNotFound
               else if \<not> valid_channel_name (trim raw) then InvalidChannelName else ChannelNotFound) \<and>
          (e = ChannelNotFound \<longrightarrow> \<not> name_taken (ChannelName (trim raw)) (abs_chat srv)))"
  proof (cases "session_at (srv_clients srv) (id_value i)")
    case None
    then show ?thesis
      using inv by (simp add: JoinChannel_executeByName_def clients_findById_eq)
  next
    case s: (Some s)
    show ?thesis
    proof (cases "ChannelName_create (trim raw)")
      case None
      moreover have "\<not> valid_channel_name (trim raw)"
        using None by (simp add: ChannelName_create_None)
      ultimately show ?thesis
        using inv s by (simp add: JoinChannel_executeByName_def clients_findById_eq)
    next
      case n: (Some n)
      then have n_eq: "n = ChannelName (trim raw)" "valid_channel_name (trim raw)"
        by (simp_all add: ChannelName_create_iff)
      show ?thesis
      proof (cases "channels_findByName n (srv_channels srv)")
        case (Inl e)
        then show ?thesis
          using inv s n n_eq findByName_missing [OF Inl] findByName_free [OF inv, of n]
          by (auto simp: JoinChannel_executeByName_def clients_findById_eq)
      next
        case (Inr ch)
        have at: "channel_at (srv_channels srv) (id_value (chan_id ch)) = Some ch" "chan_name ch = n"
          using Inr by (simp_all add: findByName_room [OF inv])
        note join = join_found_refines [OF inv s at(1)]
        obtain srv' where srv': "join_found P i s ch (chan_id ch) srv = (Inr (), srv')"
          using join(2) by (cases "join_found P i s ch (chan_id ch) srv") simp
        then have "JoinChannel_executeByName P i raw srv = (Inr (chan_id ch), srv')"
          using s n Inr by (simp add: JoinChannel_executeByName_def clients_findById_eq)
        then show ?thesis
          using join(1,3) srv' s at n_eq by (simp add: chat_join_def)
      qed
    qed
  qed
  from main show "server_inv P (snd (JoinChannel_executeByName P i raw srv))"
    by (rule conjunct1)
  from main show "case JoinChannel_executeByName P i raw srv of
        (Inr c, srv') \<Rightarrow> room (abs_chat srv) c = Some (ChannelName (trim raw)) \<and>
          chat_join i c (abs_chat srv) = (Inr (), abs_chat srv')
      | (Inl e, srv') \<Rightarrow> srv' = srv \<and>
          e = (if user (abs_chat srv) i = None then ClientNotFound
               else if \<not> valid_channel_name (trim raw) then InvalidChannelName else ChannelNotFound) \<and>
          (e = ChannelNotFound \<longrightarrow> \<not> name_taken (ChannelName (trim raw)) (abs_chat srv))"
    by (rule conjunct2)
qed

subsection \<open>Creating channels and sessions\<close>

text \<open>A drawn identifier is new: it is not nil, and no channel, client past or present, or stored
  message has it.\<close>

definition fresh_uuid :: "'u platform \<Rightarrow> 'u \<Rightarrow> server \<Rightarrow> bool" where
  "fresh_uuid P u srv \<longleftrightarrow>
     channel_at (srv_channels srv) (uuid_to_string P u) = None \<and>
     session_at (srv_clients srv) (uuid_to_string P u) = None \<and>
     username_history (srv_clients srv) (uuid_to_string P u) = None \<and> \<not> uuid_is_nil P u \<and>
     (\<forall>k. \<forall>m\<in>set (history (srv_messages srv) k). id_value (msg_id m) \<noteq> uuid_to_string P u)"

lemma create_effect:
  assumes inv: "server_inv P srv" and new: "channel_at (srv_channels srv) (uuid_to_string P u) = None"
    and valid: "valid_channel_name (channel_name_value n)"
    and free: "\<not> name_taken n (abs_chat srv)" and L: "table_wf P L"
    and srv': "srv' = srv\<lparr>srv_channels := snd (channels_create P u t n (srv_channels srv)), srv_list_publisher := L\<rparr>"
  shows "server_inv P srv'"
    and "abs_chat srv' = (abs_chat srv)\<lparr>room := (room (abs_chat srv))(strong_id_generate P u \<mapsto> n)\<rparr>"
proof -
  let ?repo = "snd (channels_create P u t n (srv_channels srv))"
  have none: "channel_index (srv_channels srv) (channel_name_value n) = None"
    using channel_index_taken [OF inv, of n] free by blast
  note at = channel_at_create [OF none new]
  have nobody: "place_of (srv_clients srv) i \<noteq> Some (StrongId (uuid_to_string P u))" for i
    using membership_room [OF server_invD(6) [OF inv], of i] new by fastforce
  have "membership_wf ?repo (srv_clients srv)"
    using server_invD(6) [OF inv] nobody unfolding membership_wf_def at by auto
  moreover have "posts_wf ?repo (srv_clients srv) (srv_messages srv)"
    by (rule posts_wf_cong [OF server_invD(7) [OF inv]]) (auto simp: at)
  ultimately show "server_inv P srv'"
    using channels_wf_create [OF server_invD(3) [OF inv] valid new] server_invD(1,4,5) [OF inv] L
    by (auto simp: srv' intro!: server_invI)
  show "abs_chat srv' = (abs_chat srv)\<lparr>room := (room (abs_chat srv))(strong_id_generate P u \<mapsto> n)\<rparr>"
    by (rule chat_eqI) (auto simp: srv' abs_chat_def at strong_id_generate_def fun_eq_iff, metis strong_id.collapse)
qed

lemma CreateChannel_refines:
  assumes inv: "server_inv P srv" and fresh: "fresh_uuid P u srv"
  shows "server_inv P (snd (CreateChannel_execute P u t i raw srv))"
    and "map_prod id abs_chat (CreateChannel_execute P u t i raw srv) =
      (if user (abs_chat srv) i = None then (Inl ClientNotFound, abs_chat srv)
       else if \<not> valid_channel_name (trim raw) then (Inl InvalidChannelName, abs_chat srv)
       else chat_create (strong_id_generate P u) (ChannelName (trim raw)) (abs_chat srv))"
    and "fst (CreateChannel_execute P u t i raw srv) = Inl e \<Longrightarrow> snd (CreateChannel_execute P u t i raw srv) = srv"
proof -
  let ?n = "ChannelName (trim raw)"
  consider (bad) "session_at (srv_clients srv) (id_value i) = None \<or> \<not> valid_channel_name (trim raw)"
    | (taken) "session_at (srv_clients srv) (id_value i) \<noteq> None" "valid_channel_name (trim raw)"
        "name_taken ?n (abs_chat srv)"
    | (free) "session_at (srv_clients srv) (id_value i) \<noteq> None" "valid_channel_name (trim raw)"
        "\<not> name_taken ?n (abs_chat srv)"
    by blast
  then have main: "server_inv P (snd (CreateChannel_execute P u t i raw srv)) \<and>
    map_prod id abs_chat (CreateChannel_execute P u t i raw srv) =
      (if user (abs_chat srv) i = None then (Inl ClientNotFound, abs_chat srv)
       else if \<not> valid_channel_name (trim raw) then (Inl InvalidChannelName, abs_chat srv)
       else chat_create (strong_id_generate P u) (ChannelName (trim raw)) (abs_chat srv)) \<and>
    (fst (CreateChannel_execute P u t i raw srv) = Inl e \<longrightarrow> snd (CreateChannel_execute P u t i raw srv) = srv)"
  proof cases
    case bad
    then show ?thesis
      using inv ChannelName_create_None [of "trim raw"]
      by (auto simp: CreateChannel_execute_def clients_findById_eq split: option.splits)
  next
    case taken
    then have "ChannelName_create (trim raw) = Some ?n"
      by (simp add: ChannelName_create_iff)
    moreover have "channels_create P u t ?n (srv_channels srv) = (Inl ChannelAlreadyExists, srv_channels srv)"
      using channel_index_taken [OF inv, of ?n] taken by (simp add: channels_create_taken)
    ultimately show ?thesis
      using taken inv by (auto simp: CreateChannel_execute_def clients_findById_eq chat_create_def)
  next
    case free
    then have "ChannelName_create (trim raw) = Some ?n"
      by (simp add: ChannelName_create_iff)
    moreover have "channel_index (srv_channels srv) (channel_name_value ?n) = None"
      using channel_index_taken [OF inv, of ?n] free(3) by blast
    then obtain repo where repo: "channels_create P u t ?n (srv_channels srv) =
        (Inr (new_channel (strong_id_generate P u) ?n t), repo)"
      using channels_create_result [of "srv_channels srv" ?n P u t]
      by (cases "channels_create P u t ?n (srv_channels srv)") simp
    define L where "L = list_publishChannelCreated (new_channel (strong_id_generate P u) ?n t) (srv_list_publisher srv)"
    ultimately have exec: "CreateChannel_execute P u t i raw srv =
        (Inr (strong_id_generate P u), srv\<lparr>srv_channels := repo, srv_list_publisher := L\<rparr>)"
      using free(1) repo by (auto simp: CreateChannel_execute_def clients_findById_eq)
    have L: "table_wf P L"
      using server_invD(2) [OF inv] by (simp add: L_def)
    have new: "channel_at (srv_channels srv) (uuid_to_string P u) = None"
      using fresh by (simp add: fresh_uuid_def)
    from create_effect [OF inv new _ free(3) L, of "srv\<lparr>srv_channels := repo, srv_list_publisher := L\<rparr>" t]
    show ?thesis
      using free by (simp add: exec repo chat_create_def)
  qed
  from main show "server_inv P (snd (CreateChannel_execute P u t i raw srv))"
    by (rule conjunct1)
  from main show "map_prod id abs_chat (CreateChannel_execute P u t i raw srv) =
      (if user (abs_chat srv) i = None then (Inl ClientNotFound, abs_chat srv)
       else if \<not> valid_channel_name (trim raw) then (Inl InvalidChannelName, abs_chat srv)
       else chat_create (strong_id_generate P u) (ChannelName (trim raw)) (abs_chat srv))"
    by (rule conjunct2 [THEN conjunct1])
  from main show "fst (CreateChannel_execute P u t i raw srv) = Inl e \<Longrightarrow>
      snd (CreateChannel_execute P u t i raw srv) = srv"
    by simp
qed

text \<open>\<open>registerClient\<close>, which the service calls without a use case.\<close>

lemma register_refines:
  assumes inv: "server_inv P srv" and fresh: "fresh_uuid P u srv"
    and valid: "valid_username (username_value n)"
    and reg: "clients_registerClient P u t t' n (srv_clients srv) = (res, reg)"
  shows "server_inv P (srv\<lparr>srv_clients := reg\<rparr>)"
    and "(map_sum id sess_id res, abs_chat (srv\<lparr>srv_clients := reg\<rparr>)) =
      chat_enter (strong_id_generate P u) n (abs_chat srv)"
    and "res = Inl e \<Longrightarrow> reg = srv_clients srv"
proof -
  have main: "server_inv P (srv\<lparr>srv_clients := reg\<rparr>) \<and>
    (map_sum id sess_id res, abs_chat (srv\<lparr>srv_clients := reg\<rparr>)) =
      chat_enter (strong_id_generate P u) n (abs_chat srv) \<and> (res = Inl e \<longrightarrow> reg = srv_clients srv)"
  proof (cases "user_taken n (abs_chat srv)")
    case True
    then have "res = Inl ClientAlreadyExists" "reg = srv_clients srv"
      using username_index_taken [OF inv, of n] reg by (simp_all add: clients_register_taken)
    then show ?thesis
      using inv True by (simp add: chat_enter_def)
  next
    case False
    then have none: "username_index (srv_clients srv) (username_value n) = None"
      using username_index_taken [OF inv, of n] by blast
    have new: "session_at (srv_clients srv) (uuid_to_string P u) = None"
      using fresh by (simp add: fresh_uuid_def)
    have res: "res = Inr (new_session (strong_id_generate P u) n t t')"
      using clients_register_result [OF none, of P u t t'] reg by simp
    have at: "session_at reg k = (if k = uuid_to_string P u
        then Some (new_session (strong_id_generate P u) n t t') else session_at (srv_clients srv) k)" for k
      using session_at_register [OF none new, of t t' k] reg by simp
    have place: "place_of reg = place_of (srv_clients srv)"
      using new by (auto simp: place_of_def at fun_eq_iff split: option.splits)
    have "membership_wf (srv_channels srv) reg"
      using server_invD(6) [OF inv] unfolding membership_wf_def place at by auto
    moreover have "posts_wf (srv_channels srv) reg (srv_messages srv)"
      by (rule posts_wf_cong [OF server_invD(7) [OF inv]])
        (use username_history_register [OF none, of P u t t'] reg in auto)
    moreover have "clients_wf reg"
      using clients_wf_register [OF server_invD(4) [OF inv] valid new, of t t'] reg by simp
    ultimately have "server_inv P (srv\<lparr>srv_clients := reg\<rparr>)"
      using server_invD(1-3,5) [OF inv] by (auto intro!: server_invI)
    moreover have "abs_chat (srv\<lparr>srv_clients := reg\<rparr>) =
        (abs_chat srv)\<lparr>user := (user (abs_chat srv))(strong_id_generate P u \<mapsto> n)\<rparr>"
      by (rule chat_eqI)
        (auto simp: abs_chat_def at place strong_id_generate_def fun_eq_iff, metis strong_id.collapse)
    ultimately show ?thesis
      using False by (simp add: chat_enter_def res)
  qed
  from main show "server_inv P (srv\<lparr>srv_clients := reg\<rparr>)"
    by (rule conjunct1)
  from main show "(map_sum id sess_id res, abs_chat (srv\<lparr>srv_clients := reg\<rparr>)) =
      chat_enter (strong_id_generate P u) n (abs_chat srv)"
    by (rule conjunct2 [THEN conjunct1])
  from main show "res = Inl e \<Longrightarrow> reg = srv_clients srv"
    by simp
qed

subsection \<open>Sending and listing messages\<close>

lemma publish_each_fields [simp]:
  "srv_channels (publish_each P m rs srv) = srv_channels srv"
  "srv_clients (publish_each P m rs srv) = srv_clients srv"
  "srv_messages (publish_each P m rs srv) = srv_messages srv"
  "srv_list_publisher (publish_each P m rs srv) = srv_list_publisher srv"
  "table_wf Q (srv_publisher (publish_each P m rs srv)) \<longleftrightarrow> table_wf Q (srv_publisher srv)"
  by (induction rs arbitrary: srv) simp_all

lemma live_publish_each [simp]: "live (srv_publisher (publish_each P m rs srv)) = live (srv_publisher srv)"
proof (induction rs arbitrary: srv)
  case (Cons r rs)
  have "live (publisher_publish P reg r m t) = live t" for reg t
    by (intro live_cong) simp_all
  then show ?case using Cons by simp
qed simp

lemma written_publish_each:
  "written (srv_publisher (publish_each P m rs srv)) = written (srv_publisher srv) @
     map (\<lambda>w. (w, message_to_event P (Some (srv_clients srv)) m))
       (List.map_filter (\<lambda>r. live (srv_publisher srv) (id_value r)) rs)"
proof (induction rs arbitrary: srv)
  case (Cons r rs)
  have "live (publisher_publish P reg r m t) = live t" for reg t
    by (intro live_cong) simp_all
  then show ?case
    using Cons by (auto simp: written_publish map_filter_simps split: option.splits)
qed (simp add: map_filter_simps)

text \<open>The message that a successful \<open>execute\<close> stores.\<close>

definition sent_message ::
  "'u platform \<Rightarrow> 'u \<Rightarrow> int \<Rightarrow> client_id \<Rightarrow> channel_id \<Rightarrow> message_content \<Rightarrow> message" where
  "sent_message P u t i c v =
     \<lparr>msg_id = strong_id_generate P u, msg_sender_id = i, msg_channel_id = c, msg_content = v, msg_sent_at = t\<rparr>"

lemma post_effect:
  assumes inv: "server_inv P srv" and fresh: "fresh_uuid P u srv"
    and place: "place_of (srv_clients srv) i = Some c" and content: "valid_content (content_value v)"
    and m_def: "m = sent_message P u t i c v"
    and srv': "srv' = publish_each P m rs (srv\<lparr>srv_messages := snd (messages_save m (srv_messages srv))\<rparr>)"
  shows "server_inv P srv'" and "abs_chat srv' = chat_post (unat (repo_cap (srv_messages srv))) m (abs_chat srv)"
proof -
  let ?msgs = "snd (messages_save m (srv_messages srv))"
  obtain s where s: "session_at (srv_clients srv) (id_value i) = Some s"
    using place_of_session [OF place] by blast
  have "msg_id m \<notin> msg_id ` set (history (srv_messages srv) k)" for k
    using fresh unfolding fresh_uuid_def m_def sent_message_def strong_id_generate_def
    by (auto simp: image_iff) (metis strong_id.sel)
  then have "messages_wf ?msgs"
    using messages_wf_save [OF server_invD(5) [OF inv]] by blast
  moreover have "x = m \<or> x \<in> set (history (srv_messages srv) k)" if "x \<in> set (history ?msgs k)" for x k
    using that in_set_dropD by (fastforce simp: history_save split: if_splits)
  moreover have "k = id_value c" if "m \<in> set (history ?msgs k)" for k
    using that messages_wf_history(2) [OF \<open>messages_wf ?msgs\<close>] by (fastforce simp: m_def sent_message_def)
  moreover have "channel_at (srv_channels srv) (id_value c) \<noteq> None"
    using membership_room [OF server_invD(6) [OF inv] place] by simp
  moreover have "username_history (srv_clients srv) (id_value i) \<noteq> None"
    using clients_wf_history [OF server_invD(4) [OF inv] s] by simp
  ultimately have "posts_wf (srv_channels srv) (srv_clients srv) ?msgs"
    using server_invD(7) [OF inv] content unfolding posts_wf_def
    by (metis m_def message.select_convs(2,4) sent_message_def)
  then show "server_inv P srv'"
    using server_invD(1-4,6) [OF inv] \<open>messages_wf ?msgs\<close> by (auto simp: srv' intro!: server_invI)
  show "abs_chat srv' = chat_post (unat (repo_cap (srv_messages srv))) m (abs_chat srv)"
    by (rule chat_eqI) (auto simp: srv' chat_post_def Let_def abs_chat_def history_save fun_eq_iff strong_id_eq_iff)
qed

definition chat_send ::
  "'u platform \<Rightarrow> 'u \<Rightarrow> int \<Rightarrow> nat \<Rightarrow> client_id \<Rightarrow> channel_id \<Rightarrow> string \<Rightarrow> chat \<Rightarrow> message_id result \<times> chat" where
  "chat_send P u t cap i c raw ct =
     (if user ct i = None then (Inl ClientNotFound, ct)
      else if room ct c = None then (Inl ChannelNotFound, ct)
      else if place ct i \<noteq> Some c then (Inl NotAMember, ct)
      else (case MessageContent_create raw of
              Inl e \<Rightarrow> (Inl e, ct)
            | Inr v \<Rightarrow> (Inr (strong_id_generate P u), chat_post cap (sent_message P u t i c v) ct)))"

lemma SendMessage_refines:
  assumes inv: "server_inv P srv" and fresh: "fresh_uuid P u srv"
  shows "server_inv P (snd (SendMessage_execute P u t i c raw policy srv))"
    and "map_prod id abs_chat (SendMessage_execute P u t i c raw policy srv) =
      chat_send P u t (unat (repo_cap (srv_messages srv))) i c raw (abs_chat srv)"
    and "fst (SendMessage_execute P u t i c raw policy srv) = Inl e \<Longrightarrow>
      snd (SendMessage_execute P u t i c raw policy srv) = srv"
proof -
  have main: "server_inv P (snd (SendMessage_execute P u t i c raw policy srv)) \<and>
    map_prod id abs_chat (SendMessage_execute P u t i c raw policy srv) =
      chat_send P u t (unat (repo_cap (srv_messages srv))) i c raw (abs_chat srv) \<and>
    (fst (SendMessage_execute P u t i c raw policy srv) = Inl e \<longrightarrow>
      snd (SendMessage_execute P u t i c raw policy srv) = srv)"
  proof (cases "session_at (srv_clients srv) (id_value i)")
    case None
    then show ?thesis
      using inv by (simp add: SendMessage_execute_def clients_findById_eq chat_send_def)
  next
    case s: (Some s)
    show ?thesis
    proof (cases "channel_at (srv_channels srv) (id_value c)")
      case None
      then show ?thesis
        using inv s by (simp add: SendMessage_execute_def clients_findById_eq channels_findById_eq chat_send_def)
    next
      case at: (Some ch)
      have member: "hasMember i ch \<longleftrightarrow> place_of (srv_clients srv) i = Some c"
        by (rule membership_members [OF server_invD(6) [OF inv] at])
      show ?thesis
      proof (cases "place_of (srv_clients srv) i = Some c \<and> (\<exists>v. MessageContent_create raw = Inr v)")
        case False
        then show ?thesis
          using inv s at member by (cases "MessageContent_create raw")
            (auto simp: SendMessage_execute_def clients_findById_eq channels_findById_eq chat_send_def)
      next
        case True
        then obtain v where place: "place_of (srv_clients srv) i = Some c"
          and v: "MessageContent_create raw = Inr v" by blast
        have content: "valid_content (content_value v)"
          using v by (auto simp: MessageContent_create_def content_trim_eq valid_content_def Suc_le_eq Let_def
              split: if_splits)
        have exec: "SendMessage_execute P u t i c raw policy srv =
            (Inr (strong_id_generate P u), publish_each P (sent_message P u t i c v)
               (recipientsFor ch (sent_message P u t i c v) policy)
               (srv\<lparr>srv_messages := snd (messages_save (sent_message P u t i c v) (srv_messages srv))\<rparr>))"
          using s at member place v
          by (simp add: SendMessage_execute_def clients_findById_eq channels_findById_eq messages_save_def
              sent_message_def Let_def)
        show ?thesis
          using post_effect [OF inv fresh place content refl refl, of t] place s at v
          by (simp add: exec chat_send_def)
      qed
    qed
  qed
  from main show "server_inv P (snd (SendMessage_execute P u t i c raw policy srv))"
    by (rule conjunct1)
  from main show "map_prod id abs_chat (SendMessage_execute P u t i c raw policy srv) =
      chat_send P u t (unat (repo_cap (srv_messages srv))) i c raw (abs_chat srv)"
    by (rule conjunct2 [THEN conjunct1])
  from main show "fst (SendMessage_execute P u t i c raw policy srv) = Inl e \<Longrightarrow>
      snd (SendMessage_execute P u t i c raw policy srv) = srv"
    by simp
qed

subsection \<open>Expiry\<close>

definition chat_expire :: "client_id set \<Rightarrow> chat \<Rightarrow> chat" where
  "chat_expire E ct =
     ct\<lparr>user := (\<lambda>i. if i \<in> E then None else user ct i), place := (\<lambda>i. if i \<in> E then None else place ct i)\<rparr>"

definition expire_one :: "'u platform \<Rightarrow> session \<Rightarrow> server \<Rightarrow> server" where
  "expire_one P s srv =
     (let srv1 = expire_channels P s (sess_joined s) srv
      in srv1\<lparr>srv_clients := snd (clients_remove (sess_id s) (srv_clients srv1)),
              srv_publisher := publisher_unregisterSubscriber (sess_id s) (srv_publisher srv1)\<rparr>)"

lemma expire_each_one: "expire_each P (s # rest) cnt srv = expire_each P rest (cnt + 1) (expire_one P s srv)"
  by (simp add: expire_one_def Let_def)

lemma live_broadcastMemberLeft [simp]: "live (publisher_broadcastMemberLeft P c rs i n t) = live t"
  by (intro live_cong) (simp_all add: publisher_broadcastMemberLeft_def)

lemma expire_one_effect:
  assumes inv: "server_inv P srv" and s: "session_at (srv_clients srv) (id_value (sess_id s)) = Some s"
  shows "server_inv P (expire_one P s srv)"
    and "abs_chat (expire_one P s srv) = chat_expire {sess_id s} (abs_chat srv)"
    and "session_at (srv_clients (expire_one P s srv)) k =
      (if k = id_value (sess_id s) then None else session_at (srv_clients srv) k)"
    and "live (srv_publisher (expire_one P s srv)) k =
      (if k = id_value (sess_id s) then None else live (srv_publisher srv) k)"
    and "srv_list_publisher (expire_one P s srv) = srv_list_publisher srv"
proof -
  let ?i = "sess_id s"
  have expire: "(abs_chat srv)\<lparr>user := (user (abs_chat srv))(?i := None), place := (place (abs_chat srv))(?i := None)\<rparr>
      = chat_expire {?i} (abs_chat srv)"
    by (rule chat_eqI) (auto simp: chat_expire_def fun_eq_iff)
  have "server_inv P (expire_one P s srv) \<and>
    abs_chat (expire_one P s srv) = chat_expire {sess_id s} (abs_chat srv) \<and>
    srv_clients (expire_one P s srv) = snd (clients_remove ?i (srv_clients srv)) \<and>
    live (srv_publisher (expire_one P s srv)) k = (if k = id_value ?i then None else live (srv_publisher srv) k) \<and>
    srv_list_publisher (expire_one P s srv) = srv_list_publisher srv"
  proof (cases "place_of (srv_clients srv) ?i")
    case None
    let ?T = "publisher_unregisterSubscriber ?i (srv_publisher srv)"
    have one: "expire_one P s srv = srv\<lparr>srv_clients := snd (clients_remove ?i (srv_clients srv)),
        srv_publisher := ?T, srv_list_publisher := srv_list_publisher srv\<rparr>"
      using membership_joined [OF server_invD(6) [OF inv] s] None by (simp add: expire_one_def)
    have T: "table_wf P ?T"
      using server_invD(1) [OF inv] channel_pub.wf_unregister by blast
    from remove_effect [OF inv None T server_invD(2) [OF inv] one] show ?thesis
      using channel_pub.live_unregister [OF server_invD(1) [OF inv], of ?i k] expire by (simp add: one)
  next
    case (Some c)
    obtain ch where at: "channel_at (srv_channels srv) (id_value c) = Some ch"
      using membership_room [OF server_invD(6) [OF inv] Some] by blast
    have member: "hasMember ?i ch"
      using membership_members [OF server_invD(6) [OF inv] at] Some by simp
    let ?ms = "uset_erase ?i (chan_members ch)"
    let ?B = "publisher_broadcastMemberLeft P c ?ms ?i (sess_username s) (srv_publisher srv)"
    let ?T = "publisher_unregisterSubscriber ?i ?B"
    have one: "expire_one P s srv = srv\<lparr>srv_channels := snd (channels_save (ch\<lparr>chan_members := ?ms\<rparr>) (srv_channels srv)),
        srv_clients := snd (clients_remove ?i (srv_clients srv)),
        srv_publisher := ?T, srv_list_publisher := srv_list_publisher srv\<rparr>"
      using membership_joined [OF server_invD(6) [OF inv] s] Some at member
      by (simp add: expire_one_def removeMemberAndBroadcast_eq Let_def)
    have B: "table_wf P ?B" using server_invD(1) [OF inv] by simp
    then have T: "table_wf P ?T" by (rule channel_pub.wf_unregister)
    from depart_effect [OF inv Some at T server_invD(2) [OF inv] one] show ?thesis
      using channel_pub.live_unregister [OF B, of ?i k] expire by (simp add: one)
  qed
  then show "server_inv P (expire_one P s srv)"
    and "abs_chat (expire_one P s srv) = chat_expire {sess_id s} (abs_chat srv)"
    and "session_at (srv_clients (expire_one P s srv)) k =
      (if k = id_value (sess_id s) then None else session_at (srv_clients srv) k)"
    and "live (srv_publisher (expire_one P s srv)) k =
      (if k = id_value (sess_id s) then None else live (srv_publisher srv) k)"
    and "srv_list_publisher (expire_one P s srv) = srv_list_publisher srv"
    by simp_all
qed

lemma chat_expire_insert: "chat_expire E (chat_expire {i} ct) = chat_expire (insert i E) ct"
  by (rule chat_eqI) (auto simp: chat_expire_def fun_eq_iff)

lemma expire_each_effect:
  assumes "server_inv P srv" and "distinct (map sess_id ss)"
    and "\<And>s. s \<in> set ss \<Longrightarrow> session_at (srv_clients srv) (id_value (sess_id s)) = Some s"
  shows "fst (expire_each P ss cnt srv) = cnt + length ss \<and>
     server_inv P (snd (expire_each P ss cnt srv)) \<and>
     abs_chat (snd (expire_each P ss cnt srv)) = chat_expire (sess_id ` set ss) (abs_chat srv) \<and>
     (\<forall>k. live (srv_publisher (snd (expire_each P ss cnt srv))) k =
       (if k \<in> (\<lambda>s. id_value (sess_id s)) ` set ss then None else live (srv_publisher srv) k)) \<and>
     srv_list_publisher (snd (expire_each P ss cnt srv)) = srv_list_publisher srv"
  using assms
proof (induction ss arbitrary: cnt srv)
  case Nil
  have "chat_expire {} (abs_chat srv) = abs_chat srv"
    by (rule chat_eqI) (auto simp: chat_expire_def)
  then show ?case using Nil by simp
next
  case (Cons s ss)
  note one = expire_one_effect [OF Cons.prems(1) Cons.prems(3) [OF list.set_intros(1)]]
  have "session_at (srv_clients (expire_one P s srv)) (id_value (sess_id x)) = Some x" if "x \<in> set ss" for x
    using that Cons.prems(2) Cons.prems(3) [of x] one(3) by (auto simp: strong_id_eq_iff image_iff)
  from Cons.IH [OF one(1) _ this] show ?case
    using Cons.prems(2) one(2,4,5) by (auto simp only: expire_each_one) (auto simp: chat_expire_insert)
qed

lemma collectExpired_ids:
  assumes "clients_wf r"
  shows "distinct (map sess_id (clients_collectExpired d r))"
proof -
  have keys: "k = id_value (sess_id s)" if "(k, s) \<in> set (clients_by_id r)" for k s
    using that umap_mem_iff [OF clients_wf_umap [OF assms, THEN conjunct1]]
      clients_wf_entity [OF assms, of k s] by (simp add: session_at_def)
  have "distinct (map fst (clients_by_id r))"
    using clients_wf_umap [OF assms] by (simp add: umap_wf_def)
  then have "distinct (map (\<lambda>x. id_value (sess_id (snd x))) (clients_by_id r))"
    using keys by (metis (no_types, lifting) list.map_cong0 prod.collapse)
  then have "distinct (map (\<lambda>s. id_value (sess_id s)) (map snd (clients_by_id r)))"
    by (simp add: comp_def)
  then have "distinct (map (\<lambda>s. id_value (sess_id s)) (filter (isExpired d) (map snd (clients_by_id r))))"
    by (rule distinct_map_filter)
  then show ?thesis
    by (simp add: clients_collectExpired_def expired_loop_filter distinct_map inj_on_def)
qed

definition expired_ids :: "int \<Rightarrow> client_registry \<Rightarrow> client_id set" where
  "expired_ids d r = {i. \<exists>s. session_at r (id_value i) = Some s \<and> isExpired d s}"

lemma ExpireInactive_refines:
  assumes inv: "server_inv P srv" and E_eq: "E = expired_ids d (srv_clients srv)"
  shows "fst (ExpireInactiveClients_run P d srv) = card E"
    and "server_inv P (snd (ExpireInactiveClients_run P d srv))"
    and "abs_chat (snd (ExpireInactiveClients_run P d srv)) = chat_expire E (abs_chat srv)"
    and "live (srv_publisher (snd (ExpireInactiveClients_run P d srv))) (id_value i) =
      (if i \<in> E then None else live (srv_publisher srv) (id_value i))"
    and "srv_list_publisher (snd (ExpireInactiveClients_run P d srv)) = srv_list_publisher srv"
proof -
  let ?ss = "clients_collectExpired d (srv_clients srv)"
  note wf = server_invD(4) [OF inv]
  have mem: "session_at (srv_clients srv) (id_value (sess_id s)) = Some s" if "s \<in> set ?ss" for s
    using that set_collectExpired [OF wf] by blast
  have "i \<in> sess_id ` set ?ss \<longleftrightarrow> i \<in> E" for i
    using clients_findById_id [OF wf] by (force simp: set_collectExpired [OF wf] E_eq expired_ids_def clients_findById_Inr image_iff)
  then have E: "sess_id ` set ?ss = E" by blast
  have len: "length ?ss = card E"
    using collectExpired_ids [OF wf, of d] distinct_card E by (metis length_map set_map)
  have keys: "id_value i \<in> (\<lambda>s. id_value (sess_id s)) ` set ?ss \<longleftrightarrow> i \<in> E" for i
    unfolding E [symmetric] by (auto simp: strong_id_eq_iff image_iff)
  note all = expire_each_effect [OF inv collectExpired_ids [OF wf, of d] mem, of 0, folded ExpireInactiveClients_run_def]
  show "fst (ExpireInactiveClients_run P d srv) = card E"
    and "server_inv P (snd (ExpireInactiveClients_run P d srv))"
    and "abs_chat (snd (ExpireInactiveClients_run P d srv)) = chat_expire E (abs_chat srv)"
    and "live (srv_publisher (snd (ExpireInactiveClients_run P d srv))) (id_value i) =
      (if i \<in> E then None else live (srv_publisher srv) (id_value i))"
    and "srv_list_publisher (snd (ExpireInactiveClients_run P d srv)) = srv_list_publisher srv"
    using all by (simp_all add: len E keys)
qed

subsection \<open>Steps that leave the chat as it is\<close>

lemma heartbeat_refines:
  assumes inv: "server_inv P srv"
    and touch: "clients_touchHeartbeat t i (srv_clients srv) = (res, reg)"
  shows "server_inv P (srv\<lparr>srv_clients := reg\<rparr>)" and "abs_chat (srv\<lparr>srv_clients := reg\<rparr>) = abs_chat srv"
    and "res = (if user (abs_chat srv) i = None then Inl ClientNotFound else Inr ())"
proof -
  let ?r = "modify_session i (touch t) (srv_clients srv)"
  have reg: "reg = (if session_at (srv_clients srv) (id_value i) = None then srv_clients srv else ?r)"
    and res: "res = (if session_at (srv_clients srv) (id_value i) = None then Inl ClientNotFound else Inr ())"
    using touch by (auto simp: in_place_eq split: if_splits)
  have at: "session_at ?r k = (if k = id_value i then map_option (touch t) (session_at (srv_clients srv) k)
      else session_at (srv_clients srv) k)" for k
    by simp
  have "place_of ?r j = place_of (srv_clients srv) j" for j
    unfolding place_of_modify by (auto simp: place_of_def split: option.splits)
  then have "place_of ?r = place_of (srv_clients srv)"
    by blast
  then have place: "place_of reg = place_of (srv_clients srv)"
    by (simp add: reg)
  have short: "length (sess_joined s) \<le> 1" if "session_at reg k = Some s" for k s
    using that sessions_short [OF inv] by (auto simp: reg split: if_splits)
  have "clients_wf reg"
    using clients_wf_in_place(1) [OF server_invD(4) [OF inv], of t i] touch by simp
  moreover have "membership_wf (srv_channels srv) reg"
    using server_invD(6) [OF inv] short unfolding membership_wf_def place by blast
  moreover have "posts_wf (srv_channels srv) reg (srv_messages srv)"
    by (rule posts_wf_cong [OF server_invD(7) [OF inv]]) (auto simp: reg)
  ultimately show "server_inv P (srv\<lparr>srv_clients := reg\<rparr>)"
    using server_invD(1-3,5) [OF inv] by (auto intro!: server_invI)
  show "abs_chat (srv\<lparr>srv_clients := reg\<rparr>) = abs_chat srv"
  proof (rule chat_eqI)
    have "map_option sess_username (session_at reg k) = map_option sess_username (session_at (srv_clients srv) k)" for k
      by (auto simp: reg option.map_comp comp_def)
    then show "user (abs_chat (srv\<lparr>srv_clients := reg\<rparr>)) = user (abs_chat srv)"
      by (simp add: abs_chat_def)
  qed (simp_all add: abs_chat_def place)
  show "res = (if user (abs_chat srv) i = None then Inl ClientNotFound else Inr ())"
    by (simp add: res)
qed

lemma tables_effect:
  assumes "server_inv P srv" "table_wf P T" "table_wf P L"
  shows "server_inv P (srv\<lparr>srv_publisher := T, srv_list_publisher := L\<rparr>)"
    and "abs_chat (srv\<lparr>srv_publisher := T, srv_list_publisher := L\<rparr>) = abs_chat srv"
  using server_invD [OF assms(1)] assms(2,3) by (auto simp: abs_chat_def intro!: server_invI)

lemma publisher_effect:
  assumes "server_inv P srv" "table_wf P T"
  shows "server_inv P (srv\<lparr>srv_publisher := T\<rparr>)" and "abs_chat (srv\<lparr>srv_publisher := T\<rparr>) = abs_chat srv"
  using tables_effect [OF assms server_invD(2) [OF assms(1)]] by simp_all

lemma list_publisher_effect:
  assumes "server_inv P srv" "table_wf P L"
  shows "server_inv P (srv\<lparr>srv_list_publisher := L\<rparr>)" and "abs_chat (srv\<lparr>srv_list_publisher := L\<rparr>) = abs_chat srv"
  using tables_effect [OF assms(1) server_invD(1) [OF assms(1)] assms(2)] by simp_all

text \<open>The order in which the hash tables iterate has no meaning.\<close>

definition server_perm :: "server \<Rightarrow> server \<Rightarrow> bool" where
  "server_perm srv srv' \<longleftrightarrow>
     mset (channels_by_id (srv_channels srv')) = mset (channels_by_id (srv_channels srv)) \<and>
     mset (name_to_id (srv_channels srv')) = mset (name_to_id (srv_channels srv)) \<and>
     mset (clients_by_id (srv_clients srv')) = mset (clients_by_id (srv_clients srv)) \<and>
     mset (username_to_id (srv_clients srv')) = mset (username_to_id (srv_clients srv)) \<and>
     mset (historical_usernames (srv_clients srv')) = mset (historical_usernames (srv_clients srv)) \<and>
     mset (buffers (srv_messages srv')) = mset (buffers (srv_messages srv)) \<and>
     repo_cap (srv_messages srv') = repo_cap (srv_messages srv) \<and>
     mset (writers (srv_publisher srv')) = mset (writers (srv_publisher srv)) \<and>
     entries (srv_publisher srv') = entries (srv_publisher srv) \<and>
     written (srv_publisher srv') = written (srv_publisher srv) \<and>
     mset (writers (srv_list_publisher srv')) = mset (writers (srv_list_publisher srv)) \<and>
     entries (srv_list_publisher srv') = entries (srv_list_publisher srv) \<and>
     written (srv_list_publisher srv') = written (srv_list_publisher srv)"

lemma server_permD:
  assumes "server_perm srv srv'"
  shows "mset (channels_by_id (srv_channels srv')) = mset (channels_by_id (srv_channels srv))"
    and "mset (name_to_id (srv_channels srv')) = mset (name_to_id (srv_channels srv))"
    and "mset (clients_by_id (srv_clients srv')) = mset (clients_by_id (srv_clients srv))"
    and "mset (username_to_id (srv_clients srv')) = mset (username_to_id (srv_clients srv))"
    and "mset (historical_usernames (srv_clients srv')) = mset (historical_usernames (srv_clients srv))"
    and "mset (buffers (srv_messages srv')) = mset (buffers (srv_messages srv))"
    and "repo_cap (srv_messages srv') = repo_cap (srv_messages srv)"
    and "mset (writers (srv_publisher srv')) = mset (writers (srv_publisher srv))"
    and "entries (srv_publisher srv') = entries (srv_publisher srv)"
    and "mset (writers (srv_list_publisher srv')) = mset (writers (srv_list_publisher srv))"
    and "entries (srv_list_publisher srv') = entries (srv_list_publisher srv)"
  using assms unfolding server_perm_def by blast+

lemma table_perm:
  assumes "table_wf P t" "mset (writers t') = mset (writers t)" "entries t' = entries t"
  shows "table_wf P t'" and "live t' = live t"
proof -
  have find: "umap_find (writers t') = umap_find (writers t)"
    using umap_find_perm [OF table_wf_umap [OF assms(1)] assms(2)] by blast
  show "table_wf P t'"
    using assms(1,3) umap_wf_perm [OF _ assms(2)] by (simp add: table_wf_def find)
  show "live t' = live t"
    using assms(3) by (simp add: live_def find entry_writer_def fun_eq_iff split: option.splits)
qed

lemma perm_effect:
  assumes inv: "server_inv P srv" and perm: "server_perm srv srv'"
  shows "server_inv P srv'" and "abs_chat srv' = abs_chat srv"
proof -
  note p = server_permD [OF perm]
  note chans = channels_wf_perm [OF server_invD(3) [OF inv] p(1,2)]
  note clients = clients_wf_perm [OF server_invD(4) [OF inv] p(3-5)]
  note msgs = messages_wf_perm [OF server_invD(5) [OF inv] p(6,7)] history_perm [OF server_invD(5) [OF inv] p(6)]
  note tables = table_perm(1) [OF server_invD(1) [OF inv] p(8,9)] table_perm(1) [OF server_invD(2) [OF inv] p(10,11)]
  have place: "place_of (srv_clients srv') = place_of (srv_clients srv)"
    by (simp add: place_of_def clients fun_eq_iff)
  have "membership_wf (srv_channels srv') (srv_clients srv')"
    using server_invD(6) [OF inv] unfolding membership_wf_def chans clients place .
  moreover have "posts_wf (srv_channels srv') (srv_clients srv') (srv_messages srv')"
    using server_invD(7) [OF inv] unfolding posts_wf_def chans clients msgs .
  ultimately show "server_inv P srv'"
    using tables chans(1) clients(1) msgs(1) by (intro server_invI)
  show "abs_chat srv' = abs_chat srv"
    by (simp add: abs_chat_def chans clients msgs place)
qed

end
