(* ===== verification/Server_System.thy ===== *)
theory Server_System
  imports Service Usecase_Refinement
begin

text \<open>
  The running server (\<open>main.cpp\<close>, \<open>heartbeat_sweeper.cpp\<close>): start-up from the command line, and the
  system as a step relation. A step is one complete handler call, the part of a streaming call
  before or after its wait, one pass of the sweeper, or a change of the iteration order of the hash
  tables. Besides the server's state the system knows the streams that are open, each with its
  writer and its client, and all writers handed out so far; a writer lives as long as its stream.
\<close>

subsection \<open>Start-up\<close>

definition select_log_level :: "bool \<Rightarrow> bool \<Rightarrow> LogLevel" where
  "select_log_level quiet verbose = (if quiet then Warn else if verbose then Debug else Info)"

record server_args =
  arg_bind_address :: string
  arg_cert_path :: string
  arg_key_path :: string
  arg_insecure :: bool
  arg_history_cap :: "32 word"
  arg_heartbeat_timeout :: "32 word"
  arg_sweep_interval :: "32 word"

definition default_args :: server_args where
  "default_args = \<lparr>arg_bind_address = ''0.0.0.0:50051'', arg_cert_path = [], arg_key_path = [], arg_insecure = False, arg_history_cap = 200,
     arg_heartbeat_timeout = 90, arg_sweep_interval = 5\<rparr>"

text \<open>What \<open>run\<close> does before the runner blocks: exit with a code, or serve, with the TLS pair if any
  and the interval and timeout of the sweeper if it is started. \<open>read_pem_file\<close> is the one
  of \<open>tls_config.cpp\<close>.\<close>

definition read_pem_file :: "files \<Rightarrow> string \<Rightarrow> string result" where
  "read_pem_file files path = (case files path of None \<Rightarrow> Inl StorageError | Some buffer \<Rightarrow> Inr buffer)"

datatype startup =
    Exit int
  | Serving (started_server: server) (started_tls: "(string \<times> string) option")
      (started_sweeper: "(32 word \<times> 32 word) option")

definition seed_channel :: "'u platform \<Rightarrow> 'u \<Rightarrow> int \<Rightarrow> channel_repo \<Rightarrow> channel_repo" where
  "seed_channel P u system_now repo =
     (case ChannelName_create ''general'' of
        None \<Rightarrow> repo
      | Some default_name \<Rightarrow> snd (channels_create P u system_now default_name repo))"

definition initial_server :: "'u platform \<Rightarrow> 'u \<Rightarrow> int \<Rightarrow> 32 word \<Rightarrow> server" where
  "initial_server P u system_now history_cap =
     \<lparr>srv_channels = seed_channel P u system_now channels_empty, srv_clients = clients_empty,
      srv_messages = messages_init history_cap, srv_publisher = no_writers, srv_list_publisher = no_writers\<rparr>"

definition server_run ::
  "'u platform \<Rightarrow> files \<Rightarrow> 'u \<Rightarrow> int \<Rightarrow> server_args \<Rightarrow> startup" where
  "server_run P files u system_now a =
     (if \<not> arg_insecure a \<and> (arg_cert_path a = [] \<or> arg_key_path a = []) then Exit 1
      else if arg_heartbeat_timeout a > 0 \<and> arg_sweep_interval a = 0 then Exit 1
      else
        let srv = initial_server P u system_now (arg_history_cap a);
            sweeper = (if arg_heartbeat_timeout a > 0
                       then Some (arg_sweep_interval a, arg_heartbeat_timeout a) else None)
        in if arg_insecure a then Serving srv None sweeper
           else (case (read_pem_file files (arg_cert_path a), read_pem_file files (arg_key_path a)) of
                   (Inr cert_pem, Inr key_pem) \<Rightarrow> Serving srv (Some (cert_pem, key_pem)) sweeper
                 | _ \<Rightarrow> Exit 1))"

subsection \<open>The sweeper\<close>

text \<open>One pass of the loop, at the steady time \<open>now\<close>, in ticks.\<close>

definition sweep :: "'u platform \<Rightarrow> int \<Rightarrow> int \<Rightarrow> server \<Rightarrow> nat \<times> server" where
  "sweep P now heartbeat_timeout srv =
     (let deadline = now - heartbeat_timeout in ExpireInactiveClients_run P deadline srv)"

subsection \<open>The step relation\<close>

record system =
  sys_server :: server
  sys_streams :: "(writer \<times> client_id) list"
  sys_list_streams :: "(writer \<times> client_id) list"
  sys_writers :: "writer list"

inductive sys_step :: "'u platform \<Rightarrow> system \<Rightarrow> system \<Rightarrow> bool" for P :: "'u platform" where
  connect: "fresh_uuid P u (sys_server s) \<Longrightarrow>
    sys_step P s (s\<lparr>sys_server := snd (Connect P u t t' name (sys_server s))\<rparr>)"
| disconnect: "sys_step P s (s\<lparr>sys_server := snd (Disconnect P ci (sys_server s))\<rparr>)"
| create_channel: "fresh_uuid P u (sys_server s) \<Longrightarrow>
    sys_step P s (s\<lparr>sys_server := snd (CreateChannel P u t ci name (sys_server s))\<rparr>)"
| join_channel: "sys_step P s (s\<lparr>sys_server := snd (JoinChannel P ci ch (sys_server s))\<rparr>)"
| leave_channel: "sys_step P s (s\<lparr>sys_server := snd (LeaveChannel P ci ch (sys_server s))\<rparr>)"
| send_message: "fresh_uuid P u (sys_server s) \<Longrightarrow>
    sys_step P s (s\<lparr>sys_server := snd (SendMessage P u t ci ch text (sys_server s))\<rparr>)"
| heartbeat: "sys_step P s (s\<lparr>sys_server := snd (Heartbeat P t' ci (sys_server s))\<rparr>)"
| subscribe_open: "w \<notin> set (sys_writers s) \<Longrightarrow> strong_id_parse P (trim ci) = Some i \<Longrightarrow>
    SubscribeToChannel_open P ci ch w (sys_server s) = (None, srv') \<Longrightarrow>
    sys_step P s (s\<lparr>sys_server := srv', sys_streams := (w, i) # sys_streams s, sys_writers := w # sys_writers s\<rparr>)"
| subscribe_rejected: "w \<notin> set (sys_writers s) \<Longrightarrow>
    SubscribeToChannel_open P ci ch w (sys_server s) = (Some status, srv') \<Longrightarrow>
    sys_step P s (s\<lparr>sys_server := srv', sys_writers := w # sys_writers s\<rparr>)"
| subscribe_close: "(w, i) \<in> set (sys_streams s) \<Longrightarrow>
    sys_step P s (s\<lparr>sys_server := snd (SubscribeToChannel_close i (sys_server s)),
      sys_streams := removeAll (w, i) (sys_streams s)\<rparr>)"
| list_open: "w \<notin> set (sys_writers s) \<Longrightarrow> strong_id_parse P (trim ci) = Some i \<Longrightarrow>
    SubscribeToChannelList_open P ci w (sys_server s) = (None, srv') \<Longrightarrow>
    sys_step P s (s\<lparr>sys_server := srv', sys_list_streams := (w, i) # sys_list_streams s,
      sys_writers := w # sys_writers s\<rparr>)"
| list_rejected: "w \<notin> set (sys_writers s) \<Longrightarrow>
    SubscribeToChannelList_open P ci w (sys_server s) = (Some status, srv') \<Longrightarrow>
    sys_step P s (s\<lparr>sys_server := srv', sys_writers := w # sys_writers s\<rparr>)"
| list_close: "(w, i) \<in> set (sys_list_streams s) \<Longrightarrow>
    sys_step P s (s\<lparr>sys_server := snd (SubscribeToChannelList_close i (sys_server s)),
      sys_list_streams := removeAll (w, i) (sys_list_streams s)\<rparr>)"
| sweep_pass: "sys_step P s (s\<lparr>sys_server := snd (sweep P now timeout (sys_server s))\<rparr>)"
| reorder: "server_perm (sys_server s) srv' \<Longrightarrow> sys_step P s (s\<lparr>sys_server := srv'\<rparr>)"

definition sys_start :: "'u platform \<Rightarrow> system \<Rightarrow> bool" where
  "sys_start P s \<longleftrightarrow> uuid_contract P \<and>
     (\<exists>files u t a tls sweeper. \<not> uuid_is_nil P u \<and>
        server_run P files u t a = Serving (sys_server s) tls sweeper) \<and>
     sys_streams s = [] \<and> sys_list_streams s = [] \<and> sys_writers s = []"

subsection \<open>What the handlers do to the tables\<close>

definition same_tables :: "server \<Rightarrow> server \<Rightarrow> bool" where
  "same_tables srv srv' \<longleftrightarrow>
     writers (srv_publisher srv') = writers (srv_publisher srv) \<and>
     entries (srv_publisher srv') = entries (srv_publisher srv) \<and>
     writers (srv_list_publisher srv') = writers (srv_list_publisher srv) \<and>
     entries (srv_list_publisher srv') = entries (srv_list_publisher srv)"

lemma same_tables_refl [simp]: "same_tables srv srv"
  by (simp add: same_tables_def)

lemma same_tables_trans [trans]: "same_tables a b \<Longrightarrow> same_tables b c \<Longrightarrow> same_tables a c"
  by (simp add: same_tables_def)

lemma same_tables_live:
  assumes "same_tables srv srv'"
  shows "live (srv_publisher srv') = live (srv_publisher srv)"
    and "live (srv_list_publisher srv') = live (srv_list_publisher srv)"
  using assms live_cong unfolding same_tables_def by blast+

lemma same_tables_count [simp]: "same_tables srv (publish_member_count c ch srv)"
  by (simp add: same_tables_def publish_member_count_def list_publishMemberCountChanged_def)

lemma same_tables_remove [simp]: "same_tables srv (snd (removeMemberAndBroadcast P s c srv))"
  by (simp add: removeMemberAndBroadcast_eq same_tables_def publisher_broadcastMemberLeft_def Let_def
      split: option.splits)

lemma same_tables_update [simp]:
  "same_tables srv (srv'\<lparr>srv_clients := reg\<rparr>) = same_tables srv srv'"
  "same_tables srv (srv'\<lparr>srv_channels := repo\<rparr>) = same_tables srv srv'"
  "same_tables srv (srv'\<lparr>srv_messages := msgs\<rparr>) = same_tables srv srv'"
  by (simp_all add: same_tables_def)

lemma delivery_frame [simp, frame_simps]:
  "writers (publisher_broadcastMemberJoined P c rs i n t) = writers t"
  "entries (publisher_broadcastMemberJoined P c rs i n t) = entries t"
  "writers (list_publishChannelCreated x l) = writers l"
  "entries (list_publishChannelCreated x l) = entries l"
  by (simp_all add: publisher_broadcastMemberJoined_def list_publishChannelCreated_def)

lemma same_tables_count_iff [simp]:
  "same_tables srv (publish_member_count c ch srv') = same_tables srv srv'"
  by (simp add: same_tables_def publish_member_count_def list_publishMemberCountChanged_def)

lemma same_tables_Leave [simp]: "same_tables srv (snd (LeaveChannel_execute P i c srv))"
proof (cases "clients_findById i (srv_clients srv)")
  case (Inr s)
  obtain res srv1 where "removeMemberAndBroadcast P s c srv = (res, srv1)" by fastforce
  moreover from this have "same_tables srv srv1"
    by (metis same_tables_remove snd_conv)
  ultimately show ?thesis
    using Inr by (cases "clients_leaveChannelAtomic i c (srv_clients srv1)")
      (auto simp: LeaveChannel_execute_def Let_def split: sum.splits)
qed (simp add: LeaveChannel_execute_def)

lemma same_tables_leave_each: "same_tables srv (snd (leave_each P s cs srv))"
proof (induction cs arbitrary: srv)
  case (Cons c cs)
  obtain res srv1 where rm: "removeMemberAndBroadcast P s c srv = (res, srv1)" by fastforce
  then have one: "same_tables srv srv1"
    by (metis same_tables_remove snd_conv)
  obtain left reg where lv: "clients_leaveChannelAtomic (sess_id s) c (srv_clients srv1) = (left, reg)" by fastforce
  have "same_tables srv (snd (leave_each P s cs srv2))" if "same_tables srv srv2" for srv2
    using that Cons.IH same_tables_trans by blast
  then show ?case
    using one rm lv by (auto simp: Let_def split: sum.splits)
qed simp

lemma same_tables_join_found: "same_tables srv (snd (join_found P i s ch c srv))"
proof -
  obtain res srv1 where lv: "leaveOtherChannels P s c srv = (res, srv1)" by fastforce
  then have one: "same_tables srv srv1"
    using same_tables_leave_each [of srv P s] by (metis leaveOtherChannels_def snd_conv)
  show ?thesis
    using lv one by (auto simp: join_found_def Let_def channels_save_def in_place_eq split: sum.splits)
      (simp add: same_tables_def)
qed

lemma same_tables_Join [simp]:
  "same_tables srv (snd (JoinChannel_execute P i c srv))"
  "same_tables srv (snd (JoinChannel_executeByName P i n srv))"
  using same_tables_join_found [of srv P i] by (auto simp: JoinChannel_execute_def JoinChannel_executeByName_def
      split: sum.splits option.splits prod.splits) (metis snd_conv)+

lemma same_tables_Create [simp]: "same_tables srv (snd (CreateChannel_execute P u t i n srv))"
  by (auto simp: CreateChannel_execute_def split: sum.splits option.splits prod.splits)
    (simp add: same_tables_def)

lemma same_tables_publish_each: "same_tables srv (publish_each P m rs srv') = same_tables srv srv'"
proof (induction rs arbitrary: srv')
  case (Cons r rs)
  have "same_tables srv (srv'\<lparr>srv_publisher := publisher_publish P (Some (srv_clients srv')) r m (srv_publisher srv')\<rparr>)
      = same_tables srv srv'"
    by (simp add: same_tables_def)
  then show ?case
    using Cons.IH by simp
qed simp

lemma same_tables_Send [simp]: "same_tables srv (snd (SendMessage_execute P u t i c text policy srv))"
  by (auto simp: SendMessage_execute_def same_tables_publish_each Let_def split: sum.splits prod.splits)

lemma same_tables_disconnect_loop: "same_tables srv (disconnect_loop P i cs srv)"
proof (induction cs arbitrary: srv)
  case (Cons c cs)
  show ?case
    using same_tables_trans [OF same_tables_Leave Cons.IH] by simp
qed simp

subsection \<open>The handlers keep the invariant\<close>

lemma parsed_key:
  assumes "uuid_contract P" and "strong_id_parse P str = Some (i :: client_id)"
  shows "client_key_ok P (id_value i)"
proof -
  obtain u where u: "uuid_from_string P str = Some u" "\<not> uuid_is_nil P u" "i = strong_id_generate P u"
    using assms(2) by (rule strong_id_parse_SomeE)
  then show ?thesis
    by (simp add: client_key_ok_def strong_id_generate_def strong_id_parse_uuid_text [OF assms(1)])
qed

lemma status_ok_code [simp]: "status_code status_ok = OK"
  by (simp add: status_ok_def)

lemma error_code [simp]: "status_code (errorToStatus e) \<noteq> OK"
  by (cases e) simp_all

lemma Connect_refines:
  assumes inv: "server_inv P srv" and fresh: "fresh_uuid P u srv"
  shows "server_inv P (snd (Connect P u t t' raw srv))"
    and "same_tables srv (snd (Connect P u t t' raw srv))"
    and "status_code (fst (fst (Connect P u t t' raw srv))) \<noteq> OK \<Longrightarrow> snd (Connect P u t t' raw srv) = srv"
    and "status_code (fst (fst (Connect P u t t' raw srv))) = OK \<longleftrightarrow>
      valid_username (trim raw) \<and> \<not> user_taken (Username (trim raw)) (abs_chat srv)"
    and "status_code (fst (fst (Connect P u t t' raw srv))) = OK \<Longrightarrow>
      snd (fst (Connect P u t t' raw srv)) = uuid_to_string P u \<and>
      abs_chat (snd (Connect P u t t' raw srv)) = snd (chat_enter (strong_id_generate P u) (Username (trim raw)) (abs_chat srv))"
proof -
  let ?run = "Connect P u t t' raw srv"
  have "server_inv P (snd ?run) \<and> same_tables srv (snd ?run) \<and>
      (status_code (fst (fst ?run)) \<noteq> OK \<longrightarrow> snd ?run = srv) \<and>
      (status_code (fst (fst ?run)) = OK \<longleftrightarrow>
        valid_username (trim raw) \<and> \<not> user_taken (Username (trim raw)) (abs_chat srv)) \<and>
      (status_code (fst (fst ?run)) = OK \<longrightarrow> snd (fst ?run) = uuid_to_string P u \<and>
        abs_chat (snd ?run) = snd (chat_enter (strong_id_generate P u) (Username (trim raw)) (abs_chat srv)))"
  proof (cases "Username_create (trim raw)")
    case None
    moreover have "\<not> valid_username (trim raw)"
      using None by (simp add: Username_create_None)
    ultimately show ?thesis
      using inv by (simp add: Connect_def)
  next
    case (Some n)
    then have n: "n = Username (trim raw)" "valid_username (trim raw)"
      by (simp_all add: Username_create_iff)
    obtain res reg where reg: "clients_registerClient P u t t' n (srv_clients srv) = (res, reg)"
      by fastforce
    have valid: "valid_username (username_value n)"
      using n by simp
    note all = register_refines [OF inv fresh valid reg]
    show ?thesis
    proof (cases res)
      case (Inl e)
      then have "user_taken n (abs_chat srv)"
        using all(2) by (simp add: chat_enter_def split: if_splits)
      then show ?thesis
        using Inl Some all(1,3) reg n(1) by (simp add: Connect_def)
    next
      case (Inr s)
      then have "\<not> user_taken n (abs_chat srv)" "sess_id s = strong_id_generate P u"
        using all(2) by (simp_all add: chat_enter_def split: if_splits)
      then show ?thesis
        using Inr Some all(1,2) reg n by (simp add: Connect_def chat_enter_def strong_id_generate_def)
    qed
  qed
  then show "server_inv P (snd ?run)" "same_tables srv (snd ?run)"
    "status_code (fst (fst ?run)) \<noteq> OK \<Longrightarrow> snd ?run = srv"
    "status_code (fst (fst ?run)) = OK \<longleftrightarrow>
      valid_username (trim raw) \<and> \<not> user_taken (Username (trim raw)) (abs_chat srv)"
    "status_code (fst (fst ?run)) = OK \<Longrightarrow> snd (fst ?run) = uuid_to_string P u \<and>
      abs_chat (snd ?run) = snd (chat_enter (strong_id_generate P u) (Username (trim raw)) (abs_chat srv))"
    by blast+
qed

text \<open>After the loop of \<open>Disconnect\<close> the client is in no channel.\<close>

lemma disconnect_loop_effect:
  assumes inv: "server_inv P srv" and s: "session_at (srv_clients srv) (id_value i) = Some s"
  defines "srv1 \<equiv> disconnect_loop P i (sess_joined s) srv"
  shows "server_inv P srv1" and "abs_chat srv1 = (abs_chat srv)\<lparr>place := (place (abs_chat srv))(i := None)\<rparr>"
proof -
  have same: "place_of (srv_clients srv) i = None \<Longrightarrow>
      abs_chat srv = (abs_chat srv)\<lparr>place := (place (abs_chat srv))(i := None)\<rparr>"
    by (rule chat_eqI) (simp_all add: fun_upd_idem)
  show "server_inv P srv1"
    using membership_joined [OF server_invD(6) [OF inv] s] inv LeaveChannel_refines(1) [OF inv]
    by (cases "place_of (srv_clients srv) i") (simp_all add: srv1_def)
  show "abs_chat srv1 = (abs_chat srv)\<lparr>place := (place (abs_chat srv))(i := None)\<rparr>"
  proof (cases "place_of (srv_clients srv) i")
    case None
    then show ?thesis
      using membership_joined [OF server_invD(6) [OF inv] s] same by (simp add: srv1_def)
  next
    case (Some c)
    have "room (abs_chat srv) c \<noteq> None"
      using membership_room [OF server_invD(6) [OF inv] Some] by auto
    then have "chat_leave i c (abs_chat srv) = (Inr (), (abs_chat srv)\<lparr>place := (place (abs_chat srv))(i := None)\<rparr>)"
      using Some s by (simp add: chat_leave_def)
    then have "abs_chat (snd (LeaveChannel_execute P i c srv)) =
        (abs_chat srv)\<lparr>place := (place (abs_chat srv))(i := None)\<rparr>"
      using LeaveChannel_refines(2) [OF inv, of i c] by (cases "LeaveChannel_execute P i c srv") simp
    then show ?thesis
      using membership_joined [OF server_invD(6) [OF inv] s] Some by (simp add: srv1_def)
  qed
qed

lemma Disconnect_refines:
  assumes inv: "server_inv P srv"
  shows "server_inv P (snd (Disconnect P raw srv))"
    and "Disconnect P raw srv = (errorToStatus ClientNotFound, srv) \<and>
        (\<forall>i. strong_id_parse P (trim raw) = Some i \<longrightarrow> user (abs_chat srv) i = None)
      \<or> (\<exists>i. strong_id_parse P (trim raw) = Some i \<and> user (abs_chat srv) i \<noteq> None \<and>
          fst (Disconnect P raw srv) = status_ok \<and>
          (Inr (), abs_chat (snd (Disconnect P raw srv))) = chat_quit i (abs_chat srv) \<and>
          (\<forall>k. live (srv_publisher (snd (Disconnect P raw srv))) k =
            (if k = id_value i then None else live (srv_publisher srv) k)) \<and>
          live (srv_list_publisher (snd (Disconnect P raw srv))) = live (srv_list_publisher srv))"
proof -
  let ?run = "Disconnect P raw srv"
  have "server_inv P (snd ?run) \<and>
     (?run = (errorToStatus ClientNotFound, srv) \<and>
        (\<forall>i. strong_id_parse P (trim raw) = Some i \<longrightarrow> user (abs_chat srv) i = None)
      \<or> (\<exists>i. strong_id_parse P (trim raw) = Some i \<and> user (abs_chat srv) i \<noteq> None \<and> fst ?run = status_ok \<and>
          (Inr (), abs_chat (snd ?run)) = chat_quit i (abs_chat srv) \<and>
          (\<forall>k. live (srv_publisher (snd ?run)) k = (if k = id_value i then None else live (srv_publisher srv) k)) \<and>
          live (srv_list_publisher (snd ?run)) = live (srv_list_publisher srv)))"
  proof (cases "strong_id_parse P (trim raw) :: client_id option")
    case None
    then show ?thesis using inv by (simp add: Disconnect_def)
  next
    case (Some i)
    show ?thesis
    proof (cases "session_at (srv_clients srv) (id_value i)")
      case None
      then show ?thesis
        using Some inv by (simp add: Disconnect_def clients_findById_eq)
    next
      case s: (Some s)
      define srv1 where "srv1 = disconnect_loop P i (sess_joined s) srv"
      note loop = disconnect_loop_effect [OF inv s, folded srv1_def]
      have tables: "same_tables srv srv1"
        unfolding srv1_def by (rule same_tables_disconnect_loop)
      have "user (abs_chat srv1) i \<noteq> None" "place (abs_chat srv1) i = None"
        using s loop(2) by (simp_all del: abs_chat_sel(3))
      then obtain s1 where s1: "session_at (srv_clients srv1) (id_value i) = Some s1"
        and place: "place_of (srv_clients srv1) i = None" by auto
      define T where "T = publisher_unregisterSubscriber i (srv_publisher srv1)"
      define srv2 where "srv2 = srv1\<lparr>srv_clients := snd (clients_remove i (srv_clients srv1)),
          srv_publisher := T, srv_list_publisher := srv_list_publisher srv1\<rparr>"
      have run: "?run = (status_ok, srv2)"
        using Some s clients_remove_present [OF s1]
        by (cases "clients_remove i (srv_clients srv1)")
          (simp add: Disconnect_def clients_findById_eq Let_def T_def srv2_def flip: srv1_def)
      have T: "table_wf P T"
        unfolding T_def by (rule channel_pub.wf_unregister [OF server_invD(1) [OF loop(1)]])
      note removed = remove_effect [OF loop(1) place T server_invD(2) [OF loop(1)] srv2_def]
      have "(Inr (), abs_chat srv2) = chat_quit i (abs_chat srv)"
        using s by (simp add: chat_quit_def removed(2) loop(2) del: abs_chat_sel(3))
      moreover have "live T k = (if k = id_value i then None else live (srv_publisher srv) k)" for k
        using channel_pub.live_unregister [OF server_invD(1) [OF loop(1)], of i k] same_tables_live(1) [OF tables]
        by (simp add: T_def)
      ultimately show ?thesis
        using Some s removed(1) same_tables_live(2) [OF tables] unfolding run by (simp add: srv2_def)
    qed
  qed
  then show "server_inv P (snd ?run)"
    and "?run = (errorToStatus ClientNotFound, srv) \<and>
        (\<forall>i. strong_id_parse P (trim raw) = Some i \<longrightarrow> user (abs_chat srv) i = None)
      \<or> (\<exists>i. strong_id_parse P (trim raw) = Some i \<and> user (abs_chat srv) i \<noteq> None \<and> fst ?run = status_ok \<and>
          (Inr (), abs_chat (snd ?run)) = chat_quit i (abs_chat srv) \<and>
          (\<forall>k. live (srv_publisher (snd ?run)) k = (if k = id_value i then None else live (srv_publisher srv) k)) \<and>
          live (srv_list_publisher (snd ?run)) = live (srv_list_publisher srv))"
    by blast+
qed

text \<open>The handlers that only pass on to a use case.\<close>

definition keeps :: "'u platform \<Rightarrow> server \<Rightarrow> grpc_status \<Rightarrow> server \<Rightarrow> bool" where
  "keeps P srv status srv' \<longleftrightarrow> server_inv P srv' \<and> same_tables srv srv' \<and> (status_code status \<noteq> OK \<longrightarrow> srv' = srv)"

lemma keeps_refl: "server_inv P srv \<Longrightarrow> keeps P srv status srv"
  by (simp add: keeps_def)

lemma CreateChannel_keeps:
  assumes inv: "server_inv P srv" and fresh: "fresh_uuid P u srv"
  shows "keeps P srv (fst (fst (CreateChannel P u t ci n srv))) (snd (CreateChannel P u t ci n srv))"
proof (cases "strong_id_parse P (trim ci) :: client_id option")
  case (Some i)
  obtain res srv' where run: "CreateChannel_execute P u t i (trim n) srv = (res, srv')" by fastforce
  have "server_inv P srv'" "same_tables srv srv'" "\<And>e. res = Inl e \<Longrightarrow> srv' = srv"
    using CreateChannel_refines(1,3) [OF inv fresh, of t i "trim n"] same_tables_Create [of srv P u t i "trim n"]
    by (simp_all add: run)
  then show ?thesis
    using Some run by (cases res) (simp_all add: CreateChannel_def keeps_def)
qed (simp add: CreateChannel_def keeps_refl inv)

lemma SendMessage_keeps:
  assumes inv: "server_inv P srv" and fresh: "fresh_uuid P u srv"
  shows "keeps P srv (fst (fst (SendMessage P u t ci ch text srv))) (snd (SendMessage P u t ci ch text srv))"
proof (cases "(strong_id_parse P (trim ci) :: client_id option, strong_id_parse P (trim ch) :: channel_id option)")
  case (Pair a b)
  show ?thesis
  proof (cases "a = None \<or> b = None")
    case True
    with Pair show ?thesis by (cases a) (simp_all add: SendMessage_def keeps_refl inv)
  next
    case False
    then obtain i c where ic: "a = Some i" "b = Some c" by auto
    obtain res srv' where run: "SendMessage_execute P u t i c (trim text) IncludeSender srv = (res, srv')" by fastforce
    have "server_inv P srv'" "same_tables srv srv'" "\<And>e. res = Inl e \<Longrightarrow> srv' = srv"
      using SendMessage_refines(1,3) [OF inv fresh, of t i c "trim text" IncludeSender]
        same_tables_Send [of srv P u t i c "trim text" IncludeSender]
      by (simp_all add: run)
    then show ?thesis
      using Pair ic run by (cases res) (simp_all add: SendMessage_def keeps_def)
  qed
qed

lemma JoinChannel_keeps:
  assumes inv: "server_inv P srv"
  shows "keeps P srv (fst (JoinChannel P ci ch srv)) (snd (JoinChannel P ci ch srv))"
proof (cases "strong_id_parse P (trim ci) :: client_id option")
  case i: (Some i)
  show ?thesis
  proof (cases "strong_id_parse P (trim ch) :: channel_id option")
    case (Some c)
    obtain res srv' where run: "JoinChannel_execute P i c srv = (res, srv')" by fastforce
    have "server_inv P srv'" "same_tables srv srv'" "\<And>e. res = Inl e \<Longrightarrow> srv' = srv"
      using JoinChannel_refines(1,3) [OF inv, of i c] same_tables_Join(1) [of srv P i c] by (auto simp: run)
    then show ?thesis
      using i Some run by (cases res) (simp_all add: JoinChannel_def keeps_def)
  next
    case None
    obtain res srv' where run: "JoinChannel_executeByName P i (trim ch) srv = (res, srv')" by fastforce
    have "server_inv P srv'" "same_tables srv srv'" "\<And>e. res = Inl e \<Longrightarrow> srv' = srv"
      using JoinByName_refines [OF inv, of i "trim ch"] same_tables_Join(2) [of srv P i "trim ch"] by (auto simp: run)
    then show ?thesis
      using i None run by (cases res) (simp_all add: JoinChannel_def keeps_def)
  qed
qed (simp add: JoinChannel_def keeps_refl inv)

lemma LeaveChannel_keeps:
  assumes inv: "server_inv P srv"
  shows "keeps P srv (fst (LeaveChannel P ci ch srv)) (snd (LeaveChannel P ci ch srv))"
proof (cases "(strong_id_parse P (trim ci) :: client_id option, strong_id_parse P (trim ch) :: channel_id option)")
  case (Pair a b)
  show ?thesis
  proof (cases "a = None \<or> b = None")
    case True
    with Pair show ?thesis by (cases a) (simp_all add: LeaveChannel_def keeps_refl inv)
  next
    case False
    then obtain i c where ic: "a = Some i" "b = Some c" by auto
    obtain res srv' where run: "LeaveChannel_execute P i c srv = (res, srv')" by fastforce
    have "server_inv P srv'" "same_tables srv srv'" "\<And>e. res = Inl e \<Longrightarrow> srv' = srv"
      using LeaveChannel_refines(1,3) [OF inv, of i c] same_tables_Leave [of srv P i c] by (auto simp: run)
    then show ?thesis
      using Pair ic run by (cases res) (simp_all add: LeaveChannel_def keeps_def)
  qed
qed

lemma Heartbeat_keeps:
  assumes inv: "server_inv P srv"
  shows "keeps P srv (fst (Heartbeat P t ci srv)) (snd (Heartbeat P t ci srv))"
proof (cases "strong_id_parse P (trim ci) :: client_id option")
  case (Some i)
  obtain res reg where touch: "clients_touchHeartbeat t i (srv_clients srv) = (res, reg)" by fastforce
  then have "\<And>e. res = Inl e \<Longrightarrow> reg = srv_clients srv"
    by (auto simp: in_place_eq split: if_splits)
  then show ?thesis
    using Some touch heartbeat_refines(1) [OF inv touch] by (cases res) (simp_all add: Heartbeat_def keeps_def)
qed (simp add: Heartbeat_def keeps_refl inv)

lemma Connect_keeps:
  assumes inv: "server_inv P srv" and fresh: "fresh_uuid P u srv"
  shows "keeps P srv (fst (fst (Connect P u t t' raw srv))) (snd (Connect P u t t' raw srv))"
  using Connect_refines(1-3) [OF assms] by (simp add: keeps_def)

subsection \<open>Streams\<close>

lemma subscribe_result:
  "SubscribeToChannel_execute i c srv =
     (case channel_at (srv_channels srv) (id_value c) of
        None \<Rightarrow> Inl ChannelNotFound | Some ch \<Rightarrow> if hasMember i ch then Inr () else Inl NotAMember)"
  by (simp add: SubscribeToChannel_execute_def channels_findById_eq split: option.splits)

lemma subscribe_open_effect:
  assumes contract: "uuid_contract P" and inv: "server_inv P srv"
    and parsed: "strong_id_parse P (trim ci) = Some i"
    and run: "SubscribeToChannel_open P ci ch w srv = (None, srv')"
  shows "server_inv P srv'"
    and "live (srv_publisher srv') k = (if k = id_value i then Some w else live (srv_publisher srv) k)"
    and "srv_list_publisher srv' = srv_list_publisher srv" and "abs_chat srv' = abs_chat srv"
    and "place (abs_chat srv) i \<noteq> None"
proof -
  let ?T = "publisher_registerSubscriber i (Some w) (srv_publisher srv)"
  obtain c where c: "strong_id_parse P (trim ch) = Some c"
    and srv': "srv' = srv\<lparr>srv_publisher := ?T\<rparr>" and ok: "SubscribeToChannel_execute i c srv' = Inr ()"
    using run parsed by (auto simp: SubscribeToChannel_open_def Let_def split: option.splits sum.splits)
  have T: "table_wf P ?T"
    by (rule channel_pub.wf_register [OF server_invD(1) [OF inv] parsed_key [OF contract parsed]])
  show "server_inv P srv'" "abs_chat srv' = abs_chat srv"
    using publisher_effect [OF inv T] by (simp_all add: srv')
  show "live (srv_publisher srv') k = (if k = id_value i then Some w else live (srv_publisher srv) k)"
    using channel_pub.live_register [OF server_invD(1) [OF inv]] by (simp add: srv')
  show "srv_list_publisher srv' = srv_list_publisher srv"
    by (simp add: srv')
  have "\<exists>x. channel_at (srv_channels srv) (id_value c) = Some x \<and> hasMember i x"
    using ok by (auto simp: subscribe_result srv' split: option.splits if_splits)
  then show "place (abs_chat srv) i \<noteq> None"
    using membership_members [OF server_invD(6) [OF inv]] by fastforce
qed

text \<open>
  A rejected subscription leaves no writer behind, but it has registered and unregistered one: the
  client's older stream is disarmed on the way.
\<close>

lemma subscribe_rejected_effect:
  assumes contract: "uuid_contract P" and inv: "server_inv P srv"
    and run: "SubscribeToChannel_open P ci ch w srv = (Some status, srv')"
  shows "server_inv P srv'" and "abs_chat srv' = abs_chat srv"
    and "srv_list_publisher srv' = srv_list_publisher srv"
    and "live (srv_publisher srv') k =
      (if \<exists>i c. strong_id_parse P (trim ci) = Some i \<and> strong_id_parse P (trim ch) = Some (c :: channel_id) \<and>
          k = id_value (i :: client_id)
       then None else live (srv_publisher srv) k)"
    and "status_code status \<noteq> OK"
proof -
  have main: "server_inv P srv' \<and> abs_chat srv' = abs_chat srv \<and> srv_list_publisher srv' = srv_list_publisher srv \<and>
      live (srv_publisher srv') k =
      (if \<exists>i c. strong_id_parse P (trim ci) = Some i \<and> strong_id_parse P (trim ch) = Some (c :: channel_id) \<and>
          k = id_value (i :: client_id)
       then None else live (srv_publisher srv) k) \<and> status_code status \<noteq> OK"
  proof (cases "strong_id_parse P (trim ci) :: client_id option")
    case None
    then show ?thesis using run inv by (auto simp: SubscribeToChannel_open_def)
  next
    case i: (Some i)
    show ?thesis
    proof (cases "strong_id_parse P (trim ch) :: channel_id option")
      case None
      then show ?thesis using run inv i by (auto simp: SubscribeToChannel_open_def)
    next
      case c: (Some c)
      let ?T = "publisher_registerSubscriber i (Some w) (srv_publisher srv)"
      let ?U = "publisher_unregisterSubscriber i ?T"
      have srv': "srv' = srv\<lparr>srv_publisher := ?U\<rparr>" and "status_code status \<noteq> OK"
        using run i c by (auto simp: SubscribeToChannel_open_def Let_def split: sum.splits)
      moreover have T: "table_wf P ?T"
        by (rule channel_pub.wf_register [OF server_invD(1) [OF inv] parsed_key [OF contract i]])
      moreover have "table_wf P ?U"
        by (rule channel_pub.wf_unregister [OF T])
      moreover have "live ?U k = (if k = id_value i then None else live (srv_publisher srv) k)"
        using channel_pub.live_unregister [OF T, of i k]
          channel_pub.live_register [OF server_invD(1) [OF inv], of i "Some w" k] by simp
      ultimately show ?thesis
        using publisher_effect [OF inv, of ?U] i c by simp
    qed
  qed
  then show "server_inv P srv'" "abs_chat srv' = abs_chat srv" "srv_list_publisher srv' = srv_list_publisher srv"
    "status_code status \<noteq> OK"
    by blast+
  show "live (srv_publisher srv') k =
      (if \<exists>i c. strong_id_parse P (trim ci) = Some i \<and> strong_id_parse P (trim ch) = Some (c :: channel_id) \<and>
          k = id_value (i :: client_id)
       then None else live (srv_publisher srv) k)"
    using main by (elim conjE)
qed

lemma close_effect:
  assumes inv: "server_inv P srv"
  shows "server_inv P (snd (SubscribeToChannel_close i srv))"
    and "live (srv_publisher (snd (SubscribeToChannel_close i srv))) k =
      (if k = id_value i then None else live (srv_publisher srv) k)"
    and "srv_list_publisher (snd (SubscribeToChannel_close i srv)) = srv_list_publisher srv"
    and "server_inv P (snd (SubscribeToChannelList_close i srv))"
    and "live (srv_list_publisher (snd (SubscribeToChannelList_close i srv))) k =
      (if k = id_value i then None else live (srv_list_publisher srv) k)"
    and "srv_publisher (snd (SubscribeToChannelList_close i srv)) = srv_publisher srv"
  using publisher_effect(1) [OF inv channel_pub.wf_unregister [OF server_invD(1) [OF inv]]]
    list_publisher_effect(1) [OF inv list_pub.wf_unregister [OF server_invD(2) [OF inv]]]
    channel_pub.live_unregister [OF server_invD(1) [OF inv]] list_pub.live_unregister [OF server_invD(2) [OF inv]]
  by (simp_all add: SubscribeToChannel_close_def SubscribeToChannelList_close_def)

lemma list_open_effect:
  assumes contract: "uuid_contract P" and inv: "server_inv P srv"
    and run: "SubscribeToChannelList_open P ci w srv = (res, srv')"
  shows "server_inv P srv'" and "srv_publisher srv' = srv_publisher srv"
    and "res = None \<Longrightarrow> strong_id_parse P (trim ci) = Some (i :: client_id) \<Longrightarrow>
      live (srv_list_publisher srv') k = (if k = id_value i then Some w else live (srv_list_publisher srv) k)"
    and "res \<noteq> None \<Longrightarrow> srv' = srv"
proof -
  have main: "server_inv P srv' \<and> srv_publisher srv' = srv_publisher srv \<and>
      (res = None \<longrightarrow> strong_id_parse P (trim ci) = Some i \<longrightarrow>
        live (srv_list_publisher srv') k = (if k = id_value i then Some w else live (srv_list_publisher srv) k)) \<and>
      (res \<noteq> None \<longrightarrow> srv' = srv)"
  proof (cases "strong_id_parse P (trim ci) :: client_id option")
    case None
    then show ?thesis using run inv by (auto simp: SubscribeToChannelList_open_def)
  next
    case j: (Some j)
    show ?thesis
    proof (cases "clients_findById j (srv_clients srv)")
      case (Inl e)
      then show ?thesis
        using run inv j by (auto simp: SubscribeToChannelList_open_def SubscribeToChannelList_execute_def)
    next
      case (Inr s)
      let ?L = "list_registerSubscriberWithSnapshot (srv_channels srv) j (Some w) (srv_list_publisher srv)"
      have srv': "res = None" "srv' = srv\<lparr>srv_list_publisher := ?L\<rparr>"
        using run Inr j by (auto simp: SubscribeToChannelList_open_def SubscribeToChannelList_execute_def)
      have "table_wf P ?L"
        by (rule list_pub.wf_register [OF server_invD(2) [OF inv] parsed_key [OF contract j]])
      from list_publisher_effect(1) [OF inv this] show ?thesis
        using j list_pub.live_register [OF server_invD(2) [OF inv]] by (simp add: srv')
    qed
  qed
  then show "server_inv P srv'" "srv_publisher srv' = srv_publisher srv" "res \<noteq> None \<Longrightarrow> srv' = srv"
    by blast+
  show "res = None \<Longrightarrow> strong_id_parse P (trim ci) = Some i \<Longrightarrow>
      live (srv_list_publisher srv') k = (if k = id_value i then Some w else live (srv_list_publisher srv) k)"
    using main by blast
qed

end
