(* ===== verification/Name_Records.thy ===== *)
theory Name_Records
  imports Usecase_Refinement
begin

text \<open>
  The registry keeps the name of every client it ever had (\<open>historical_usernames\<close>), so that messages
  of clients that left can still be shown with a name. No use case changes a recorded name.
\<close>

definition names :: "server \<Rightarrow> string \<Rightarrow> username option" where
  "names srv = username_history (srv_clients srv)"

lemma names_fields [simp]:
  "names (srv\<lparr>srv_channels := x\<rparr>) = names srv" "names (srv\<lparr>srv_messages := m\<rparr>) = names srv"
  "names (srv\<lparr>srv_publisher := t\<rparr>) = names srv" "names (srv\<lparr>srv_list_publisher := l\<rparr>) = names srv"
  "names (publish_member_count c ch srv) = names srv"
  "names (srv\<lparr>srv_clients := modify_session i f reg\<rparr>) = username_history reg"
  "names (srv\<lparr>srv_clients := snd (clients_remove i reg)\<rparr>) = username_history reg"
  by (simp_all add: names_def fun_eq_iff)

lemma names_left: "clients_leaveChannelAtomic i c reg = (r, reg') \<Longrightarrow> username_history reg' = username_history reg"
  and names_joined: "clients_joinChannelAtomic i c reg = (s, reg'') \<Longrightarrow> username_history reg'' = username_history reg"
  and names_touched: "clients_touchHeartbeat t i reg = (h, reg3) \<Longrightarrow> username_history reg3 = username_history reg"
  by (auto simp: in_place_eq split: option.splits if_splits)

lemma names_removed [simp]: "names (snd (removeMemberAndBroadcast P s c srv)) = names srv"
  by (simp add: removeMemberAndBroadcast_eq names_def Let_def split: option.splits)

lemma names_leave_step:
  assumes "removeMemberAndBroadcast P s c srv = (x, srv1)" and "clients_leaveChannelAtomic i d (srv_clients srv1) = (l, reg)"
  shows "names (srv1\<lparr>srv_clients := reg\<rparr>) = names srv" and "names srv1 = names srv"
proof -
  show srv1: "names srv1 = names srv"
    using names_removed [of P s c srv] assms(1) by simp
  show "names (srv1\<lparr>srv_clients := reg\<rparr>) = names srv"
    using names_left [OF assms(2)] srv1 by (simp add: names_def)
qed

lemma names_leave [simp]: "names (snd (LeaveChannel_execute P i c srv)) = names srv"
proof (cases "clients_findById i (srv_clients srv)")
  case (Inr s)
  obtain x srv1 where rm: "removeMemberAndBroadcast P s c srv = (x, srv1)" by fastforce
  obtain l reg where lv: "clients_leaveChannelAtomic i c (srv_clients srv1) = (l, reg)" by fastforce
  show ?thesis
    using names_leave_step [OF rm lv] by (simp add: LeaveChannel_execute_def Inr rm lv Let_def split: sum.splits)
qed (simp add: LeaveChannel_execute_def)

lemma names_leave_each [simp]: "names (snd (leave_each P s cs srv)) = names srv"
proof (induction cs arbitrary: srv)
  case (Cons c cs)
  obtain x srv1 where rm: "removeMemberAndBroadcast P s c srv = (x, srv1)" by fastforce
  obtain l reg where lv: "clients_leaveChannelAtomic (sess_id s) c (srv_clients srv1) = (l, reg)" by fastforce
  show ?case
    using names_leave_step [OF rm lv] Cons.IH by (simp add: rm lv Let_def split: sum.splits)
qed simp

lemma names_join_found [simp]: "names (snd (join_found P i s ch c srv)) = names srv"
proof -
  obtain r srv1 where lv: "leaveOtherChannels P s c srv = (r, srv1)" by fastforce
  then have "names srv1 = names srv"
    by (metis leaveOtherChannels_def names_leave_each snd_conv)
  moreover have "username_history reg = names srv1" if "clients_joinChannelAtomic i c (srv_clients srv1) = (x, reg)" for x reg
    using names_joined [OF that] by (simp add: names_def)
  ultimately show ?thesis
    by (auto simp: join_found_def lv Let_def names_def split: sum.splits prod.splits if_splits)
qed

lemma names_join [simp]:
  "names (snd (JoinChannel_execute P i c srv)) = names srv"
  "names (snd (JoinChannel_executeByName P i n srv)) = names srv"
proof -
  show "names (snd (JoinChannel_execute P i c srv)) = names srv"
    by (simp add: JoinChannel_execute_def split: sum.splits)
  have "names srv' = names srv" if "join_found P i s ch c srv = (x, srv')" for s ch c x srv'
    using names_join_found [of P i s ch c srv] that by simp
  then show "names (snd (JoinChannel_executeByName P i n srv)) = names srv"
    by (auto simp: JoinChannel_executeByName_def split: sum.splits option.splits prod.splits)
qed

lemma names_create [simp]: "names (snd (CreateChannel_execute P u t i n srv)) = names srv"
  by (auto simp: CreateChannel_execute_def split: sum.splits option.splits prod.splits)

lemma names_publish_each [simp]: "names (publish_each P m rs srv) = names srv"
  by (induction rs arbitrary: srv) simp_all

lemma names_send [simp]: "names (snd (SendMessage_execute P u t i c text policy srv)) = names srv"
  by (auto simp: SendMessage_execute_def Let_def split: sum.splits prod.splits)

lemma names_expire_channels [simp]: "names (expire_channels P s cs srv) = names srv"
  by (induction cs arbitrary: srv) simp_all

lemma names_expire_each [simp]: "names (snd (expire_each P ss n srv)) = names srv"
proof (induction ss arbitrary: n srv)
  case (Cons s ss)
  have "names (srv1\<lparr>srv_clients := snd (clients_remove (sess_id s) (srv_clients srv1)),
      srv_publisher := t\<rparr>) = names srv1" for srv1 :: server and t
    by (simp add: names_def fun_eq_iff)
  then show ?case
    using Cons.IH by (simp add: Let_def)
qed simp

lemma names_expire [simp]: "names (snd (ExpireInactiveClients_run P deadline srv)) = names srv"
  by (simp add: ExpireInactiveClients_run_def)

end
