(* ===== verification/Usecase_Properties.thy ===== *)
theory Usecase_Properties
  imports Name_Records
begin

text \<open>
  The properties of the use cases, stated against the chat specification, and a small server on
  which their hypotheses are tried out: one channel, one client in it.
\<close>

definition empty_server :: "32 word \<Rightarrow> server" where
  "empty_server history_cap =
     \<lparr>srv_channels = channels_empty, srv_clients = clients_empty, srv_messages = messages_init history_cap,
      srv_publisher = no_writers, srv_list_publisher = no_writers\<rparr>"

lemma empty_lookups [simp]:
  "channel_at channels_empty k = None" "channel_index channels_empty n = None"
  "session_at clients_empty k = None" "username_index clients_empty n = None" "username_history clients_empty k = None"
  "history (messages_init cap) k = []"
  by (simp_all add: channel_at_def channel_index_def channels_empty_def session_at_def username_index_def
      username_history_def clients_empty_def history_def messages_init_def)

lemma empty_server_inv: "server_inv P (empty_server cap)"
  by (rule server_invI) (simp_all add: empty_server_def membership_wf_def posts_wf_def place_of_def)

lemma empty_server_abs:
  "abs_chat (empty_server cap) =
     \<lparr>room = (\<lambda>c. None), user = (\<lambda>i. None), place = (\<lambda>i. None), posts = (\<lambda>c. [])\<rparr>"
  by (rule chat_eqI) (simp_all add: abs_chat_def empty_server_def place_of_def fun_eq_iff)

lemma empty_server_free: "channel_at (srv_channels (empty_server cap)) k = None"
  by (simp add: empty_server_def)

subsection \<open>The demonstration server\<close>

abbreviation demo_room :: channel_id where "demo_room \<equiv> StrongId (demo_text U1)"
abbreviation demo_alice :: client_id where "demo_alice \<equiv> StrongId (demo_text U2)"

definition demo_server0 :: server where
  "demo_server0 = (empty_server 2)\<lparr>srv_channels :=
     snd (channels_create demo_platform U1 0 (ChannelName ''general'') channels_empty)\<rparr>"

definition demo_server1 :: server where
  "demo_server1 = demo_server0\<lparr>srv_clients :=
     snd (clients_registerClient demo_platform U2 0 0 (Username ''alice'') clients_empty)\<rparr>"

definition demo_server :: server where
  "demo_server = snd (JoinChannel_execute demo_platform demo_alice demo_room demo_server1)"

lemma demo_generate [simp]: "strong_id_generate demo_platform u = StrongId (demo_text u)"
  by (simp add: strong_id_generate_def demo_platform_def)

lemma demo_to_string [simp]: "uuid_to_string demo_platform u = demo_text u"
  by (simp add: demo_platform_def)

lemma demo_nil [simp]: "uuid_is_nil demo_platform u \<longleftrightarrow> u = U0"
  by (simp add: demo_platform_def)

lemma demo_valid_names: "valid_channel_name ''general''" "valid_username ''alice''"
  by (simp_all add: valid_channel_name_def valid_username_def channel_name_allowed_char_def
      username_allowed_char_def is_alnum_def)

lemma demo_server0_inv:
  "server_inv demo_platform demo_server0"
  "abs_chat demo_server0 = (abs_chat (empty_server 2))\<lparr>room := [demo_room \<mapsto> ChannelName ''general'']\<rparr>"
proof -
  have free: "\<not> name_taken (ChannelName ''general'') (abs_chat (empty_server 2))"
    by (simp add: name_taken_def empty_server_abs del: abs_chat_sel)
  have eq: "demo_server0 = (empty_server 2)\<lparr>srv_channels := snd (channels_create demo_platform U1 0
      (ChannelName ''general'') (srv_channels (empty_server 2))), srv_list_publisher := no_writers\<rparr>"
    by (simp add: demo_server0_def empty_server_def)
  from create_effect [OF empty_server_inv empty_server_free _ free no_writers_simps(1) eq] demo_valid_names(1)
  show "server_inv demo_platform demo_server0"
    "abs_chat demo_server0 = (abs_chat (empty_server 2))\<lparr>room := [demo_room \<mapsto> ChannelName ''general'']\<rparr>"
    by (simp_all add: empty_server_abs)
qed

lemma demo_server1_inv:
  "server_inv demo_platform demo_server1"
  "abs_chat demo_server1 = (abs_chat demo_server0)\<lparr>user := [demo_alice \<mapsto> Username ''alice'']\<rparr>"
proof -
  have fresh: "fresh_uuid demo_platform U2 demo_server0"
    by (simp add: fresh_uuid_def demo_server0_def empty_server_def channel_at_create)
  have clients: "srv_clients demo_server0 = clients_empty"
    by (simp add: demo_server0_def empty_server_def)
  obtain res where reg: "clients_registerClient demo_platform U2 0 0 (Username ''alice'') (srv_clients demo_server0) =
      (res, srv_clients demo_server1)"
    unfolding demo_server1_def clients by (cases "clients_registerClient demo_platform U2 0 0 (Username ''alice'') clients_empty") simp
  have eq: "demo_server0\<lparr>srv_clients := srv_clients demo_server1\<rparr> = demo_server1"
    by (simp add: demo_server1_def)
  have valid: "valid_username (username_value (Username ''alice''))"
    using demo_valid_names(2) by simp
  have free: "\<not> user_taken (Username ''alice'') (abs_chat demo_server0)"
    by (simp add: user_taken_def clients)
  note registered = register_refines [OF demo_server0_inv(1) fresh valid reg, unfolded eq]
  show "server_inv demo_platform demo_server1"
    by (rule registered(1))
  have "user (abs_chat demo_server0) = (\<lambda>i. None)"
    by (simp add: demo_server0_inv(2) empty_server_abs del: abs_chat_sel)
  then show "abs_chat demo_server1 = (abs_chat demo_server0)\<lparr>user := [demo_alice \<mapsto> Username ''alice'']\<rparr>"
    using registered(2) free by (simp add: chat_enter_def)
qed

lemma demo_server_inv:
  "server_inv demo_platform demo_server"
  "abs_chat demo_server = \<lparr>room = [demo_room \<mapsto> ChannelName ''general''], user = [demo_alice \<mapsto> Username ''alice''],
     place = [demo_alice \<mapsto> demo_room], posts = (\<lambda>c. [])\<rparr>"
proof -
  note join = JoinChannel_refines [OF demo_server1_inv(1), of demo_alice demo_room, folded demo_server_def]
  show "server_inv demo_platform demo_server"
    by (rule join(1))
  have "abs_chat demo_server = snd (chat_join demo_alice demo_room (abs_chat demo_server1))"
    using arg_cong [OF join(2), where f = snd] by (simp add: demo_server_def del: abs_chat_sel)
  then show "abs_chat demo_server = \<lparr>room = [demo_room \<mapsto> ChannelName ''general''],
     user = [demo_alice \<mapsto> Username ''alice''], place = [demo_alice \<mapsto> demo_room], posts = (\<lambda>c. [])\<rparr>"
    by (simp add: chat_join_def demo_server1_inv(2) demo_server0_inv(2) empty_server_abs del: abs_chat_sel)
qed

lemma demo_names:
  "names demo_server0 = Map.empty" "names demo_server1 = [demo_text U2 \<mapsto> Username ''alice'']"
  "names demo_server = [demo_text U2 \<mapsto> Username ''alice'']"
proof -
  show "names demo_server0 = Map.empty"
    by (simp add: names_def demo_server0_def empty_server_def fun_eq_iff)
  show one: "names demo_server1 = [demo_text U2 \<mapsto> Username ''alice'']"
    by (simp add: names_def demo_server1_def fun_eq_iff username_history_register)
  show "names demo_server = [demo_text U2 \<mapsto> Username ''alice'']"
    by (simp add: demo_server_def one)
qed

lemma demo_server_fresh: "fresh_uuid demo_platform U3 demo_server"
proof -
  have "room (abs_chat demo_server) (StrongId (demo_text U3)) = None"
    "user (abs_chat demo_server) (StrongId (demo_text U3)) = None"
    "posts (abs_chat demo_server) (StrongId k) = []" for k
    by (simp_all add: demo_server_inv(2) del: abs_chat_sel)
  moreover have "username_history (srv_clients demo_server) (demo_text U3) = None"
    by (simp add: demo_names [unfolded names_def])
  ultimately show ?thesis
    by (simp add: fresh_uuid_def)
qed

subsection \<open>Properties\<close>

text \<open>
  C8: \<open>JoinChannel::execute\<close> implements joining in the chat specification: it fails exactly for
  unknown clients and unknown channels, and otherwise moves the client into the channel and out of
  every other one. The invariant (members and joined channels agree, one channel per client) is
  kept, and a failed call changes nothing.
\<close>

theorem JoinChannel_spec:
  assumes "server_inv P srv"
  shows "map_prod id abs_chat (JoinChannel_execute P i c srv) = chat_join i c (abs_chat srv) \<and>
     server_inv P (snd (JoinChannel_execute P i c srv)) \<and>
     (fst (JoinChannel_execute P i c srv) \<noteq> Inr () \<longrightarrow> snd (JoinChannel_execute P i c srv) = srv)"
  using JoinChannel_refines [OF assms] by blast

theorem JoinChannel_spec_witness:
  "place (abs_chat (snd (JoinChannel_execute demo_platform demo_alice demo_room demo_server1))) =
     [demo_alice \<mapsto> demo_room]"
proof -
  have "abs_chat (snd (JoinChannel_execute demo_platform demo_alice demo_room demo_server1)) =
      snd (chat_join demo_alice demo_room (abs_chat demo_server1))"
    using JoinChannel_spec [OF demo_server1_inv(1), of demo_alice demo_room] by (metis snd_map_prod)
  then show ?thesis
    by (simp add: chat_join_def demo_server1_inv(2) demo_server0_inv(2) empty_server_abs del: abs_chat_sel)
qed

text \<open>
  Joining by name succeeds exactly when the client is known and a channel has the trimmed
  name, moves the client into that channel and returns its identifier; otherwise it reports the
  first of unknown client, invalid name, no such channel, and changes nothing.
\<close>

theorem JoinChannel_executeByName_spec:
  assumes "server_inv P srv"
  shows "case JoinChannel_executeByName P i raw srv of
      (Inr c, srv') \<Rightarrow> server_inv P srv' \<and> room (abs_chat srv) c = Some (ChannelName (trim raw)) \<and>
        chat_join i c (abs_chat srv) = (Inr (), abs_chat srv')
    | (Inl e, srv') \<Rightarrow> srv' = srv \<and>
        e = (if user (abs_chat srv) i = None then ClientNotFound
             else if \<not> valid_channel_name (trim raw) then InvalidChannelName else ChannelNotFound) \<and>
        (e = ChannelNotFound \<longrightarrow> \<not> name_taken (ChannelName (trim raw)) (abs_chat srv))"
  using JoinByName_refines [OF assms, of i raw]
  by (cases "JoinChannel_executeByName P i raw srv"; cases "fst (JoinChannel_executeByName P i raw srv)")
    (simp_all del: abs_chat_sel)

theorem JoinChannel_executeByName_spec_witness:
  "JoinChannel_executeByName demo_platform demo_alice ''no channel'' demo_server =
     (Inl InvalidChannelName, demo_server)"
proof -
  have "user (abs_chat demo_server) demo_alice \<noteq> None"
    by (simp add: demo_server_inv(2) del: abs_chat_sel)
  moreover have "trim ''no channel'' = ''no channel''"
    by (simp add: trim_def trim_back.simps is_ascii_space_def)
  moreover have "\<not> valid_channel_name ''no channel''"
    by (simp add: valid_channel_name_def channel_name_allowed_char_def is_alnum_def)
  moreover have "\<forall>c. room (abs_chat demo_server) c \<noteq> Some (ChannelName ''no channel'')"
    by (simp add: demo_server_inv(2) del: abs_chat_sel)
  ultimately show ?thesis
    using JoinChannel_executeByName_spec [OF demo_server_inv(1), of demo_alice "''no channel''"]
    by (simp del: abs_chat_sel split: prod.splits sum.splits)
qed

text \<open>
  C26: \<open>LeaveChannel::execute\<close> implements leaving in the chat specification, with the errors in
  the order unknown client, unknown channel, not a member; a failed call changes nothing.
\<close>

theorem LeaveChannel_spec:
  assumes "server_inv P srv"
  shows "map_prod id abs_chat (LeaveChannel_execute P i c srv) = chat_leave i c (abs_chat srv) \<and>
     server_inv P (snd (LeaveChannel_execute P i c srv)) \<and>
     (fst (LeaveChannel_execute P i c srv) \<noteq> Inr () \<longrightarrow> snd (LeaveChannel_execute P i c srv) = srv)"
  using LeaveChannel_refines [OF assms] by blast

theorem LeaveChannel_spec_witness:
  "place (abs_chat (snd (LeaveChannel_execute demo_platform demo_alice demo_room demo_server))) = (\<lambda>i. None)"
proof -
  have "abs_chat (snd (LeaveChannel_execute demo_platform demo_alice demo_room demo_server)) =
      snd (chat_leave demo_alice demo_room (abs_chat demo_server))"
    using LeaveChannel_spec [OF demo_server_inv(1), of demo_alice demo_room] by (metis snd_map_prod)
  then show ?thesis
    by (simp add: chat_leave_def demo_server_inv(2) del: abs_chat_sel)
qed

text \<open>
  \<open>CreateChannel::execute\<close> with a fresh identifier adds a room under the trimmed name exactly
  when the client is known, the name is valid and no room has it; nobody is moved, and a failed
  call changes nothing.
\<close>

theorem CreateChannel_spec:
  assumes "server_inv P srv" and "fresh_uuid P u srv"
  shows "map_prod id abs_chat (CreateChannel_execute P u t i raw srv) =
      (if user (abs_chat srv) i = None then (Inl ClientNotFound, abs_chat srv)
       else if \<not> valid_channel_name (trim raw) then (Inl InvalidChannelName, abs_chat srv)
       else chat_create (strong_id_generate P u) (ChannelName (trim raw)) (abs_chat srv)) \<and>
     server_inv P (snd (CreateChannel_execute P u t i raw srv)) \<and>
     (\<forall>e. fst (CreateChannel_execute P u t i raw srv) = Inl e \<longrightarrow>
        snd (CreateChannel_execute P u t i raw srv) = srv)"
  using CreateChannel_refines [OF assms] by blast

theorem CreateChannel_spec_witness:
  "fst (CreateChannel_execute demo_platform U3 0 demo_alice '' general '' demo_server) = Inl ChannelAlreadyExists"
proof -
  have "trim '' general '' = ''general''"
    by (simp add: trim_def trim_back.simps is_ascii_space_def)
  moreover have "name_taken (ChannelName ''general'') (abs_chat demo_server)"
    by (auto simp: name_taken_def demo_server_inv(2) simp del: abs_chat_sel)
  ultimately show ?thesis
    using CreateChannel_spec [OF demo_server_inv(1) demo_server_fresh, of 0 demo_alice "'' general ''"]
      demo_valid_names(1)
    by (cases "CreateChannel_execute demo_platform U3 0 demo_alice '' general '' demo_server")
      (simp add: chat_create_def demo_server_inv(2) del: abs_chat_sel)
qed

definition audience :: "chat \<Rightarrow> channel_id \<Rightarrow> EchoPolicy \<Rightarrow> client_id \<Rightarrow> client_id set" where
  "audience ct c policy i = {j. place ct j = Some c \<and> (policy = ExcludeSender \<longrightarrow> j \<noteq> i)}"

lemma SendMessage_success:
  assumes "SendMessage_execute P u t i c raw policy srv = (Inr mid, srv')"
  obtains s ch v where "session_at (srv_clients srv) (id_value i) = Some s"
    "channel_at (srv_channels srv) (id_value c) = Some ch" "MessageContent_create raw = Inr v"
    "mid = strong_id_generate P u"
    "srv' = publish_each P (sent_message P u t i c v) (recipientsFor ch (sent_message P u t i c v) policy)
       (srv\<lparr>srv_messages := snd (messages_save (sent_message P u t i c v) (srv_messages srv))\<rparr>)"
  using assms
  by (auto simp: SendMessage_execute_def clients_findById_eq channels_findById_eq messages_save_def
      sent_message_def Let_def split: option.splits sum.splits if_splits)

lemma map_filter_targets:
  assumes "distinct rs"
  shows "set (List.map_filter f rs) = {w. \<exists>r\<in>set rs. f r = Some w}"
    and "length (List.map_filter f rs) = card {r\<in>set rs. f r \<noteq> None}"
proof -
  show "set (List.map_filter f rs) = {w. \<exists>r\<in>set rs. f r = Some w}"
    by (force simp: List.map_filter_def)
  have "distinct (filter (\<lambda>r. f r \<noteq> None) rs)" "set (filter (\<lambda>r. f r \<noteq> None) rs) = {r\<in>set rs. f r \<noteq> None}"
    using assms by simp_all
  from distinct_card [OF this(1), unfolded this(2)]
  show "length (List.map_filter f rs) = card {r\<in>set rs. f r \<noteq> None}"
    by (simp only: List.map_filter_def length_map)
qed

text \<open>
  C9: \<open>SendMessage::execute\<close> accepts exactly the valid messages of members, stores an accepted
  message at the end of the bounded history, and sends it, with the trimmed text and the sender's
  name, once to the live stream of each member (without the sender under \<open>ExcludeSender\<close>) and to
  nobody else; a rejected message changes nothing.
\<close>

theorem SendMessage_spec:
  assumes inv: "server_inv P srv" and fresh: "fresh_uuid P u srv"
  shows "map_prod id abs_chat (SendMessage_execute P u t i c raw policy srv) =
      chat_send P u t (unat (repo_cap (srv_messages srv))) i c raw (abs_chat srv) \<and>
     server_inv P (snd (SendMessage_execute P u t i c raw policy srv)) \<and>
     (case SendMessage_execute P u t i c raw policy srv of
        (Inl e, srv') \<Rightarrow> srv' = srv
      | (Inr mid, srv') \<Rightarrow> \<exists>ev ws name.
          written (srv_publisher srv') = written (srv_publisher srv) @ map (\<lambda>w. (w, MessageEv ev)) ws \<and>
          set ws = {w. \<exists>j\<in>audience (abs_chat srv) c policy i. live (srv_publisher srv) (id_value j) = Some w} \<and>
          length ws = card {j\<in>audience (abs_chat srv) c policy i. live (srv_publisher srv) (id_value j) \<noteq> None} \<and>
          user (abs_chat srv) i = Some name \<and> ev_message_id ev = id_value mid \<and>
          ev_content ev = trim raw \<and> ev_sender_name ev = username_value name \<and>
          ev_channel_id ev = id_value c \<and> ev_sender_id ev = id_value i)"
proof -
  let ?run = "SendMessage_execute P u t i c raw policy srv"
  have events: "\<exists>ev ws name.
          written (srv_publisher srv') = written (srv_publisher srv) @ map (\<lambda>w. (w, MessageEv ev)) ws \<and>
          set ws = {w. \<exists>j\<in>audience (abs_chat srv) c policy i. live (srv_publisher srv) (id_value j) = Some w} \<and>
          length ws = card {j\<in>audience (abs_chat srv) c policy i. live (srv_publisher srv) (id_value j) \<noteq> None} \<and>
          user (abs_chat srv) i = Some name \<and> ev_message_id ev = id_value mid \<and>
          ev_content ev = trim raw \<and> ev_sender_name ev = username_value name \<and>
          ev_channel_id ev = id_value c \<and> ev_sender_id ev = id_value i"
    if run: "?run = (Inr mid, srv')" for mid srv'
  proof -
    obtain s ch v where ok: "session_at (srv_clients srv) (id_value i) = Some s"
      "channel_at (srv_channels srv) (id_value c) = Some ch" "MessageContent_create raw = Inr v"
      "mid = strong_id_generate P u"
      "srv' = publish_each P (sent_message P u t i c v) (recipientsFor ch (sent_message P u t i c v) policy)
       (srv\<lparr>srv_messages := snd (messages_save (sent_message P u t i c v) (srv_messages srv))\<rparr>)"
      by (rule SendMessage_success [OF run])
    let ?rs = "recipientsFor ch (sent_message P u t i c v) policy"
    let ?f = "\<lambda>r. live (srv_publisher srv) (id_value r)"
    have "distinct (chan_members ch)"
      using channels_wf_entity [OF server_invD(3) [OF inv] ok(2)] by (simp add: channel_ok_def)
    then have "distinct ?rs"
      by (simp add: recipientsFor_def recipients_loop_filter)
    moreover have "set ?rs = audience (abs_chat srv) c policy i"
      using membership_members [OF server_invD(6) [OF inv] ok(2)]
      by (auto simp: recipientsFor_def recipients_loop_filter audience_def sent_message_def hasMember_def)
    moreover have "content_value v = trim raw"
      using ok(3) by (auto simp: MessageContent_create_def content_trim_eq Let_def split: if_splits)
    moreover have "username_history (srv_clients srv) (id_value i) = Some (sess_username s)"
      using clients_wf_history [OF server_invD(4) [OF inv] ok(1)] .
    ultimately show ?thesis
      using map_filter_targets [of ?rs ?f] ok(1)
      by (intro exI [of _ "\<lparr>ev_message_id = id_value mid, ev_channel_id = id_value c,
            ev_sender_id = id_value i, ev_sender_name = username_value (sess_username s),
            ev_content = trim raw, ev_sent_at_ms = to_epoch_ms P t\<rparr>"]
          exI [of _ "List.map_filter ?f ?rs"] exI [of _ "sess_username s"])
        (simp add: ok(4,5) written_publish_each message_to_event_def sent_message_def
          clients_lookupUsername_def username_history_def)
  qed
  have "case ?run of (Inl e, srv') \<Rightarrow> srv' = srv
      | (Inr mid, srv') \<Rightarrow> \<exists>ev ws name.
          written (srv_publisher srv') = written (srv_publisher srv) @ map (\<lambda>w. (w, MessageEv ev)) ws \<and>
          set ws = {w. \<exists>j\<in>audience (abs_chat srv) c policy i. live (srv_publisher srv) (id_value j) = Some w} \<and>
          length ws = card {j\<in>audience (abs_chat srv) c policy i. live (srv_publisher srv) (id_value j) \<noteq> None} \<and>
          user (abs_chat srv) i = Some name \<and> ev_message_id ev = id_value mid \<and>
          ev_content ev = trim raw \<and> ev_sender_name ev = username_value name \<and>
          ev_channel_id ev = id_value c \<and> ev_sender_id ev = id_value i"
    using events SendMessage_refines(3) [OF inv fresh, of t i c raw policy]
    by (cases ?run; cases "fst ?run") (simp_all del: abs_chat_sel)
  then show ?thesis
    using SendMessage_refines(1,2) [OF inv fresh] by blast
qed

theorem SendMessage_spec_witness:
  "map msg_content (posts (abs_chat (snd (SendMessage_execute demo_platform U3 0 demo_alice demo_room
     '' hello '' IncludeSender demo_server))) demo_room) = [MessageContent ''hello'']"
proof -
  have trims: "trim '' hello '' = ''hello''"
    by (simp add: trim_def trim_back.simps is_ascii_space_def)
  have create: "MessageContent_create '' hello '' = Inr (MessageContent ''hello'')"
    by (simp add: MessageContent_create_def content_trim_eq trims)
  have "repo_cap (srv_messages demo_server) \<noteq> 0"
    using server_invD(5) [OF demo_server_inv(1)] unfolding messages_wf_def by (rule conjunct1)
  then have "0 < unat (repo_cap (srv_messages demo_server))"
    by (simp only: unat_gt_0 simp_thms)
  then have cap: "Suc 0 - unat (repo_cap (srv_messages demo_server)) = 0"
    by simp
  have run: "map_prod id abs_chat (SendMessage_execute demo_platform U3 0 demo_alice demo_room '' hello ''
      IncludeSender demo_server) = chat_send demo_platform U3 0 (unat (repo_cap (srv_messages demo_server)))
      demo_alice demo_room '' hello '' (abs_chat demo_server)"
    by (rule SendMessage_spec [OF demo_server_inv(1) demo_server_fresh, THEN conjunct1])
  show ?thesis
    using arg_cong [OF run, where f = snd]
    by (simp add: chat_send_def demo_server_inv(2) create chat_post_def sent_message_def cap del: abs_chat_sel)
qed

lemma min_limit: "unat (min limit kServerMaxLimit) = min (unat limit) 200"
  by (simp add: kServerMaxLimit_def min_def word_le_nat_alt)



text \<open>
  C18: one expiry run ends exactly the sessions whose last heartbeat lies before the deadline: it
  counts them, takes them out of their channels, forgets them as users and disarms their event
  streams; every other client stays where it is with its stream. Subscriptions to the channel list
  are not touched.
\<close>

theorem ExpireInactiveClients_spec:
  assumes "server_inv P srv"
  shows "fst (ExpireInactiveClients_run P d srv) = card (expired_ids d (srv_clients srv)) \<and>
     server_inv P (snd (ExpireInactiveClients_run P d srv)) \<and>
     abs_chat (snd (ExpireInactiveClients_run P d srv)) =
       chat_expire (expired_ids d (srv_clients srv)) (abs_chat srv) \<and>
     (\<forall>i. live (srv_publisher (snd (ExpireInactiveClients_run P d srv))) (id_value i) =
       (if i \<in> expired_ids d (srv_clients srv) then None else live (srv_publisher srv) (id_value i))) \<and>
     srv_list_publisher (snd (ExpireInactiveClients_run P d srv)) = srv_list_publisher srv"
  using ExpireInactive_refines [OF assms refl] by blast

lemma demo_heartbeat:
  "\<exists>s. session_at (srv_clients demo_server) (id_value demo_alice) = Some s"
proof -
  have "user (abs_chat demo_server) demo_alice \<noteq> None"
    by (simp add: demo_server_inv(2) del: abs_chat_sel)
  then show ?thesis by auto
qed

theorem ExpireInactiveClients_spec_witness:
  "\<exists>d. user (abs_chat (snd (ExpireInactiveClients_run demo_platform d demo_server))) demo_alice = None"
proof -
  obtain s where s: "session_at (srv_clients demo_server) (id_value demo_alice) = Some s"
    using demo_heartbeat by blast
  have "isExpired (sess_last_heartbeat s + 1) s"
    by (simp add: isExpired_def)
  then have alice: "demo_alice \<in> expired_ids (sess_last_heartbeat s + 1) (srv_clients demo_server)"
    using s unfolding expired_ids_def by blast
  have "abs_chat (snd (ExpireInactiveClients_run demo_platform (sess_last_heartbeat s + 1) demo_server)) =
      chat_expire (expired_ids (sess_last_heartbeat s + 1) (srv_clients demo_server)) (abs_chat demo_server)"
    using ExpireInactiveClients_spec [OF demo_server_inv(1)] by blast
  then have "user (abs_chat (snd (ExpireInactiveClients_run demo_platform (sess_last_heartbeat s + 1) demo_server)))
      demo_alice = None"
    using alice by (simp only:) (simp add: chat_expire_def)
  then show ?thesis by blast
qed

end
