(* ===== verification/System_Invariant.thy ===== *)
theory System_Invariant
  imports Server_System Usecase_Properties
begin

text \<open>
  The invariant of the running server, proved for all reachable states through the locale of
  inductive invariants, and the properties of the service that rest on it.
\<close>

subsection \<open>The system invariant\<close>

definition live_are_open :: "(string \<Rightarrow> writer option) \<Rightarrow> (writer \<times> client_id) list \<Rightarrow> bool" where
  "live_are_open lv streams \<longleftrightarrow> (\<forall>k w. lv k = Some w \<longrightarrow> (w, StrongId k) \<in> set streams)"

definition sys_inv :: "'u platform \<Rightarrow> system \<Rightarrow> bool" where
  "sys_inv P s \<longleftrightarrow> uuid_contract P \<and> server_inv P (sys_server s) \<and>
     live_are_open (live (srv_publisher (sys_server s))) (sys_streams s) \<and>
     live_are_open (live (srv_list_publisher (sys_server s))) (sys_list_streams s) \<and>
     fst ` set (sys_streams s) \<subseteq> set (sys_writers s) \<and> fst ` set (sys_list_streams s) \<subseteq> set (sys_writers s) \<and>
     distinct (map fst (sys_streams s)) \<and> distinct (map fst (sys_list_streams s))"

lemma distinct_map_removeAll: "distinct (map f xs) \<Longrightarrow> distinct (map f (removeAll x xs))"
  by (simp add: distinct_map_filter removeAll_filter_not_eq)

lemma seed_general: "ChannelName_create ''general'' = Some (ChannelName ''general'')"
  using demo_valid_names(1) by (simp add: ChannelName_create_iff)

lemma initial_server_eq:
  "initial_server P u t cap = (empty_server cap)\<lparr>srv_channels :=
     snd (channels_create P u t (ChannelName ''general'') channels_empty), srv_list_publisher := no_writers\<rparr>"
  by (simp add: initial_server_def seed_channel_def seed_general empty_server_def)

lemma initial_server_inv:
  "server_inv P (initial_server P u t cap)"
  "abs_chat (initial_server P u t cap) =
     (abs_chat (empty_server cap))\<lparr>room := [strong_id_generate P u \<mapsto> ChannelName ''general'']\<rparr>"
proof -
  have free: "\<not> name_taken (ChannelName ''general'') (abs_chat (empty_server cap))"
    by (simp add: name_taken_def empty_server_abs del: abs_chat_sel)
  have eq: "initial_server P u t cap = (empty_server cap)\<lparr>srv_channels := snd (channels_create P u t
      (ChannelName ''general'') (srv_channels (empty_server cap))), srv_list_publisher := no_writers\<rparr>"
    by (simp add: initial_server_eq empty_server_def)
  from create_effect [OF empty_server_inv empty_server_free _ free no_writers_simps(1) eq] demo_valid_names(1)
  show "server_inv P (initial_server P u t cap)"
    "abs_chat (initial_server P u t cap) =
      (abs_chat (empty_server cap))\<lparr>room := [strong_id_generate P u \<mapsto> ChannelName ''general'']\<rparr>"
    by (simp_all add: empty_server_abs)
qed

lemma server_run_serving:
  "server_run P files u t a = Serving srv tls sweeper \<Longrightarrow> srv = initial_server P u t (arg_history_cap a)"
  by (auto simp: server_run_def Let_def split: if_splits sum.splits option.splits)

lemma sys_inv_start: "sys_start P s \<Longrightarrow> sys_inv P s"
  using initial_server_inv(1) by (auto simp: sys_start_def sys_inv_def live_are_open_def
      initial_server_def dest!: server_run_serving)

lemma sys_inv_keeps:
  assumes inv: "sys_inv P s" and keeps: "keeps P (sys_server s) status srv'"
  shows "sys_inv P (s\<lparr>sys_server := srv'\<rparr>)"
  using inv keeps same_tables_live [of "sys_server s" srv'] by (simp add: sys_inv_def keeps_def)

lemma sys_inv_step:
  assumes inv: "sys_inv P s" and step: "sys_step P s s'"
  shows "sys_inv P s'"
proof -
  have server: "server_inv P (sys_server s)" and contract: "uuid_contract P"
    using inv by (simp_all add: sys_inv_def)
  note open_streams = inv [unfolded sys_inv_def live_are_open_def]
  show ?thesis
    using step
  proof cases
    case (disconnect ci)
    have "live (srv_publisher (snd (Disconnect P ci (sys_server s)))) k = Some w \<Longrightarrow>
        live (srv_publisher (sys_server s)) k = Some w"
      and "live (srv_list_publisher (snd (Disconnect P ci (sys_server s)))) =
        live (srv_list_publisher (sys_server s))" for k w
      using Disconnect_refines(2) [OF server, of ci] by (auto, metis option.distinct(1))
    then show ?thesis
      using open_streams Disconnect_refines(1) [OF server, of ci]
      by (simp add: disconnect sys_inv_def live_are_open_def)
  next
    case (subscribe_open w ci i ch srv')
    from subscribe_open_effect(1-3) [OF contract server subscribe_open(3,4)] show ?thesis
      using open_streams subscribe_open(2) by (auto simp: subscribe_open(1) sys_inv_def live_are_open_def split: if_splits)
  next
    case (subscribe_rejected w ci ch status srv')
    from subscribe_rejected_effect(1,3,4) [OF contract server subscribe_rejected(3)] show ?thesis
      using open_streams by (auto simp: subscribe_rejected(1) sys_inv_def live_are_open_def split: if_splits)
  next
    case (subscribe_close w i)
    from close_effect(1-3) [OF server, of i] show ?thesis
      using open_streams by (auto simp: subscribe_close(1) sys_inv_def live_are_open_def distinct_map_removeAll
          split: if_splits)
  next
    case (list_open w ci i srv')
    from list_open_effect(1,2) [OF contract server list_open(4)] list_open_effect(3) [OF contract server list_open(4), of i] show ?thesis
      using open_streams list_open(2,3) by (auto simp: list_open(1) sys_inv_def live_are_open_def split: if_splits)
  next
    case (list_rejected w ci status srv')
    from list_open_effect(4) [OF contract server list_rejected(3)] show ?thesis
      using open_streams by (auto simp: list_rejected(1) sys_inv_def live_are_open_def)
  next
    case (list_close w i)
    from close_effect(4-6) [OF server, of i] show ?thesis
      using open_streams by (auto simp: list_close(1) sys_inv_def live_are_open_def distinct_map_removeAll
          split: if_splits)
  next
    case (sweep_pass now timeout)
    let ?d = "now - timeout"
    note run = ExpireInactive_refines [OF server refl, of ?d]
    have "live (srv_publisher (snd (ExpireInactiveClients_run P ?d (sys_server s)))) k = Some w \<Longrightarrow>
        live (srv_publisher (sys_server s)) k = Some w" for k w
      using run(4) [of "StrongId k"] by (simp split: if_splits)
    then show ?thesis
      using open_streams run(2,5) by (simp add: sweep_pass(1) sweep_def Let_def sys_inv_def live_are_open_def)
  next
    case (reorder srv')
    have "live (srv_publisher srv') = live (srv_publisher (sys_server s))"
      "live (srv_list_publisher srv') = live (srv_list_publisher (sys_server s))"
      using table_perm(2) server_invD(1,2) [OF server] server_permD [OF reorder(2)] by blast+
    then show ?thesis
      using open_streams perm_effect(1) [OF server reorder(2)] by (simp add: reorder(1) sys_inv_def live_are_open_def)
  qed (use inv server in \<open>auto intro: sys_inv_keeps Connect_keeps CreateChannel_keeps JoinChannel_keeps
      LeaveChannel_keeps SendMessage_keeps Heartbeat_keeps\<close>)
qed

interpretation server_system: invariant_system "sys_start P" "sys_step P" "sys_inv P"
  for P :: "'u platform"
  by unfold_locales (auto intro: sys_inv_start sys_inv_step)

subsection \<open>A reachable state with a member\<close>

lemma demo_trim [simp]: "trim (demo_text u) = demo_text u"
  using trim_uuid_text [OF demo_contract, of u] by simp

definition demo_args :: server_args where
  "demo_args = default_args\<lparr>arg_insecure := True, arg_history_cap := 2\<rparr>"

definition demo_system :: "server \<Rightarrow> system" where
  "demo_system srv = \<lparr>sys_server = srv, sys_streams = [], sys_list_streams = [], sys_writers = []\<rparr>"

lemma demo_started: "server_run demo_platform Some U1 0 demo_args = Serving demo_server0 None (Some (5, 90))"
proof -
  have "initial_server demo_platform U1 0 2 = demo_server0"
    by (simp add: initial_server_eq demo_server0_def empty_server_def)
  then show ?thesis
    by (simp add: server_run_def demo_args_def default_args_def)
qed

lemma demo_fresh1: "fresh_uuid demo_platform U2 demo_server0"
  by (simp add: fresh_uuid_def demo_server0_def empty_server_def channel_at_create)

lemma demo_connected: "snd (Connect demo_platform U2 0 0 ''alice'' demo_server0) = demo_server1"
proof -
  have "trim ''alice'' = ''alice''"
    by (simp add: trim_def trim_back.simps is_ascii_space_def)
  moreover have "Username_create ''alice'' = Some (Username ''alice'')"
    using demo_valid_names(2) by (simp add: Username_create_iff)
  moreover have "srv_clients demo_server0 = clients_empty"
    by (simp add: demo_server0_def empty_server_def)
  ultimately show ?thesis
    by (cases "clients_registerClient demo_platform U2 0 0 (Username ''alice'') clients_empty")
      (auto simp: Connect_def demo_server1_def split: sum.splits)
qed

lemma demo_joined: "snd (JoinChannel demo_platform (demo_text U2) (demo_text U1) demo_server1) = demo_server"
  by (cases "JoinChannel_execute demo_platform demo_alice demo_room demo_server1")
    (auto simp: JoinChannel_def demo_server_def split: sum.splits)

lemma demo_reachable1: "reaches (sys_start demo_platform) (sys_step demo_platform) (demo_system demo_server1)"
proof -
  let ?R = "reaches (sys_start demo_platform) (sys_step demo_platform)"
  have "sys_start demo_platform (demo_system demo_server0)"
    using demo_started demo_contract unfolding sys_start_def demo_system_def by (simp, blast)
  then have "?R (demo_system demo_server0)"
    by (rule reaches_start)
  moreover have "sys_step demo_platform (demo_system demo_server0) (demo_system demo_server1)"
    using connect [of demo_platform U2 "demo_system demo_server0" 0 0 "''alice''"] demo_fresh1 demo_connected
    by (simp add: demo_system_def)
  ultimately show ?thesis
    by (blast intro: reaches_step)
qed

lemma demo_join_step: "sys_step demo_platform (demo_system demo_server1) (demo_system demo_server)"
  using join_channel [of demo_platform "demo_system demo_server1" "demo_text U2" "demo_text U1"] demo_joined
  by (simp add: demo_system_def)

lemma demo_reachable: "reaches (sys_start demo_platform) (sys_step demo_platform) (demo_system demo_server)"
  using demo_reachable1 demo_join_step by (rule reaches_step)

subsection \<open>Properties\<close>

lemma inv_members:
  assumes inv: "server_inv P srv" and ch: "channels_findById c (srv_channels srv) = Inr ch"
  shows "hasMember i ch \<longleftrightarrow> (\<exists>x. clients_findById i (srv_clients srv) = Inr x \<and> isInChannel c x)"
proof -
  have "hasMember i ch \<longleftrightarrow> place_of (srv_clients srv) i = Some c"
    using membership_members [OF server_invD(6) [OF inv]] ch by (simp add: channels_findById_Inr)
  moreover have "isInChannel c x \<longleftrightarrow> place_of (srv_clients srv) i = Some c"
    if "session_at (srv_clients srv) (id_value i) = Some x" for x
    using membership_joined [OF server_invD(6) [OF inv] that] by (auto simp: isInChannel_def split: option.splits)
  ultimately show ?thesis
    using place_of_session by (fastforce simp: clients_findById_Inr)
qed

lemma inv_names:
  assumes inv: "server_inv P srv"
  shows "room (abs_chat srv) c = Some n \<Longrightarrow> room (abs_chat srv) d = Some n \<Longrightarrow> c = d"
    and "user (abs_chat srv) i = Some u \<Longrightarrow> user (abs_chat srv) j = Some u \<Longrightarrow> i = j"
  using channel_index_injective [OF server_invD(3) [OF inv], of "id_value c" _ "id_value d"]
    client_store.label_unique [OF server_invD(4) [OF inv], of "id_value i" _ "id_value j"]
  by (auto simp: strong_id_eq_iff)

lemma inv_posts:
  assumes inv: "server_inv P srv" and m: "m \<in> set (posts (abs_chat srv) c)"
  shows "room (abs_chat srv) c \<noteq> None" and "msg_channel_id m = c"
    and "\<exists>n. clients_lookupUsername (msg_sender_id m) (srv_clients srv) = Inr n"
proof -
  have "channel_at (srv_channels srv) (id_value c) \<noteq> None"
    and name: "username_history (srv_clients srv) (id_value (msg_sender_id m)) \<noteq> None"
    using m server_invD(7) [OF inv] by (simp_all add: posts_wf_def)
  then show "room (abs_chat srv) c \<noteq> None" by simp
  show "msg_channel_id m = c"
    using m messages_wf_history(2) [OF server_invD(5) [OF inv], of m "id_value c"] by (simp add: strong_id_eq_iff)
  show "\<exists>n. clients_lookupUsername (msg_sender_id m) (srv_clients srv) = Inr n"
    using name by (auto simp: clients_lookupUsername_def username_history_def)
qed



text \<open>
  C7: a call that fails leaves the server exactly as it was: whenever one of the unary procedures
  answers with a status other than OK, no repository, registry, history or stream table changed.
\<close>

theorem failed_calls_change_nothing:
  assumes inv: "server_inv P srv" and fresh: "fresh_uuid P u srv"
  shows "(status_code (fst (fst (Connect P u t t' name srv))) \<noteq> OK \<longrightarrow> snd (Connect P u t t' name srv) = srv) \<and>
    (status_code (fst (Disconnect P ci srv)) \<noteq> OK \<longrightarrow> snd (Disconnect P ci srv) = srv) \<and>
    (status_code (fst (fst (CreateChannel P u t ci name srv))) \<noteq> OK \<longrightarrow> snd (CreateChannel P u t ci name srv) = srv) \<and>
    (status_code (fst (JoinChannel P ci ch srv)) \<noteq> OK \<longrightarrow> snd (JoinChannel P ci ch srv) = srv) \<and>
    (status_code (fst (LeaveChannel P ci ch srv)) \<noteq> OK \<longrightarrow> snd (LeaveChannel P ci ch srv) = srv) \<and>
    (status_code (fst (fst (SendMessage P u t ci ch text srv))) \<noteq> OK \<longrightarrow> snd (SendMessage P u t ci ch text srv) = srv) \<and>
    (status_code (fst (Heartbeat P t' ci srv)) \<noteq> OK \<longrightarrow> snd (Heartbeat P t' ci srv) = srv)"
proof -
  have "status_code (fst (Disconnect P ci srv)) \<noteq> OK \<longrightarrow> snd (Disconnect P ci srv) = srv"
    using Disconnect_refines(2) [OF inv, of ci] by auto
  then show ?thesis
    using Connect_keeps [OF assms] CreateChannel_keeps [OF assms] JoinChannel_keeps [OF inv]
      LeaveChannel_keeps [OF inv] SendMessage_keeps [OF assms] Heartbeat_keeps [OF inv]
    unfolding keeps_def by blast
qed

theorem failed_calls_change_nothing_witness:
  "snd (JoinChannel demo_platform ''nobody'' (demo_text U1) demo_server) = demo_server"
proof -
  have "trim ''nobody'' = ''nobody''"
    by (simp add: trim_def trim_back.simps is_ascii_space_def)
  moreover have "(strong_id_parse demo_platform ''nobody'' :: client_id option) = None"
    by (simp add: strong_id_parse_def demo_platform_def demo_text.simps)
  ultimately have "status_code (fst (JoinChannel demo_platform ''nobody'' (demo_text U1) demo_server)) \<noteq> OK"
    by (simp add: JoinChannel_def)
  then show ?thesis
    using failed_calls_change_nothing [OF demo_server_inv(1) demo_server_fresh] by blast
qed

text \<open>
  \<open>Connect\<close> succeeds exactly when the trimmed name is a valid username that no connected client
  has; it then returns the new identifier and adds the user, in no channel.
\<close>

theorem Connect_spec:
  assumes "server_inv P srv" and "fresh_uuid P u srv"
  shows "(status_code (fst (fst (Connect P u t t' raw srv))) = OK \<longleftrightarrow>
      valid_username (trim raw) \<and> \<not> user_taken (Username (trim raw)) (abs_chat srv)) \<and>
    (status_code (fst (fst (Connect P u t t' raw srv))) = OK \<longrightarrow>
      snd (fst (Connect P u t t' raw srv)) = uuid_to_string P u \<and>
      abs_chat (snd (Connect P u t t' raw srv)) =
        (abs_chat srv)\<lparr>user := (user (abs_chat srv))(strong_id_generate P u \<mapsto> Username (trim raw))\<rparr>)"
  using Connect_refines(4,5) [OF assms, of t t' raw] by (auto simp: chat_enter_def simp del: abs_chat_sel)

theorem Connect_spec_witness:
  "status_code (fst (fst (Connect demo_platform U3 0 0 ''alice'' demo_server))) \<noteq> OK"
proof -
  have "trim ''alice'' = ''alice''"
    by (simp add: trim_def trim_back.simps is_ascii_space_def)
  moreover have "user_taken (Username ''alice'') (abs_chat demo_server)"
    by (auto simp: user_taken_def demo_server_inv(2) simp del: abs_chat_sel)
  ultimately show ?thesis
    using Connect_spec [OF demo_server_inv(1) demo_server_fresh, of 0 0 "''alice''"] by simp
qed

text \<open>
  \<open>Disconnect\<close> of a connected client always succeeds: the client leaves its channel, is no
  longer a user and its event stream is disarmed; the name is free again. For any other identifier
  it reports that the client is unknown and changes nothing.
\<close>

theorem Disconnect_spec:
  assumes "server_inv P srv"
  shows "case strong_id_parse P (trim raw) of
      None \<Rightarrow> Disconnect P raw srv = (errorToStatus ClientNotFound, srv)
    | Some i \<Rightarrow>
        if user (abs_chat srv) i = None then Disconnect P raw srv = (errorToStatus ClientNotFound, srv)
        else fst (Disconnect P raw srv) = status_ok \<and>
          abs_chat (snd (Disconnect P raw srv)) =
            (abs_chat srv)\<lparr>user := (user (abs_chat srv))(i := None), place := (place (abs_chat srv))(i := None)\<rparr> \<and>
          live (srv_publisher (snd (Disconnect P raw srv))) (id_value i) = None \<and>
          (\<forall>n. user (abs_chat srv) i = Some n \<longrightarrow> \<not> user_taken n (abs_chat (snd (Disconnect P raw srv))))"
proof -
  have free: "\<not> user_taken n ((abs_chat srv)\<lparr>user := (user (abs_chat srv))(i := None), place := p\<rparr>)"
    if "user (abs_chat srv) i = Some n" for n i p
    using that inv_names(2) [OF assms] by (auto simp: user_taken_def simp del: abs_chat_sel)
  show ?thesis
    using Disconnect_refines(2) [OF assms, of raw] free
    by (auto simp: chat_quit_def simp del: abs_chat_sel split: option.splits)
qed

theorem Disconnect_spec_witness:
  "user (abs_chat (snd (Disconnect demo_platform (demo_text U2) demo_server))) = (\<lambda>i. None)"
proof -
  have parse: "strong_id_parse demo_platform (trim (demo_text U2)) = Some demo_alice"
    by simp
  have "user (abs_chat demo_server) demo_alice \<noteq> None"
    by (simp add: demo_server_inv(2) del: abs_chat_sel)
  then have "abs_chat (snd (Disconnect demo_platform (demo_text U2) demo_server)) =
      (abs_chat demo_server)\<lparr>user := (user (abs_chat demo_server))(demo_alice := None),
        place := (place (abs_chat demo_server))(demo_alice := None)\<rparr>"
    using Disconnect_spec [OF demo_server_inv(1), of "demo_text U2", unfolded parse option.case] by metis
  then show ?thesis
    by (simp add: demo_server_inv(2) del: abs_chat_sel)
qed

end
