(* ===== verification/Service_Properties.thy ===== *)
theory Service_Properties
  imports System_Invariant
begin

text \<open>
  Properties of the service across several calls: what a member reads back, heartbeats against the
  sweeper, start-up, and the life of the event streams.
\<close>

text \<open>
  C25: a message that the service accepted is read back: after a successful \<open>SendMessage\<close> every member
  of the channel who asks for the newest messages gets a page whose last event has the identifier
  that the sender was given, the trimmed text and the sender's identifier.
\<close>

theorem sent_message_is_listed:
  assumes inv: "server_inv P srv" and fresh: "fresh_uuid P u srv"
    and sent: "SendMessage P u t ci ch text srv = ((status_ok, mid), srv')"
    and ids: "strong_id_parse P (trim ci) = Some (i :: client_id)" "strong_id_parse P (trim ch) = Some (c :: channel_id)"
      "strong_id_parse P (trim cj) = Some (j :: client_id)"
    and member: "place (abs_chat srv') j = Some c" and limit: "limit \<noteq> 0"
  shows "\<exists>evs ev more. ListMessages P cj ch [] limit srv' = (status_ok, evs @ [ev], more) \<and>
    ev_message_id ev = mid \<and> ev_content ev = trim text \<and> ev_sender_id ev = id_value i \<and>
    ev_channel_id ev = id_value c"
proof -
  obtain res srv1 where run: "SendMessage_execute P u t i c (trim text) IncludeSender srv = (res, srv1)"
    by fastforce
  have "errorToStatus e \<noteq> status_ok" for e
    by (metis error_code status_ok_code)
  then have res: "\<exists>m. res = Inr m \<and> mid = id_value m" and srv1: "srv1 = srv'"
    using sent ids run by (auto simp: SendMessage_def split: sum.splits)
  then obtain m where m: "res = Inr m" "mid = id_value m" by blast
  obtain v where v: "MessageContent_create (trim text) = Inr v" "m = strong_id_generate P u"
    by (rule SendMessage_success [of P u t i c "trim text" IncludeSender srv m srv1]) (use run m in auto)
  let ?m = "sent_message P u t i c v"
  have inv': "server_inv P srv'"
    using SendMessage_refines(1) [OF inv fresh, of t i c "trim text" IncludeSender] run srv1 by simp
  have spec: "(res, abs_chat srv') = chat_send P u t (unat (repo_cap (srv_messages srv))) i c (trim text) (abs_chat srv)"
    using SendMessage_refines(2) [OF inv fresh, of t i c "trim text" IncludeSender] run srv1 by simp
  then have "abs_chat srv' = chat_post (unat (repo_cap (srv_messages srv))) ?m (abs_chat srv)"
    using m(1) v by (simp add: chat_send_def split: if_splits del: abs_chat_sel)
  moreover have "repo_cap (srv_messages srv) \<noteq> 0"
    using server_invD(5) [OF inv] unfolding messages_wf_def by blast
  then have "0 < unat (repo_cap (srv_messages srv))"
    by (simp add: unat_gt_0)
  ultimately have "\<exists>old. posts (abs_chat srv') c = old @ [?m]"
    by (simp add: chat_post_def sent_message_def Let_def del: abs_chat_sel)
  then obtain old where posts: "history (srv_messages srv') (id_value c) = old @ [?m]" by auto
  have "min limit kServerMaxLimit \<noteq> 0"
    using limit by (simp add: min_def kServerMaxLimit_def)
  then have "\<exists>page. messages_recent c (min limit kServerMaxLimit) (srv_messages srv') = page @ [?m]"
  proof -
    assume "min limit kServerMaxLimit \<noteq> 0"
    then have "0 < unat (min limit kServerMaxLimit)"
      by (simp only: unat_gt_0 simp_thms)
    then have "Suc 0 - unat (min limit kServerMaxLimit) = 0"
      by simp
    then show ?thesis
      using posts by (simp add: messages_recent_history)
  qed
  then obtain page where page: "messages_recent c (min limit kServerMaxLimit) (srv_messages srv') = page @ [?m]" by blast
  have "\<exists>more. ListMessages_execute j c None limit srv' = Inr (page @ [?m], more)"
    using membership_room [OF server_invD(6) [OF inv']] membership_members [OF server_invD(6) [OF inv']] member page
    by (fastforce simp: ListMessages_execute_def channels_findById_eq Let_def)
  then obtain more where "ListMessages_execute j c None limit srv' = Inr (page @ [?m], more)" by blast
  then have "ListMessages P cj ch [] limit srv' =
      (status_ok, map (listed_event P (srv_clients srv')) page @ [listed_event P (srv_clients srv') ?m], more)"
    using ids by (simp add: ListMessages_def trim_def)
  moreover have "content_value v = trim text"
    using v(1) by (auto simp: MessageContent_create_def content_trim_eq Let_def split: if_splits)
  ultimately show ?thesis
    using m v(2) by (auto simp: listed_event_def sent_message_def)
qed

lemma demo_places:
  "user (abs_chat demo_server) demo_alice = Some (Username ''alice'')"
  "room (abs_chat demo_server) demo_room = Some (ChannelName ''general'')"
  "place (abs_chat demo_server) demo_alice = Some demo_room"
  by (simp_all add: demo_server_inv(2) del: abs_chat_sel)

theorem sent_message_is_listed_witness:
  "\<exists>srv' evs ev more. ListMessages demo_platform (demo_text U2) (demo_text U1) [] 5 srv' =
     (status_ok, evs @ [ev], more) \<and> ev_content ev = ''hello''"
proof -
  have trims: "trim ''hello'' = ''hello''"
    by (simp add: trim_def trim_back.simps is_ascii_space_def)
  then have create: "MessageContent_create ''hello'' = Inr (MessageContent ''hello'')"
    by (simp add: MessageContent_create_def content_trim_eq)
  obtain res srv1 where run: "SendMessage_execute demo_platform U3 0 demo_alice demo_room ''hello'' IncludeSender
      demo_server = (res, srv1)" by fastforce
  have "(res, abs_chat srv1) = chat_send demo_platform U3 0 (unat (repo_cap (srv_messages demo_server)))
      demo_alice demo_room ''hello'' (abs_chat demo_server)"
    using SendMessage_refines(2) [OF demo_server_inv(1) demo_server_fresh, of 0 demo_alice demo_room "''hello''"
      IncludeSender] by (simp add: run)
  then have res: "res = Inr (StrongId (demo_text U3))"
    and place: "place (abs_chat srv1) demo_alice = Some demo_room"
    using demo_places by (simp_all add: chat_send_def create chat_post_def Let_def del: abs_chat_sel)
  have "SendMessage demo_platform U3 0 (demo_text U2) (demo_text U1) ''hello'' demo_server =
      ((status_ok, demo_text U3), srv1)"
    by (simp add: SendMessage_def trims run res)
  from sent_message_is_listed [OF demo_server_inv(1) demo_server_fresh this _ _ _ place, where cj = "demo_text U2" and limit = 5]
  show ?thesis
    using trims by (simp, blast)
qed

text \<open>
  C35: heartbeats keep a session alive: after an accepted heartbeat at time \<open>t\<close>, a pass of the sweeper
  at time \<open>now\<close> ends that client's session exactly when more than the timeout has passed since \<open>t\<close>;
  otherwise the client keeps its name, its channel and its stream.
\<close>

theorem heartbeat_keeps_alive:
  assumes inv: "server_inv P srv" and beat: "Heartbeat P t ci srv = (status_ok, srv1)"
    and i: "strong_id_parse P (trim ci) = Some (i :: client_id)"
  shows "if now - timeout > t
    then user (abs_chat (snd (sweep P now timeout srv1))) i = None
    else user (abs_chat (snd (sweep P now timeout srv1))) i = user (abs_chat srv) i \<and>
      user (abs_chat srv) i \<noteq> None \<and>
      place (abs_chat (snd (sweep P now timeout srv1))) i = place (abs_chat srv) i \<and>
      live (srv_publisher (snd (sweep P now timeout srv1))) (id_value i) = live (srv_publisher srv) (id_value i)"
proof -
  obtain res reg where touch: "clients_touchHeartbeat t i (srv_clients srv) = (res, reg)" by fastforce
  have srv1: "srv1 = srv\<lparr>srv_clients := reg\<rparr>" and res: "res = Inr ()"
    using beat i touch by (auto simp: Heartbeat_def split: sum.splits) (metis error_code status_ok_code)+
  have known: "user (abs_chat srv) i \<noteq> None"
    using heartbeat_refines(3) [OF inv touch] res by (simp split: if_splits)
  then obtain s where s: "session_at (srv_clients srv) (id_value i) = Some s" by auto
  then have reg: "session_at reg (id_value i) = Some (touch t s)"
    using touch by (simp add: in_place_eq) (metis option.simps(9) session_at_modify)
  have inv1: "server_inv P srv1" and abs1: "abs_chat srv1 = abs_chat srv"
    using heartbeat_refines(1,2) [OF inv touch] by (simp_all add: srv1)
  have "i \<in> expired_ids (now - timeout) (srv_clients srv1) \<longleftrightarrow> t < now - timeout"
    by (simp add: expired_ids_def srv1 reg isExpired_def)
  then show ?thesis
    using ExpireInactive_refines(3,4) [OF inv1 refl, of "now - timeout"] known
    by (simp add: sweep_def abs1 chat_expire_def del: abs_chat_sel) (simp add: srv1)
qed

theorem heartbeat_keeps_alive_witness:
  "\<exists>srv1. place (abs_chat (snd (sweep demo_platform 100 90 srv1))) demo_alice = Some demo_room"
proof -
  obtain s where s: "session_at (srv_clients demo_server) (id_value demo_alice) = Some s"
    using demo_heartbeat by blast
  then have "fst (Heartbeat demo_platform 50 (demo_text U2) demo_server) = status_ok"
    by (simp add: Heartbeat_def in_place_eq)
  then obtain srv1 where "Heartbeat demo_platform 50 (demo_text U2) demo_server = (status_ok, srv1)"
    by (cases "Heartbeat demo_platform 50 (demo_text U2) demo_server") simp
  from heartbeat_keeps_alive [OF demo_server_inv(1) this, of demo_alice 100 90] demo_places(3) show ?thesis
    by (auto simp del: abs_chat_sel)
qed

text \<open>
  The server starts serving only with a certificate and a key that can be read, or with TLS
  explicitly disabled, and never with expiry on and a zero interval; it then has one channel, the
  seeded \<open>general\<close>, no users, a positive history cap, and a sweeper exactly when a timeout is set.
\<close>

theorem server_run_spec:
  "case server_run P files u t a of
     Exit code \<Rightarrow> code = 1
   | Serving srv tls sweeper \<Rightarrow>
       (case tls of
          None \<Rightarrow> arg_insecure a
        | Some (cert, key) \<Rightarrow> \<not> arg_insecure a \<and> files (arg_cert_path a) = Some cert \<and>
            files (arg_key_path a) = Some key \<and> arg_cert_path a \<noteq> [] \<and> arg_key_path a \<noteq> []) \<and>
       abs_chat srv = \<lparr>room = [strong_id_generate P u \<mapsto> ChannelName ''general''], user = (\<lambda>i. None),
         place = (\<lambda>i. None), posts = (\<lambda>c. [])\<rparr> \<and>
       server_inv P srv \<and> 0 < unat (repo_cap (srv_messages srv)) \<and>
       (case sweeper of None \<Rightarrow> arg_heartbeat_timeout a = 0
        | Some (interval, timeout) \<Rightarrow> interval \<noteq> 0 \<and> timeout \<noteq> 0 \<and> timeout = arg_heartbeat_timeout a)"
proof (cases "server_run P files u t a")
  case (Exit code)
  then show ?thesis
    by (auto simp: server_run_def read_pem_file_def Let_def split: if_splits sum.splits option.splits)
next
  case (Serving srv tls sweeper)
  then have srv: "srv = initial_server P u t (arg_history_cap a)"
    by (rule server_run_serving)
  have "repo_cap (srv_messages srv) \<noteq> 0"
    by (simp add: srv initial_server_def messages_init_def kDefaultCap_def)
  then have "0 < unat (repo_cap (srv_messages srv))"
    by (simp add: unat_gt_0)
  moreover have "abs_chat srv = \<lparr>room = [strong_id_generate P u \<mapsto> ChannelName ''general''], user = (\<lambda>i. None),
      place = (\<lambda>i. None), posts = (\<lambda>c. [])\<rparr>"
    by (simp add: srv initial_server_inv(2) empty_server_abs)
  moreover have "server_inv P srv"
    by (simp add: srv initial_server_inv(1))
  ultimately show ?thesis
    using Serving by (auto simp: server_run_def read_pem_file_def Let_def word_gt_0 split: if_splits sum.splits option.splits)
qed

subsection \<open>Event streams\<close>

lemma reachable_writer_owner:
  assumes "reaches (sys_start P) (sys_step P) s"
    and "live (srv_publisher (sys_server s)) k = Some w" "live (srv_publisher (sys_server s)) l = Some w"
  shows "k = l"
proof -
  have "sys_inv P s"
    using assms(1) by (rule server_system.reaches_inv)
  then have "(w, StrongId k) \<in> set (sys_streams s)" "(w, StrongId l) \<in> set (sys_streams s)"
    "distinct (map fst (sys_streams s))"
    using assms(2,3) by (simp_all add: sys_inv_def live_are_open_def)
  then show ?thesis
    by (metis eq_key_imp_eq_value strong_id.inject)
qed

text \<open>The event that an accepted message becomes, and the streams it is written to.\<close>

lemma accepted_message_events:
  assumes reach: "reaches (sys_start P) (sys_step P) s"
    and sent: "SendMessage P u t ci ch text (sys_server s) = ((status_ok, mid), srv')"
    and i: "strong_id_parse P (trim ci) = Some (i :: client_id)"
    and c: "strong_id_parse P (trim ch) = Some (c :: channel_id)"
    and j: "live (srv_publisher (sys_server s)) (id_value j) = Some w"
  shows "\<exists>ev n. user (abs_chat (sys_server s)) i = Some n \<and>
    ev = \<lparr>ev_message_id = mid, ev_channel_id = id_value c, ev_sender_id = id_value i,
      ev_sender_name = username_value n, ev_content = trim text, ev_sent_at_ms = to_epoch_ms P t\<rparr> \<and>
    events_to w (written (srv_publisher srv')) = events_to w (written (srv_publisher (sys_server s))) @
      (if place (abs_chat (sys_server s)) j = Some c then [MessageEv ev] else [])"
proof -
  let ?srv = "sys_server s"
  have inv: "server_inv P ?srv"
    using server_system.reaches_inv [OF reach] by (simp add: sys_inv_def)
  have err: "errorToStatus e \<noteq> status_ok" for e
    by (metis error_code status_ok_code)
  obtain res srv1 where run: "SendMessage_execute P u t i c (trim text) IncludeSender ?srv = (res, srv1)"
    by fastforce
  obtain m where res: "res = Inr m" "mid = id_value m" and srv1: "srv1 = srv'"
    using sent i c run err by (auto simp: SendMessage_def split: sum.splits)
  obtain x ch' v where ok: "session_at (srv_clients ?srv) (id_value i) = Some x"
      "channel_at (srv_channels ?srv) (id_value c) = Some ch'"
      "MessageContent_create (trim text) = Inr v" "m = strong_id_generate P u"
      "srv' = publish_each P (sent_message P u t i c v) (recipientsFor ch' (sent_message P u t i c v) IncludeSender)
        (?srv\<lparr>srv_messages := snd (messages_save (sent_message P u t i c v) (srv_messages ?srv))\<rparr>)"
    by (rule SendMessage_success [of P u t i c "trim text" IncludeSender ?srv m srv']) (use run res srv1 in auto)
  let ?f = "\<lambda>r. live (srv_publisher ?srv) (id_value r)"
  have dist: "distinct (chan_members ch')"
    using channels_wf_entity [OF server_invD(3) [OF inv] ok(2)] by (simp add: channel_ok_def)
  have owner: "r = j" if "?f r = Some w" for r
    using reachable_writer_owner [OF reach that j] by (simp add: strong_id_eq_iff)
  have member: "j \<in> set (chan_members ch') \<longleftrightarrow> place (abs_chat ?srv) j = Some c"
    using membership_members [OF server_invD(6) [OF inv] ok(2)] by (simp add: hasMember_def)
  have "filter (\<lambda>v. v = w) (List.map_filter ?f (chan_members ch')) =
      (if place (abs_chat ?srv) j = Some c then [w] else [])"
    using filter_map_filter_unique [of _ ?f, OF dist j owner] member by simp
  moreover have "content_value v = trim text"
    using ok(3) by (auto simp: MessageContent_create_def content_trim_eq Let_def split: if_splits)
  moreover have "clients_lookupUsername i (srv_clients ?srv) = Inr (sess_username x)"
    using clients_wf_history [OF server_invD(4) [OF inv] ok(1)]
    by (simp add: clients_lookupUsername_def username_history_def)
  ultimately show ?thesis
    using res(2) ok(1,4) by (simp add: ok(5) written_publish_each events_to_same message_to_event_def sent_message_def)
qed

text \<open>
  C10: in every reachable state, when a message is accepted, the client behind a live stream gets
  exactly one new event for it if it is a member of the channel, and nothing otherwise.
\<close>

theorem accepted_message_reaches_members_once:
  assumes reach: "reaches (sys_start P) (sys_step P) s"
    and sent: "SendMessage P u t ci ch text (sys_server s) = ((status_ok, mid), srv')"
    and c: "strong_id_parse P (trim ch) = Some (c :: channel_id)"
    and j: "live (srv_publisher (sys_server s)) (id_value j) = Some w"
  shows "\<exists>ev. ev_message_id ev = mid \<and> ev_content ev = trim text \<and>
    events_to w (written (srv_publisher srv')) = events_to w (written (srv_publisher (sys_server s))) @
      (if place (abs_chat (sys_server s)) j = Some c then [MessageEv ev] else [])"
proof -
  obtain i where i: "strong_id_parse P (trim ci) = Some (i :: client_id)"
    using sent by (cases "strong_id_parse P (trim ci) :: client_id option")
      (auto simp: SendMessage_def status_ok_def)
  note event = accepted_message_events [OF reach sent i c j]
  from event obtain ev n where "ev = \<lparr>ev_message_id = mid, ev_channel_id = id_value c, ev_sender_id = id_value i,
      ev_sender_name = username_value n, ev_content = trim text, ev_sent_at_ms = to_epoch_ms P t\<rparr>"
    "events_to w (written (srv_publisher srv')) = events_to w (written (srv_publisher (sys_server s))) @
      (if place (abs_chat (sys_server s)) j = Some c then [MessageEv ev] else [])"
    by blast
  then show ?thesis by (intro exI [of _ ev]) (simp del: abs_chat_sel)
qed

text \<open>The demonstration server with an open stream of its member.\<close>

definition demo_stream_server :: server where
  "demo_stream_server =
     demo_server\<lparr>srv_publisher := publisher_registerSubscriber demo_alice (Some 5) (srv_publisher demo_server)\<rparr>"

definition demo_stream_system :: system where
  "demo_stream_system = \<lparr>sys_server = demo_stream_server, sys_streams = [(5, demo_alice)],
     sys_list_streams = [], sys_writers = [5]\<rparr>"

lemma demo_member:
  "\<exists>ch. channel_at (srv_channels demo_server) (id_value demo_room) = Some ch \<and> hasMember demo_alice ch"
proof -
  have place: "place_of (srv_clients demo_server) demo_alice = Some demo_room"
    using demo_places(3) by simp
  from membership_room [OF server_invD(6) [OF demo_server_inv(1)] this]
  obtain ch where ch: "channel_at (srv_channels demo_server) (id_value demo_room) = Some ch" by blast
  then show ?thesis
    using membership_members [OF server_invD(6) [OF demo_server_inv(1)] ch] place by blast
qed

lemma demo_open: "SubscribeToChannel_open demo_platform (demo_text U2) (demo_text U1) 5 demo_server =
    (None, demo_stream_server)"
proof -
  obtain ch where "channel_at (srv_channels demo_server) (demo_text U1) = Some ch" "hasMember demo_alice ch"
    using demo_member by auto
  then show ?thesis
    by (simp add: SubscribeToChannel_open_def subscribe_result demo_stream_server_def)
qed

lemma demo_stream_reachable:
  "reaches (sys_start demo_platform) (sys_step demo_platform) demo_stream_system"
proof -
  have "sys_step demo_platform (demo_system demo_server) demo_stream_system"
    using subscribe_open [of 5 "demo_system demo_server" demo_platform "demo_text U2" demo_alice "demo_text U1"
        demo_stream_server] demo_open
    by (simp add: demo_system_def demo_stream_system_def)
  with demo_reachable show ?thesis
    by (rule reaches_step)
qed

lemma demo_stream_live: "live (srv_publisher demo_stream_server) (id_value demo_alice) = Some 5"
  using channel_pub.live_register [OF server_invD(1) [OF demo_server_inv(1)], of demo_alice "Some 5" "id_value demo_alice"]
  by (simp add: demo_stream_server_def)

lemma demo_stream_abs: "abs_chat demo_stream_server = abs_chat demo_server"
  by (simp add: demo_stream_server_def abs_chat_def)

lemma demo_stream_inv: "server_inv demo_platform demo_stream_server"
  using server_system.reaches_inv [OF demo_stream_reachable] by (simp add: sys_inv_def demo_stream_system_def)

lemma demo_stream_fresh: "fresh_uuid demo_platform U3 demo_stream_server"
  using demo_server_fresh by (simp add: fresh_uuid_def demo_stream_server_def)

lemma demo_sent:
  obtains srv' where "SendMessage demo_platform U3 0 (demo_text U2) (demo_text U1) ''hello'' demo_stream_server =
      ((status_ok, demo_text U3), srv')"
    "strong_id_parse demo_platform (trim (demo_text U1)) = Some demo_room" "trim ''hello'' = ''hello''"
proof -
  have trims: "trim ''hello'' = ''hello''"
    by (simp add: trim_def trim_back.simps is_ascii_space_def)
  then have create: "MessageContent_create ''hello'' = Inr (MessageContent ''hello'')"
    by (simp add: MessageContent_create_def content_trim_eq)
  obtain res srv1 where run: "SendMessage_execute demo_platform U3 0 demo_alice demo_room ''hello'' IncludeSender
      demo_stream_server = (res, srv1)" by fastforce
  have "(res, abs_chat srv1) = chat_send demo_platform U3 0 (unat (repo_cap (srv_messages demo_stream_server)))
      demo_alice demo_room ''hello'' (abs_chat demo_server)"
    using SendMessage_refines(2) [OF demo_stream_inv demo_stream_fresh, of 0 demo_alice demo_room "''hello''"
      IncludeSender] by (simp add: run demo_stream_abs)
  then have "res = Inr (StrongId (demo_text U3))"
    using demo_places by (simp add: chat_send_def create del: abs_chat_sel)
  then have "SendMessage demo_platform U3 0 (demo_text U2) (demo_text U1) ''hello'' demo_stream_server =
      ((status_ok, demo_text U3), srv1)"
    by (simp add: SendMessage_def trims run)
  then show thesis
    using that trims by simp
qed

theorem accepted_message_reaches_members_once_witness:
  "\<exists>(srv' :: server) ev. events_to 5 (written (srv_publisher srv')) =
     events_to 5 (written (srv_publisher demo_stream_server)) @ [MessageEv ev] \<and> ev_content ev = ''hello''"
proof -
  obtain srv' where sent: "SendMessage demo_platform U3 0 (demo_text U2) (demo_text U1) ''hello''
      (sys_server demo_stream_system) = ((status_ok, demo_text U3), srv')"
    and ids: "strong_id_parse demo_platform (trim (demo_text U1)) = Some demo_room" "trim ''hello'' = ''hello''"
    by (rule demo_sent) (simp add: demo_stream_system_def)
  have live: "live (srv_publisher (sys_server demo_stream_system)) (id_value demo_alice) = Some 5"
    using demo_stream_live by (simp add: demo_stream_system_def)
  from accepted_message_reaches_members_once [OF demo_stream_reachable sent ids(1) live] show ?thesis
    using demo_places(3) ids(2) by (auto simp: demo_stream_system_def demo_stream_abs simp del: abs_chat_sel)
qed

text \<open>
  C37: a rejected subscription is not harmless. When a client asks for the events of a channel it is
  not in, the call fails, but the handler has registered the new writer before it checked and then
  unregisters the client, so that the stream the client already had is disarmed as well and stays
  open without ever receiving another event.
\<close>

theorem rejected_subscription_drops_stream:
  assumes contract: "uuid_contract P" and inv: "server_inv P srv"
    and ids: "strong_id_parse P (trim ci) = Some (i :: client_id)" "strong_id_parse P (trim ch) = Some (c :: channel_id)"
    and outside: "place (abs_chat srv) i \<noteq> Some c"
  shows "\<exists>status srv'. SubscribeToChannel_open P ci ch w srv = (Some status, srv') \<and> status_code status \<noteq> OK \<and>
    live (srv_publisher srv') (id_value i) = None \<and> abs_chat srv' = abs_chat srv"
proof -
  obtain res srv' where run: "SubscribeToChannel_open P ci ch w srv = (res, srv')" by fastforce
  have "\<not> (\<exists>x. channel_at (srv_channels srv) (id_value c) = Some x \<and> hasMember i x)"
    using outside membership_members [OF server_invD(6) [OF inv]] by auto
  then obtain status where res: "res = Some status"
    using run ids by (auto simp: SubscribeToChannel_open_def subscribe_result Let_def split: option.splits if_splits)
  then show ?thesis
    using subscribe_rejected_effect(2,5) [OF contract inv run [unfolded res]]
      subscribe_rejected_effect(4) [OF contract inv run [unfolded res], of "id_value i"] ids run by auto
qed

theorem rejected_subscription_drops_stream_witness:
  "live (srv_publisher demo_stream_server) (id_value demo_alice) = Some 5 \<and>
   (\<exists>status srv'. SubscribeToChannel_open demo_platform (demo_text U2) (demo_text U3) 6 demo_stream_server =
      (Some status, srv') \<and> live (srv_publisher srv') (id_value demo_alice) = None)"
proof -
  have "place (abs_chat demo_stream_server) demo_alice \<noteq> Some (StrongId (demo_text U3))"
    using demo_places(3) by (simp add: demo_stream_abs del: abs_chat_sel)
  from rejected_subscription_drops_stream [OF demo_contract demo_stream_inv _ _ this, of "demo_text U2" "demo_text U3" 6]
  show ?thesis
    using demo_stream_live by simp blast
qed

text \<open>
  C38: closing an old stream starves the new one. When a client with an open stream opens a second
  one and the first is then closed, the handler of the first unregisters by client: in the state
  reached, the second stream is still open and its client still a member, but no writer is
  registered for it and no later delivery reaches it.
\<close>

theorem stale_close_starves_new_stream:
  assumes reach: "reaches (sys_start P) (sys_step P) s"
    and old: "(v, i) \<in> set (sys_streams s)" and new: "w \<notin> set (sys_writers s)"
    and parsed: "strong_id_parse P (trim ci) = Some i"
    and opened: "SubscribeToChannel_open P ci ch w (sys_server s) = (None, srv1)"
  shows "\<exists>s'. reaches (sys_start P) (sys_step P) s' \<and> (w, i) \<in> set (sys_streams s') \<and>
    place (abs_chat (sys_server s')) i = place (abs_chat (sys_server s)) i \<and>
    place (abs_chat (sys_server s')) i \<noteq> None \<and>
    live (srv_publisher (sys_server s')) (id_value i) = None \<and>
    (\<forall>ds. events_to w (written (fold (channel_deliver P) ds (srv_publisher (sys_server s')))) =
       events_to w (written (srv_publisher (sys_server s'))))"
proof -
  let ?s1 = "s\<lparr>sys_server := srv1, sys_streams := (w, i) # sys_streams s, sys_writers := w # sys_writers s\<rparr>"
  let ?srv2 = "snd (SubscribeToChannel_close i srv1)"
  let ?s2 = "?s1\<lparr>sys_server := ?srv2, sys_streams := removeAll (v, i) (sys_streams ?s1)\<rparr>"
  have sys: "sys_inv P s"
    using reach by (rule server_system.reaches_inv)
  have inv: "server_inv P (sys_server s)" and contract: "uuid_contract P" and used: "v \<in> set (sys_writers s)"
    using sys old by (auto simp: sys_inv_def)
  have reach1: "reaches (sys_start P) (sys_step P) ?s1"
    by (rule reaches_step [OF reach sys_step.subscribe_open [OF new parsed opened]])
  have "sys_step P ?s1 ?s2"
    using sys_step.subscribe_close [of v i ?s1 P] old by simp
  with reach1 have reach2: "reaches (sys_start P) (sys_step P) ?s2"
    by (rule reaches_step)
  have "sys_inv P ?s2"
    using reach2 by (rule server_system.reaches_inv)
  then have open_live: "live_are_open (live (srv_publisher ?srv2)) (sys_streams ?s2)" and inv2: "server_inv P ?srv2"
    and dist: "distinct (map fst (sys_streams ?s2))"
    by (simp_all add: sys_inv_def)
  note opened' = subscribe_open_effect [OF contract inv parsed opened]
  have silent: "live (srv_publisher ?srv2) (id_value i) = None"
    using close_effect(2) [OF opened'(1), of i "id_value i"] by simp
  have mem: "(w, i) \<in> set (sys_streams ?s2)"
    using new used by auto
  have nobody: "live (srv_publisher ?srv2) k \<noteq> Some w" for k
  proof
    assume k: "live (srv_publisher ?srv2) k = Some w"
    then have "(w, StrongId k) \<in> set (sys_streams ?s2)"
      using open_live by (simp add: live_are_open_def)
    with mem dist have "StrongId k = i"
      by (metis eq_key_imp_eq_value)
    then show False
      using k silent by (metis option.distinct(1) strong_id.sel)
  qed
  have "abs_chat ?srv2 = abs_chat (sys_server s)"
    using opened'(4) by (simp add: SubscribeToChannel_close_def abs_chat_def)
  moreover have "events_to w (written (fold (channel_deliver P) ds (srv_publisher ?srv2))) =
      events_to w (written (srv_publisher ?srv2))" for ds
    by (rule channel_pub.silent_run [OF server_invD(1) [OF inv2] nobody])
  ultimately show ?thesis
    using reach2 mem opened'(5) silent by (intro exI [of _ ?s2]) simp
qed

theorem stale_close_starves_new_stream_witness:
  "\<exists>s'. reaches (sys_start demo_platform) (sys_step demo_platform) s' \<and>
     (6, demo_alice) \<in> set (sys_streams s') \<and> live (srv_publisher (sys_server s')) (id_value demo_alice) = None"
proof -
  obtain ch where "channel_at (srv_channels demo_server) (demo_text U1) = Some ch" "hasMember demo_alice ch"
    using demo_member by auto
  then obtain srv1 where "SubscribeToChannel_open demo_platform (demo_text U2) (demo_text U1) 6
      (sys_server demo_stream_system) = (None, srv1)"
    by (simp add: SubscribeToChannel_open_def subscribe_result demo_stream_server_def demo_stream_system_def)
  moreover have "(5, demo_alice) \<in> set (sys_streams demo_stream_system)" "6 \<notin> set (sys_writers demo_stream_system)"
    "strong_id_parse demo_platform (trim (demo_text U2)) = Some demo_alice"
    by (simp_all add: demo_stream_system_def)
  ultimately show ?thesis
    using stale_close_starves_new_stream [OF demo_stream_reachable] by blast
qed

text \<open>
  C39: a name that is also the text of a UUID can be given to a channel but not be used to join it:
  \<open>CreateChannel\<close> accepts the text of any UUID as a name, and \<open>JoinChannel\<close> then reads the name as an
  identifier and finds no channel, unless that identifier happens to be in use.
\<close>

theorem uuid_named_channel_unreachable_by_name:
  assumes contract: "uuid_contract P" and inv: "server_inv P srv" and fresh: "fresh_uuid P u srv"
    and ci: "strong_id_parse P (trim ci) = Some (i :: client_id)" "user (abs_chat srv) i \<noteq> None"
    and n: "\<not> uuid_is_nil P n" "n \<noteq> u" "\<not> name_taken (ChannelName (uuid_to_string P n)) (abs_chat srv)"
    and unused: "room (abs_chat srv) (strong_id_generate P n) = None"
    and run: "CreateChannel P u t ci (uuid_to_string P n) srv = ((status, new_id, new_name), srv')"
  shows "status = status_ok \<and> new_name = uuid_to_string P n \<and>
    name_taken (ChannelName new_name) (abs_chat srv') \<and>
    JoinChannel P ci new_name srv' = (errorToStatus ChannelNotFound, srv')"
proof -
  let ?text = "uuid_to_string P n"
  have trims: "trim ?text = ?text"
    by (rule trim_uuid_text [OF contract])
  obtain res srv1 where exec: "CreateChannel_execute P u t i ?text srv = (res, srv1)" by fastforce
  have "(res, abs_chat srv1) = chat_create (strong_id_generate P u) (ChannelName ?text) (abs_chat srv)"
    using CreateChannel_refines(2) [OF inv fresh, of t i ?text] ci(2) uuid_text_valid_channel_name [OF contract]
    by (auto simp: exec trims)
  then have res: "res = Inr (strong_id_generate P u)"
    and abs1: "abs_chat srv1 = (abs_chat srv)\<lparr>room := (room (abs_chat srv))(strong_id_generate P u \<mapsto> ChannelName ?text)\<rparr>"
    using n(3) by (simp_all add: chat_create_def)
  have eqs: "srv' = srv1" "status = status_ok" "new_name = ?text"
    using run ci(1) by (simp_all add: CreateChannel_def exec res trims)
  have "?text \<noteq> uuid_to_string P u"
    using n(2) contract unfolding uuid_contract_def by (metis option.inject)
  then have "room (abs_chat srv1) (strong_id_generate P n) = None"
    using unused by (simp add: abs1 strong_id_generate_def del: abs_chat_sel)
  moreover have "user (abs_chat srv1) i \<noteq> None"
    using ci(2) by (simp add: abs1 del: abs_chat_sel)
  ultimately have "JoinChannel_execute P i (StrongId ?text) srv1 = (Inl ChannelNotFound, srv1)"
    by (auto simp: JoinChannel_execute_def clients_findById_eq channels_findById_eq strong_id_generate_def)
  moreover have "strong_id_parse P ?text = Some (StrongId ?text :: channel_id)"
    using n(1) by (simp add: strong_id_parse_uuid_text [OF contract])
  moreover have "name_taken (ChannelName ?text) (abs_chat srv1)"
    by (auto simp: name_taken_def abs1 simp del: abs_chat_sel)
  ultimately show ?thesis
    using ci(1) by (simp add: eqs JoinChannel_def trims)
qed

theorem uuid_named_channel_unreachable_by_name_witness:
  "\<exists>srv'. JoinChannel demo_platform (demo_text U2) (demo_text U2) srv' = (errorToStatus ChannelNotFound, srv') \<and>
     name_taken (ChannelName (demo_text U2)) (abs_chat srv')"
proof -
  have parse: "strong_id_parse demo_platform (trim (demo_text U2)) = Some demo_alice"
    by simp
  have known: "user (abs_chat demo_server) demo_alice \<noteq> None"
    using demo_places(1) by auto
  have names: "\<not> uuid_is_nil demo_platform U2" "U2 \<noteq> U3"
    by (simp_all add: demo_platform_def)
  have free: "\<not> name_taken (ChannelName (uuid_to_string demo_platform U2)) (abs_chat demo_server)"
    "room (abs_chat demo_server) (strong_id_generate demo_platform U2) = None"
    by (auto simp: name_taken_def demo_server_inv(2) demo_text.simps simp del: abs_chat_sel)
  obtain status new_id new_name srv' where run: "CreateChannel demo_platform U3 0 (demo_text U2)
      (uuid_to_string demo_platform U2) demo_server = ((status, new_id, new_name), srv')"
    by (metis prod.collapse)
  from uuid_named_channel_unreachable_by_name [OF demo_contract demo_server_inv(1) demo_server_fresh parse known
      names free run]
  show ?thesis by auto
qed

end
