(* ===== verification/Paced_Loop.thy ===== *)
theory Paced_Loop
  imports Prelude
begin

text \<open>
  The contract of the program's background threads: a loop that pauses for an interval, looks whether
  it is to stop, acts, and begins again. Every evaluation of a condition or of the clock takes one
  reading of the environment, the steady time and whether a stop was requested. The locale says what
  one reading may do; under it the thread stops when it is told to and only then, never acts on a
  request to stop, and keeps the interval between its actions. The sweeper of the server and the
  heartbeat and polling threads of the client are instances.
\<close>

fun acting_times :: "('r \<Rightarrow> 'pc \<Rightarrow> 'pc) \<Rightarrow> ('pc \<Rightarrow> bool) \<Rightarrow> ('r \<Rightarrow> int) \<Rightarrow> 'pc \<Rightarrow> 'r list \<Rightarrow> int list" where
  "acting_times nxt acts time pc [] = []"
| "acting_times nxt acts time pc (r # rs) =
     (if acts pc then [time r] else []) @ acting_times nxt acts time (nxt r pc) rs"

lemma acting_times_append:
  "acting_times nxt acts time pc (rs @ ts) =
     acting_times nxt acts time pc rs @ acting_times nxt acts time (fold nxt rs pc) ts"
  by (induction rs arbitrary: pc) auto

locale paced_thread =
  fixes nxt :: "int \<Rightarrow> int \<times> bool \<Rightarrow> 'pc \<Rightarrow> 'pc" and acts :: "'pc \<Rightarrow> bool" and ended :: 'pc
    and earliest :: "int \<Rightarrow> int \<Rightarrow> 'pc \<Rightarrow> int" and rank :: "'pc \<Rightarrow> nat"
  assumes ended_stays: "nxt d r ended = ended" and ended_idle: "\<not> acts ended"
    and stop_rank: "pc \<noteq> ended \<Longrightarrow> rank (nxt d (t, True) pc) < rank pc"
    and stop_idle: "\<not> acts (nxt d (t, True) pc)"
    and runs_on: "pc \<noteq> ended \<Longrightarrow> nxt d (t, False) pc \<noteq> ended"
    and pause: "0 \<le> d \<Longrightarrow> acts pc \<Longrightarrow> t + d \<le> earliest d t (nxt d (t, stop) pc)"
    and wait: "now \<le> t \<Longrightarrow> \<not> acts pc \<Longrightarrow> earliest d now pc \<le> earliest d t (nxt d (t, False) pc)"
    and due: "acts pc \<Longrightarrow> earliest d now pc \<le> now"
begin

lemma stays_ended: "fold (nxt d) rs ended = ended"
  by (induction rs) (auto simp: ended_stays)

lemma ended_acts: "acting_times (nxt d) acts fst ended rs = []"
  by (induction rs) (auto simp: ended_stays ended_idle)

lemma stops:
  assumes "\<forall>r\<in>set stops. snd r" and "rank pc \<le> length stops"
  shows "fold (nxt d) stops pc = ended"
  using assms
proof (induction stops arbitrary: pc)
  case Nil
  then show ?case using stop_rank [of pc] by auto
next
  case (Cons r stops)
  obtain t where r: "r = (t, True)" using Cons.prems(1) by (cases r) auto
  show ?case
  proof (cases "pc = ended")
    case True
    then show ?thesis by (simp add: ended_stays stays_ended)
  next
    case False
    then show ?thesis
      using Cons.IH [of "nxt d r pc"] Cons.prems stop_rank [OF False, of d t] by (simp add: r)
  qed
qed

lemma stop_needed: "fold (nxt d) rs pc = ended \<Longrightarrow> pc \<noteq> ended \<Longrightarrow> \<exists>r\<in>set rs. snd r"
proof (induction rs arbitrary: pc)
  case (Cons r rs)
  then show ?case using runs_on [of pc d "fst r"] by (cases r; cases "snd r") auto
qed simp

lemma stopping_idle:
  "\<forall>r\<in>set rs. snd r \<Longrightarrow> \<not> acts pc \<Longrightarrow> acting_times (nxt d) acts fst pc rs = []"
proof (induction rs arbitrary: pc)
  case (Cons r rs)
  then show ?case using stop_idle by (cases r) auto
qed simp

lemma last_act:
  assumes "\<forall>r\<in>set stops. snd r"
  shows "length (acting_times (nxt d) acts fst pc stops) \<le> 1"
proof (cases stops)
  case (Cons r rs)
  obtain t where r: "r = (t, True)" using assms Cons by (cases r) auto
  have "acting_times (nxt d) acts fst (nxt d r pc) rs = []"
    by (rule stopping_idle) (use assms Cons stop_idle in \<open>auto simp: r\<close>)
  then show ?thesis by (simp add: Cons)
qed simp

lemma spaced:
  assumes "sorted (map fst rs)" and "sorted_wrt (\<lambda>a b. snd a \<longrightarrow> snd b) rs"
    and "\<forall>r\<in>set rs. now \<le> fst r" and "0 \<le> d"
  shows "sorted_wrt (\<lambda>t u. t + d \<le> u) (acting_times (nxt d) acts fst pc rs) \<and>
    (\<forall>t\<in>set (acting_times (nxt d) acts fst pc rs). earliest d now pc \<le> t)"
  using assms
proof (induction rs arbitrary: pc now)
  case (Cons r rs)
  obtain t stop where r: "r = (t, stop)" by (cases r)
  have t: "now \<le> t" using Cons.prems(3) r by simp
  let ?pc = "nxt d r pc"
  have IH: "sorted_wrt (\<lambda>t u. t + d \<le> u) (acting_times (nxt d) acts fst ?pc rs)"
    "\<And>x. x \<in> set (acting_times (nxt d) acts fst ?pc rs) \<Longrightarrow> earliest d t ?pc \<le> x"
    using Cons.IH [of t ?pc] Cons.prems r by auto
  show ?case
  proof (cases "acts pc")
    case True
    then have "t + d \<le> x" if "x \<in> set (acting_times (nxt d) acts fst ?pc rs)" for x
      using IH(2) [OF that] pause [OF Cons.prems(4) True, of t stop] r by simp
    moreover have "earliest d now pc \<le> now" by (rule due [OF True])
    ultimately show ?thesis
      using IH(1) True r t Cons.prems(4) by fastforce
  next
    case False
    have "earliest d now pc \<le> x" if x: "x \<in> set (acting_times (nxt d) acts fst ?pc rs)" for x
    proof (cases stop)
      case True
      then have "acting_times (nxt d) acts fst ?pc rs = []"
        using Cons.prems(2) r stop_idle by (intro stopping_idle) auto
      then show ?thesis using x by simp
    next
      case False
      then show ?thesis
        using IH(2) [OF x] wait [OF t \<open>\<not> acts pc\<close>, of d] r by simp
    qed
    then show ?thesis using IH(1) False by simp
  qed
qed simp

end

end
