(* ===== verification/Server_Runtime.thy ===== *)
theory Server_Runtime
  imports Service_Properties Paced_Loop
begin

text \<open>
  The frame of the server process: \<open>GrpcServerRunner\<close> (\<open>server_runner.cpp\<close>), which hands the
  service and the credentials to the gRPC library and waits, and the loop of the heartbeat sweeper
  (\<open>heartbeat_sweeper.cpp\<close>) with its sleeping and its stop token. The library's \<open>BuildAndStart\<close> is a
  parameter: the port it listens on, or nothing when it fails. For the sweeper every evaluation of a
  condition or of the clock takes one reading of the environment, the steady time and whether a stop
  was requested; what other threads do to the server before it is part of the reading.
\<close>

subsection \<open>The runner\<close>

datatype server_credentials = InsecureServer | SslServer string string

record runner =
  run_bind_address :: string
  run_services :: nat
  run_insecure :: bool
  run_cert_pem :: string
  run_key_pem :: string
  run_server :: "server_credentials option"
  run_bound_address :: string
  run_started :: bool

definition new_runner :: "string \<Rightarrow> runner" where
  "new_runner bind_address =
     \<lparr>run_bind_address = bind_address, run_services = 0, run_insecure = False, run_cert_pem = [], run_key_pem = [],
      run_server = None, run_bound_address = [], run_started = False\<rparr>"

definition add_service :: "runner \<Rightarrow> runner" where
  "add_service r = r\<lparr>run_services := run_services r + 1\<rparr>"

definition set_ssl_credentials :: "string \<Rightarrow> string \<Rightarrow> runner \<Rightarrow> runner" where
  "set_ssl_credentials cert_pem key_pem r =
     r\<lparr>run_insecure := False, run_cert_pem := cert_pem, run_key_pem := key_pem\<rparr>"

definition set_insecure :: "runner \<Rightarrow> runner" where
  "set_insecure r = r\<lparr>run_insecure := True, run_cert_pem := [], run_key_pem := []\<rparr>"

text \<open>\<open>std::to_string\<close> of a port, and the part of the address before its last colon.\<close>

fun decimal :: "nat \<Rightarrow> string" where
  "decimal n = (if n < 10 then [char_of (48 + n)] else decimal (n div 10) @ [char_of (48 + n mod 10)])"

declare decimal.simps [simp del]

definition host_of :: "string \<Rightarrow> string" where
  "host_of address =
     (if CHR '':'' \<in> set address
      then rev (tl (dropWhile (\<lambda>c. c \<noteq> CHR '':'') (rev address)))
      else address)"

text \<open>\<open>run_and_block\<close> until it waits: it returns 1 when the server cannot be started.\<close>

definition run_start ::
  "(string \<Rightarrow> server_credentials \<Rightarrow> nat \<Rightarrow> nat option) \<Rightarrow> runner \<Rightarrow> int option \<times> runner" where
  "run_start build_and_start r =
     (let credentials = (if run_insecure r then InsecureServer else SslServer (run_key_pem r) (run_cert_pem r))
      in case build_and_start (run_bind_address r) credentials (run_services r) of
           None \<Rightarrow> (Some 1, r\<lparr>run_started := False\<rparr>)
         | Some selectedPort \<Rightarrow>
             (None, r\<lparr>run_server := Some credentials,
                run_bound_address := host_of (run_bind_address r) @ '':'' @ decimal selectedPort,
                run_started := True\<rparr>))"

text \<open>After \<open>Wait\<close> has returned.\<close>

definition run_finish :: "runner \<Rightarrow> int \<times> runner" where
  "run_finish r = (0, r\<lparr>run_server := None, run_started := False\<rparr>)"

text \<open>Whether \<open>shutdown\<close> reaches a server; what a waiting thread sees when it is woken.\<close>

definition shutdown_reaches :: "runner \<Rightarrow> bool" where
  "shutdown_reaches r \<longleftrightarrow> run_server r \<noteq> None"

definition wait_until_started :: "runner list \<Rightarrow> bool" where
  "wait_until_started observed = list_ex run_started observed"

text \<open>The end of \<open>run\<close> in \<open>main.cpp\<close>: an exit code, or the state in which the process serves.\<close>

datatype process = Exited int | Waiting runner server "(32 word \<times> 32 word) option"

definition server_main ::
  "'u platform \<Rightarrow> files \<Rightarrow> (string \<Rightarrow> server_credentials \<Rightarrow> nat \<Rightarrow> nat option) \<Rightarrow>
   'u \<Rightarrow> int \<Rightarrow> server_args \<Rightarrow> process" where
  "server_main P files build_and_start u system_now a =
     (case server_run P files u system_now a of
        Exit code \<Rightarrow> Exited code
      | Serving srv tls sweeper \<Rightarrow>
          let r = add_service (new_runner (arg_bind_address a));
              r1 = (case tls of None \<Rightarrow> set_insecure r | Some (cert_pem, key_pem) \<Rightarrow> set_ssl_credentials cert_pem key_pem r)
          in (case run_start build_and_start r1 of
                (Some code, _) \<Rightarrow> Exited code
              | (None, r2) \<Rightarrow> Waiting r2 srv sweeper))"

lemma host_of_port:
  assumes "CHR '':'' \<notin> set port"
  shows "host_of (host @ CHR '':'' # port) = host"
proof -
  have "dropWhile (\<lambda>c. c \<noteq> CHR '':'') (rev port @ CHR '':'' # rev host) = CHR '':'' # rev host"
    using assms by (subst dropWhile_append2) auto
  then show ?thesis by (simp add: host_of_def)
qed

lemma digit_no_colon: "(d :: nat) < 10 \<Longrightarrow> CHR '':'' \<noteq> char_of (48 + d)"
proof
  assume "d < 10" and "CHR '':'' = char_of (48 + d)"
  then have "(of_char CHR '':'' :: nat) = of_char (char_of (48 + d) :: char)" by simp
  with \<open>d < 10\<close> show False by (simp only: of_char_of) simp
qed

lemma decimal_no_colon: "CHR '':'' \<notin> set (decimal n)"
proof (induction n rule: decimal.induct)
  case (1 n)
  then show ?case
    using digit_no_colon [of n] digit_no_colon [of "n mod 10"] by (subst decimal.simps) simp
qed

subsection \<open>The loop of the sweeper\<close>

datatype sweeper_pc =
    SweeperLoop | SweeperArm | SweeperSleep int | SweeperCheck | SweeperRun | SweeperStopped

fun sweeper_next :: "int \<Rightarrow> int \<times> bool \<Rightarrow> sweeper_pc \<Rightarrow> sweeper_pc" where
  "sweeper_next sweep_interval (now, stop) SweeperLoop = (if \<not> stop then SweeperArm else SweeperStopped)"
| "sweeper_next sweep_interval (now, stop) SweeperArm = SweeperSleep (now + sweep_interval)"
| "sweeper_next sweep_interval (now, stop) (SweeperSleep sleep_until_t) =
     (if now < sleep_until_t \<and> \<not> stop then SweeperSleep sleep_until_t else SweeperCheck)"
| "sweeper_next sweep_interval (now, stop) SweeperCheck = (if stop then SweeperStopped else SweeperRun)"
| "sweeper_next sweep_interval (now, stop) SweeperRun = SweeperLoop"
| "sweeper_next sweep_interval (now, stop) SweeperStopped = SweeperStopped"

type_synonym sweeper_reading = "(int \<times> bool) \<times> (server \<Rightarrow> server)"

definition sweeper_step ::
  "'u platform \<Rightarrow> int \<Rightarrow> int \<Rightarrow> sweeper_reading \<Rightarrow> sweeper_pc \<times> server \<Rightarrow> sweeper_pc \<times> server" where
  "sweeper_step P sweep_interval heartbeat_timeout reading st =
     (case (reading, st) of (((now, stop), others), (pc, srv)) \<Rightarrow>
        (sweeper_next sweep_interval (now, stop) pc,
         if pc = SweeperRun then snd (sweep P now heartbeat_timeout (others srv)) else others srv))"

definition sweeper_run ::
  "'u platform \<Rightarrow> int \<Rightarrow> int \<Rightarrow> sweeper_reading list \<Rightarrow> sweeper_pc \<times> server \<Rightarrow> sweeper_pc \<times> server" where
  "sweeper_run P sweep_interval heartbeat_timeout readings st =
     fold (sweeper_step P sweep_interval heartbeat_timeout) readings st"

text \<open>The times at which it sweeps.\<close>

definition sweep_times :: "int \<Rightarrow> sweeper_pc \<Rightarrow> (int \<times> bool) list \<Rightarrow> int list" where
  "sweep_times sweep_interval = acting_times (sweeper_next sweep_interval) (\<lambda>pc. pc = SweeperRun) fst"

text \<open>The sweeper is a paced thread: the earliest time of its next sweep, and the readings it needs to end.\<close>

fun earliest_sweep :: "int \<Rightarrow> int \<Rightarrow> sweeper_pc \<Rightarrow> int" where
  "earliest_sweep interval now SweeperLoop = now + interval"
| "earliest_sweep interval now SweeperArm = now + interval"
| "earliest_sweep interval now (SweeperSleep u) = u"
| "earliest_sweep interval now _ = now"

fun sweeper_rank :: "sweeper_pc \<Rightarrow> nat" where
  "sweeper_rank SweeperStopped = 0"
| "sweeper_rank SweeperLoop = 1"
| "sweeper_rank SweeperCheck = 1"
| "sweeper_rank (SweeperSleep u) = 2"
| "sweeper_rank SweeperRun = 2"
| "sweeper_rank SweeperArm = 3"

interpretation sweeper: paced_thread sweeper_next "\<lambda>pc. pc = SweeperRun" SweeperStopped earliest_sweep sweeper_rank
proof unfold_locales
  fix pc and d t now :: int and stop
  show "pc \<noteq> SweeperStopped \<Longrightarrow> sweeper_rank (sweeper_next d (t, True) pc) < sweeper_rank pc"
    "sweeper_next d (t, True) pc \<noteq> SweeperRun"
    "pc \<noteq> SweeperStopped \<Longrightarrow> sweeper_next d (t, False) pc \<noteq> SweeperStopped"
    "now \<le> t \<Longrightarrow> pc \<noteq> SweeperRun \<Longrightarrow> earliest_sweep d now pc \<le> earliest_sweep d t (sweeper_next d (t, False) pc)"
    by (cases pc; auto)+
qed auto

lemma sweeper_run_pc:
  "fst (sweeper_run P interval timeout readings (pc, srv)) = fold (sweeper_next interval) (map fst readings) pc"
  by (induction readings arbitrary: pc srv) (auto simp: sweeper_run_def sweeper_step_def split: prod.splits)

text \<open>
  C32: the sweeper stops when it is told to, and only then. From any point of its loop, three readings
  that see a stop request end it, with at most one more sweep; and it never ends without one.
\<close>

theorem sweeper_stops:
  assumes "\<forall>r\<in>set stops. snd (fst r)" and "3 \<le> length stops"
  shows "fst (sweeper_run P interval timeout (readings @ stops) (pc, srv)) = SweeperStopped \<and>
     length (sweep_times interval pc (map fst (readings @ stops))) \<le>
       length (sweep_times interval pc (map fst readings)) + 1 \<and>
     (pc \<noteq> SweeperStopped \<longrightarrow> fst (sweeper_run P interval timeout readings (pc, srv)) = SweeperStopped \<longrightarrow>
       (\<exists>r\<in>set readings. snd (fst r)))"
proof -
  have all: "\<forall>r\<in>set (map fst stops). snd r"
    using assms(1) by simp
  have "sweeper_rank pc' \<le> length (map fst stops)" for pc'
    using assms(2) by (cases pc') simp_all
  note three = sweeper.stops [OF all this] sweeper.last_act [OF all]
  have "(\<exists>r\<in>set (map fst readings). snd r) \<longleftrightarrow> (\<exists>r\<in>set readings. snd (fst r))" by simp
  then show ?thesis
    using three sweeper.stop_needed [of interval "map fst readings" pc]
    by (simp add: sweeper_run_pc sweep_times_def acting_times_append)
qed

theorem sweeper_stops_witness:
  "fst (sweeper_run demo_platform 5 90 [((0, False), id), ((1, False), id), ((2, True), id), ((3, True), id), ((4, True), id)]
     (SweeperLoop, demo_server)) = SweeperStopped"
  using sweeper_stops [of "[((2, True), id), ((3, True), id), ((4, True), id)]" demo_platform 5 90
      "[((0, False), id), ((1, False), id)]" SweeperLoop demo_server]
  by simp

text \<open>
  Two sweeps are at least the sweep interval apart, and the first one is at least that long
  after the loop was entered, for a clock that does not run backwards and a stop request that is not
  taken back.
\<close>

theorem sweeper_spacing:
  assumes "sorted (map fst readings)" and "sorted_wrt (\<lambda>a b. snd a \<longrightarrow> snd b) readings"
    and "0 \<le> interval" and "\<forall>r\<in>set readings. start \<le> fst r"
  shows "sorted_wrt (\<lambda>t u. t + interval \<le> u) (sweep_times interval SweeperLoop readings) \<and>
     (\<forall>t\<in>set (sweep_times interval SweeperLoop readings). start + interval \<le> t)"
  using sweeper.spaced [OF assms(1,2,4,3), of SweeperLoop] by (simp add: sweep_times_def)

theorem sweeper_spacing_witness:
  "sweep_times 5 SweeperLoop [(0, False), (0, False), (3, False), (6, False), (6, False), (7, False)] = [7] \<and> (0 :: int) + 5 \<le> 7"
  using sweeper_spacing [of "[(0, False), (0, False), (3, False), (6, False), (6, False), (7, False)]" 5 0]
  by (simp add: sweep_times_def)

subsection \<open>The process\<close>

text \<open>
  C34: the process serves only when the library could listen, with insecure credentials only when
  they were asked for and otherwise with the two files' contents, with the one service registered;
  the address it reports is the host it was told to bind and the port it got. Otherwise it exits
  with code 1.
\<close>

theorem server_main_spec:
  "case server_main P files build_and_start u t a of
     Exited code \<Rightarrow> code = 1
   | Waiting r srv sweeper \<Rightarrow>
       server_inv P srv \<and> run_started r \<and> wait_until_started [r] \<and> shutdown_reaches r \<and>
       (\<exists>creds port. run_server r = Some creds \<and> build_and_start (arg_bind_address a) creds 1 = Some port \<and>
          (case creds of InsecureServer \<Rightarrow> arg_insecure a
           | SslServer key cert \<Rightarrow> \<not> arg_insecure a \<and> files (arg_key_path a) = Some key \<and>
               files (arg_cert_path a) = Some cert) \<and>
          (\<forall>host p. arg_bind_address a = host @ '':'' @ p \<and> CHR '':'' \<notin> set p \<longrightarrow>
             run_bound_address r = host @ '':'' @ decimal port) \<and>
          host_of (run_bound_address r) = host_of (arg_bind_address a)) \<and>
       \<not> shutdown_reaches (snd (run_finish r))"
proof (cases "server_run P files u t a")
  case (Exit code)
  then have "code = 1" by (auto simp: server_run_def read_pem_file_def Let_def split: if_splits sum.splits option.splits)
  then show ?thesis by (simp add: server_main_def Exit)
next
  case (Serving srv tls sweeper)
  then have inv: "server_inv P srv"
    using server_run_serving initial_server_inv(1) by metis
  have tls: "case tls of None \<Rightarrow> arg_insecure a
     | Some (cert, key) \<Rightarrow> \<not> arg_insecure a \<and> files (arg_cert_path a) = Some cert \<and>
         files (arg_key_path a) = Some key"
    using Serving by (auto simp: server_run_def read_pem_file_def Let_def split: if_splits sum.splits option.splits)
  show ?thesis
    using inv tls
    by (cases tls) (auto simp: server_main_def Serving run_start_def new_runner_def add_service_def set_insecure_def
        set_ssl_credentials_def run_finish_def wait_until_started_def shutdown_reaches_def host_of_port
        decimal_no_colon Let_def split: option.splits)
qed

theorem server_main_spec_witness:
  "\<exists>r sweeper. server_main demo_platform Some (\<lambda>address creds n. Some 7) U1 0 demo_args =
      Waiting r demo_server0 sweeper \<and> run_bound_address r = ''0.0.0.0:7''"
proof -
  have seven: "decimal 7 = ''7''" by code_simp
  obtain r sweeper where r: "server_main demo_platform Some (\<lambda>address creds n. Some 7) U1 0 demo_args =
      Waiting r demo_server0 sweeper"
    by (simp add: server_main_def demo_started run_start_def Let_def)
  from server_main_spec [where P = demo_platform and files = Some and u = U1 and t = 0 and a = demo_args and
      build_and_start = "\<lambda>address creds n. Some 7", unfolded r]
  have "\<And>host p. arg_bind_address demo_args = host @ '':'' @ p \<Longrightarrow> CHR '':'' \<notin> set p \<Longrightarrow>
      run_bound_address r = host @ '':'' @ decimal 7"
    by auto
  from this [of "''0.0.0.0''" "''50051''"] show ?thesis
    using r by (simp add: demo_args_def default_args_def seven)
qed

end
