(* ===== verification/Event_Ports.thy ===== *)
theory Event_Ports
  imports Usecase_Properties
begin

text \<open>
  The outbound ports of the use cases. \<open>IMessagePublisher\<close> and \<open>IChannelListPublisher\<close> are interfaces:
  \<open>main.cpp\<close> passes the gRPC publishers, the shorter constructors of \<open>JoinChannel\<close>, \<open>LeaveChannel\<close> and
  \<open>CreateChannel\<close> pass publishers that do nothing. Here the three use cases are functions of the ports.
  With the gRPC ports they are the functions of the theory of use cases; the contract of a port, that
  an event changes no store, is a locale, and whatever satisfies it leads to the same results.
\<close>

record event_ports =
  port_publish :: "client_id \<Rightarrow> message \<Rightarrow> server \<Rightarrow> server"
  port_member_joined :: "channel_id \<Rightarrow> client_id list \<Rightarrow> client_id \<Rightarrow> username \<Rightarrow> server \<Rightarrow> server"
  port_member_left :: "channel_id \<Rightarrow> client_id list \<Rightarrow> client_id \<Rightarrow> username \<Rightarrow> server \<Rightarrow> server"
  port_member_count :: "channel_id \<Rightarrow> 32 word \<Rightarrow> server \<Rightarrow> server"
  port_channel_created :: "channel \<Rightarrow> server \<Rightarrow> server"
  port_unregister :: "client_id \<Rightarrow> server \<Rightarrow> server"
  port_list_register :: "client_id \<Rightarrow> writer option \<Rightarrow> server \<Rightarrow> server"
  port_list_unregister :: "client_id \<Rightarrow> server \<Rightarrow> server"

definition grpc_ports :: "'u platform \<Rightarrow> event_ports" where
  "grpc_ports P =
     \<lparr>port_publish = (\<lambda>i m srv.
        srv\<lparr>srv_publisher := publisher_publish P (Some (srv_clients srv)) i m (srv_publisher srv)\<rparr>),
      port_member_joined = (\<lambda>c rs i n srv.
        srv\<lparr>srv_publisher := publisher_broadcastMemberJoined P c rs i n (srv_publisher srv)\<rparr>),
      port_member_left = (\<lambda>c rs i n srv.
        srv\<lparr>srv_publisher := publisher_broadcastMemberLeft P c rs i n (srv_publisher srv)\<rparr>),
      port_member_count = (\<lambda>c k srv.
        srv\<lparr>srv_list_publisher := list_publishMemberCountChanged c k (srv_list_publisher srv)\<rparr>),
      port_channel_created = (\<lambda>ch srv.
        srv\<lparr>srv_list_publisher := list_publishChannelCreated ch (srv_list_publisher srv)\<rparr>),
      port_unregister = (\<lambda>i srv. srv\<lparr>srv_publisher := publisher_unregisterSubscriber i (srv_publisher srv)\<rparr>),
      port_list_register = (\<lambda>i w srv.
        srv\<lparr>srv_list_publisher :=
          list_registerSubscriberWithSnapshot (srv_channels srv) i w (srv_list_publisher srv)\<rparr>),
      port_list_unregister = (\<lambda>i srv.
        srv\<lparr>srv_list_publisher := list_unregisterSubscriber i (srv_list_publisher srv)\<rparr>)\<rparr>"

text \<open>The null publishers nested in the three use cases.\<close>

definition join_null_ports :: event_ports where
  "join_null_ports = \<lparr>port_publish = (\<lambda>i m srv. srv), port_member_joined = (\<lambda>c rs i n srv. srv),
     port_member_left = (\<lambda>c rs i n srv. srv), port_member_count = (\<lambda>c k srv. srv),
     port_channel_created = (\<lambda>ch srv. srv), port_unregister = (\<lambda>i srv. srv),
     port_list_register = (\<lambda>i w srv. srv), port_list_unregister = (\<lambda>i srv. srv)\<rparr>"

definition leave_null_ports :: event_ports where
  "leave_null_ports = \<lparr>port_publish = (\<lambda>i m srv. srv), port_member_joined = (\<lambda>c rs i n srv. srv),
     port_member_left = (\<lambda>c rs i n srv. srv), port_member_count = (\<lambda>c k srv. srv),
     port_channel_created = (\<lambda>ch srv. srv), port_unregister = (\<lambda>i srv. srv),
     port_list_register = (\<lambda>i w srv. srv), port_list_unregister = (\<lambda>i srv. srv)\<rparr>"

definition leave_null_list_ports :: "event_ports \<Rightarrow> event_ports" where
  "leave_null_list_ports E = E\<lparr>port_member_count := (\<lambda>c k srv. srv), port_channel_created := (\<lambda>ch srv. srv),
     port_list_register := (\<lambda>i w srv. srv), port_list_unregister := (\<lambda>i srv. srv)\<rparr>"

definition create_null_ports :: "event_ports \<Rightarrow> event_ports" where
  "create_null_ports E = E\<lparr>port_member_count := (\<lambda>c k srv. srv), port_channel_created := (\<lambda>ch srv. srv),
     port_list_register := (\<lambda>i w srv. srv), port_list_unregister := (\<lambda>i srv. srv)\<rparr>"

subsection \<open>The use cases over their ports\<close>

definition remove_member_with :: "event_ports \<Rightarrow> session \<Rightarrow> channel_id \<Rightarrow> server \<Rightarrow> unit result \<times> server" where
  "remove_member_with E s channel_id srv =
     (case channels_findById channel_id (srv_channels srv) of
        Inl e \<Rightarrow> (unexpected e, srv)
      | Inr ch \<Rightarrow>
          (case removeMember (sess_id s) ch of
             (Inl e, _) \<Rightarrow> (unexpected e, srv)
           | (Inr _, ch') \<Rightarrow>
               (case channels_save ch' (srv_channels srv) of
                  (Inl e, repo) \<Rightarrow> (unexpected e, srv\<lparr>srv_channels := repo\<rparr>)
                | (Inr _, repo) \<Rightarrow>
                    (Inr (), port_member_left E channel_id (chan_members ch') (sess_id s) (sess_username s)
                       (srv\<lparr>srv_channels := repo\<rparr>)))))"

definition LeaveChannel_with :: "event_ports \<Rightarrow> client_id \<Rightarrow> channel_id \<Rightarrow> server \<Rightarrow> unit result \<times> server" where
  "LeaveChannel_with E client_id channel_id srv =
     (case clients_findById client_id (srv_clients srv) of
        Inl e \<Rightarrow> (unexpected e, srv)
      | Inr s \<Rightarrow>
          (case remove_member_with E s channel_id srv of
             (Inl e, srv1) \<Rightarrow> (unexpected e, srv1)
           | (Inr _, srv1) \<Rightarrow>
               (case clients_leaveChannelAtomic client_id channel_id (srv_clients srv1) of
                  (left, reg) \<Rightarrow>
                    let srv2 = srv1\<lparr>srv_clients := reg\<rparr>
                    in if (case left of Inl e \<Rightarrow> e \<noteq> ClientNotFound | Inr _ \<Rightarrow> False)
                       then (left, srv2)
                       else (case channels_findById channel_id (srv_channels srv2) of
                               Inl e \<Rightarrow> (unexpected e, srv2)
                             | Inr ch \<Rightarrow> (Inr (), port_member_count E channel_id (int32_of_size (memberCount ch)) srv2)))))"

fun leave_each_with :: "event_ports \<Rightarrow> session \<Rightarrow> channel_id list \<Rightarrow> server \<Rightarrow> unit result \<times> server" where
  "leave_each_with E s [] srv = (Inr (), srv)"
| "leave_each_with E s (other_channel_id # rest) srv =
     (case remove_member_with E s other_channel_id srv of
        (removed, srv1) \<Rightarrow>
          if (case removed of Inl e \<Rightarrow> e \<noteq> NotAMember \<and> e \<noteq> ChannelNotFound | Inr _ \<Rightarrow> False)
          then (removed, srv1)
          else
            (case clients_leaveChannelAtomic (sess_id s) other_channel_id (srv_clients srv1) of
               (left, reg) \<Rightarrow>
                 let srv2 = srv1\<lparr>srv_clients := reg\<rparr>
                 in if (case left of Inl e \<Rightarrow> e \<noteq> ClientNotFound | Inr _ \<Rightarrow> False)
                    then (left, srv2)
                    else leave_each_with E s rest
                      (case channels_findById other_channel_id (srv_channels srv2) of
                         Inl e \<Rightarrow> srv2
                       | Inr other \<Rightarrow> port_member_count E other_channel_id (int32_of_size (memberCount other)) srv2)))"

definition JoinChannel_with :: "event_ports \<Rightarrow> client_id \<Rightarrow> channel_id \<Rightarrow> server \<Rightarrow> unit result \<times> server" where
  "JoinChannel_with E client_id channel_id srv =
     (case clients_findById client_id (srv_clients srv) of
        Inl e \<Rightarrow> (unexpected e, srv)
      | Inr s \<Rightarrow>
          (case channels_findById channel_id (srv_channels srv) of
             Inl e \<Rightarrow> (unexpected e, srv)
           | Inr ch \<Rightarrow>
               (case leave_each_with E s (other_channels_loop channel_id (sess_joined s) []) srv of
                  (Inl e, srv1) \<Rightarrow> (unexpected e, srv1)
                | (Inr _, srv1) \<Rightarrow>
                    let was_already_member = hasMember client_id ch
                    in case (if \<not> was_already_member
                             then (case addMember client_id ch of
                                     (Inl e, ch1) \<Rightarrow> (unexpected e, ch1, srv1)
                                   | (Inr _, ch1) \<Rightarrow>
                                       (case channels_save ch1 (srv_channels srv1) of
                                          (saved, repo) \<Rightarrow> (saved, ch1, srv1\<lparr>srv_channels := repo\<rparr>)))
                             else (Inr (), ch, srv1)) of
                         (Inl e, _, srv2) \<Rightarrow> (unexpected e, srv2)
                       | (Inr _, ch1, srv2) \<Rightarrow>
                           (case clients_joinChannelAtomic client_id channel_id (srv_clients srv2) of
                              (Inl e, reg) \<Rightarrow> (unexpected e, srv2\<lparr>srv_clients := reg\<rparr>)
                            | (Inr _, reg) \<Rightarrow>
                                let srv3 = srv2\<lparr>srv_clients := reg\<rparr>
                                in if \<not> was_already_member
                                   then (Inr (), port_member_count E (chan_id ch1) (int32_of_size (memberCount ch1))
                                     (port_member_joined E (chan_id ch1) (chan_members ch1) client_id (sess_username s) srv3))
                                   else (Inr (), srv3)))))"

definition CreateChannel_with ::
  "event_ports \<Rightarrow> 'u platform \<Rightarrow> 'u \<Rightarrow> int \<Rightarrow> client_id \<Rightarrow> string \<Rightarrow> server \<Rightarrow> channel_id result \<times> server" where
  "CreateChannel_with E P u system_now client_id name srv =
     (case clients_findById client_id (srv_clients srv) of
        Inl e \<Rightarrow> (unexpected e, srv)
      | Inr s \<Rightarrow>
          (case ChannelName_create (trim name) of
             None \<Rightarrow> (unexpected InvalidChannelName, srv)
           | Some validated_name \<Rightarrow>
               (case channels_create P u system_now validated_name (srv_channels srv) of
                  (Inl e, repo) \<Rightarrow> (unexpected e, srv\<lparr>srv_channels := repo\<rparr>)
                | (Inr created, repo) \<Rightarrow> (Inr (chan_id created), port_channel_created E created (srv\<lparr>srv_channels := repo\<rparr>)))))"

text \<open>The shorter constructors.\<close>

definition JoinChannel_null :: "client_id \<Rightarrow> channel_id \<Rightarrow> server \<Rightarrow> unit result \<times> server" where
  "JoinChannel_null = JoinChannel_with join_null_ports"

definition LeaveChannel_null :: "client_id \<Rightarrow> channel_id \<Rightarrow> server \<Rightarrow> unit result \<times> server" where
  "LeaveChannel_null = LeaveChannel_with leave_null_ports"

definition LeaveChannel_null_list :: "event_ports \<Rightarrow> client_id \<Rightarrow> channel_id \<Rightarrow> server \<Rightarrow> unit result \<times> server" where
  "LeaveChannel_null_list E = LeaveChannel_with (leave_null_list_ports E)"

definition CreateChannel_null ::
  "event_ports \<Rightarrow> 'u platform \<Rightarrow> 'u \<Rightarrow> int \<Rightarrow> client_id \<Rightarrow> string \<Rightarrow> server \<Rightarrow> channel_id result \<times> server" where
  "CreateChannel_null E = CreateChannel_with (create_null_ports E)"

subsection \<open>With the gRPC ports\<close>

lemma remove_member_with_grpc: "remove_member_with (grpc_ports P) = removeMemberAndBroadcast P"
  by (auto simp: fun_eq_iff remove_member_with_def removeMemberAndBroadcast_def grpc_ports_def channels_save_def
      split: sum.split)

lemma member_count_grpc:
  "port_member_count (grpc_ports P) c (int32_of_size (memberCount ch)) srv = publish_member_count c ch srv"
  by (simp add: grpc_ports_def publish_member_count_def)

lemma leave_each_with_grpc: "leave_each_with (grpc_ports P) s cs srv = leave_each P s cs srv"
  by (induction P s cs srv rule: leave_each.induct)
    (simp_all add: remove_member_with_grpc member_count_grpc Let_def cong: sum.case_cong split: prod.split)

lemma use_cases_grpc:
  "JoinChannel_with (grpc_ports P) i c srv = JoinChannel_execute P i c srv"
  "LeaveChannel_with (grpc_ports P) i c srv = LeaveChannel_execute P i c srv"
  "CreateChannel_with (grpc_ports P) P u t i n srv = CreateChannel_execute P u t i n srv"
proof -
  show "LeaveChannel_with (grpc_ports P) i c srv = LeaveChannel_execute P i c srv"
    unfolding LeaveChannel_with_def LeaveChannel_execute_def remove_member_with_grpc member_count_grpc ..
  show "CreateChannel_with (grpc_ports P) P u t i n srv = CreateChannel_execute P u t i n srv"
    by (auto simp: CreateChannel_with_def CreateChannel_execute_def grpc_ports_def
        split: sum.split option.split prod.split)
  have joined: "port_member_joined (grpc_ports P) c rs i n srv =
      srv\<lparr>srv_publisher := publisher_broadcastMemberJoined P c rs i n (srv_publisher srv)\<rparr>" for c rs i n srv
    by (simp add: grpc_ports_def)
  show "JoinChannel_with (grpc_ports P) i c srv = JoinChannel_execute P i c srv"
    unfolding JoinChannel_with_def JoinChannel_execute_def join_found_def leaveOtherChannels_def
      leave_each_with_grpc member_count_grpc joined ..
qed

subsection \<open>The contract of the ports\<close>

definition same_stores :: "server \<Rightarrow> server \<Rightarrow> bool" where
  "same_stores a b \<longleftrightarrow> srv_channels a = srv_channels b \<and> srv_clients a = srv_clients b \<and> srv_messages a = srv_messages b"

definition alike :: "'r \<times> server \<Rightarrow> 'r \<times> server \<Rightarrow> bool" where
  "alike x y \<longleftrightarrow> fst x = fst y \<and> same_stores (snd x) (snd y)"

lemma alike_Pair [simp]: "alike (r, a) (r', b) \<longleftrightarrow> r = r' \<and> same_stores a b"
  by (simp add: alike_def)

lemma same_storesD:
  "same_stores a b \<Longrightarrow> srv_channels a = srv_channels b" "same_stores a b \<Longrightarrow> srv_clients a = srv_clients b"
  "same_stores a b \<Longrightarrow> srv_messages a = srv_messages b"
  by (simp_all add: same_stores_def)

lemma same_stores_trans: "same_stores a b \<Longrightarrow> same_stores b c \<Longrightarrow> same_stores a c"
  by (simp add: same_stores_def)

lemma same_stores_sym: "same_stores a b \<Longrightarrow> same_stores b a"
  by (simp add: same_stores_def)

lemma same_stores_update [simp]:
  "same_stores a b \<Longrightarrow> same_stores (a\<lparr>srv_channels := r\<rparr>) (b\<lparr>srv_channels := r\<rparr>)"
  "same_stores a b \<Longrightarrow> same_stores (a\<lparr>srv_clients := q\<rparr>) (b\<lparr>srv_clients := q\<rparr>)"
  "same_stores (a\<lparr>srv_publisher := T\<rparr>) a" "same_stores (a\<lparr>srv_list_publisher := L\<rparr>) a" "same_stores a a"
  by (simp_all add: same_stores_def)

locale event_contract =
  fixes E :: event_ports
  assumes joined_keeps: "same_stores (port_member_joined E c rs i n srv) srv"
    and left_keeps: "same_stores (port_member_left E c rs i n srv) srv"
    and count_keeps: "same_stores (port_member_count E c k srv) srv"
    and created_keeps: "same_stores (port_channel_created E ch srv) srv"
    and publish_keeps: "same_stores (port_publish E i m srv) srv"
    and unregister_keeps: "same_stores (port_unregister E i srv) srv"
    and list_register_keeps: "same_stores (port_list_register E i w srv) srv"
    and list_unregister_keeps: "same_stores (port_list_unregister E i srv) srv"
begin

text \<open>Replacing the publisher of the channel list by the null publisher keeps the contract.\<close>

lemma null_list_contract: "event_contract (leave_null_list_ports E)" "event_contract (create_null_ports E)"
  by (unfold_locales; simp add: leave_null_list_ports_def create_null_ports_def joined_keeps left_keeps
    publish_keeps unregister_keeps)+

end

text \<open>A port that says nothing.\<close>

locale silent_contract = event_contract +
  assumes silent: "port_member_joined E c rs i n srv = srv" "port_member_left E c rs i n srv = srv"
    "port_member_count E c k srv = srv" "port_channel_created E ch srv = srv"
begin

abbreviation same_events :: "server \<Rightarrow> server \<Rightarrow> bool" where
  "same_events a b \<equiv> srv_publisher a = srv_publisher b \<and> srv_list_publisher a = srv_list_publisher b"

lemma remove_silent: "same_events (snd (remove_member_with E s c srv)) srv"
  by (simp add: remove_member_with_def silent split: sum.split prod.split)

lemma leave_each_silent: "same_events (snd (leave_each_with E s cs srv)) srv"
proof (induction cs arbitrary: srv)
  case (Cons c cs)
  obtain r srv1 where "remove_member_with E s c srv = (r, srv1)" "same_events srv1 srv"
    using remove_silent [of s c srv] by (cases "remove_member_with E s c srv") simp
  then show ?case
    using Cons.IH by (simp add: silent Let_def split: prod.split sum.split)
qed simp

lemma use_cases_silent:
  "same_events (snd (JoinChannel_with E i c srv)) srv" "same_events (snd (LeaveChannel_with E i c srv)) srv"
  "same_events (snd (CreateChannel_with E P u t i name srv)) srv"
proof -
  show "same_events (snd (JoinChannel_with E i c srv)) srv"
    using leave_each_silent
    by (auto simp: JoinChannel_with_def silent channels_save_def Let_def split: sum.split prod.split)
      (metis snd_conv)+
  show "same_events (snd (LeaveChannel_with E i c srv)) srv"
    using remove_silent
    by (auto simp: LeaveChannel_with_def silent Let_def split: sum.split prod.split) (metis snd_conv)+
  show "same_events (snd (CreateChannel_with E P u t i name srv)) srv"
    by (simp add: CreateChannel_with_def silent split: sum.split prod.split option.split)
qed

end

locale event_pair = first: event_contract E + second: event_contract F for E F
begin

lemma events_alike:
  assumes "same_stores a b"
  shows "same_stores (port_member_joined E c rs i n a) (port_member_joined F c rs i n b)"
    and "same_stores (port_member_left E c rs i n a) (port_member_left F c rs i n b)"
    and "same_stores (port_member_count E c k a) (port_member_count F c k b)"
    and "same_stores (port_channel_created E ch a) (port_channel_created F ch b)"
  using assms first.joined_keeps second.joined_keeps first.left_keeps second.left_keeps first.count_keeps
    second.count_keeps first.created_keeps second.created_keeps same_stores_trans same_stores_sym
  by metis+

lemma remove_alike:
  assumes "same_stores a b"
  shows "alike (remove_member_with E s c a) (remove_member_with F s c b)"
  using assms
  by (auto simp: remove_member_with_def same_storesD [OF assms] events_alike split: sum.split prod.split)

lemma leave_each_alike:
  assumes "same_stores a b"
  shows "alike (leave_each_with E s cs a) (leave_each_with F s cs b)"
  using assms
proof (induction cs arbitrary: a b)
  case (Cons c cs)
  obtain r a1 b1 where removed: "remove_member_with E s c a = (r, a1)" "remove_member_with F s c b = (r, b1)"
    "same_stores a1 b1"
    using remove_alike [OF Cons.prems, of s c]
    by (cases "remove_member_with E s c a"; cases "remove_member_with F s c b") auto
  then show ?case
    using Cons.IH same_storesD [OF removed(3)]
    by (auto simp: Let_def events_alike split: prod.split sum.split)
qed simp

lemma use_cases_alike:
  assumes "same_stores a b"
  shows "alike (JoinChannel_with E i c a) (JoinChannel_with F i c b)"
    and "alike (LeaveChannel_with E i c a) (LeaveChannel_with F i c b)"
    and "alike (CreateChannel_with E P u t i name a) (CreateChannel_with F P u t i name b)"
proof -
  note stores = same_storesD [OF assms]
  show "alike (CreateChannel_with E P u t i name a) (CreateChannel_with F P u t i name b)"
    using assms by (auto simp: CreateChannel_with_def stores events_alike split: sum.split prod.split option.split)
  show "alike (LeaveChannel_with E i c a) (LeaveChannel_with F i c b)"
  proof (cases "clients_findById i (srv_clients b)")
    case (Inr s)
    obtain r a1 b1 where removed: "remove_member_with E s c a = (r, a1)" "remove_member_with F s c b = (r, b1)"
      "same_stores a1 b1"
      using remove_alike [OF assms, of s c]
      by (cases "remove_member_with E s c a"; cases "remove_member_with F s c b") auto
    then show ?thesis
      using Inr same_storesD [OF removed(3)]
      by (auto simp: LeaveChannel_with_def stores Let_def events_alike split: prod.split sum.split)
  qed (use assms in \<open>simp add: LeaveChannel_with_def stores\<close>)
  show "alike (JoinChannel_with E i c a) (JoinChannel_with F i c b)"
  proof (cases "clients_findById i (srv_clients b)")
    case (Inr s)
    obtain r a1 b1 where left: "leave_each_with E s (other_channels_loop c (sess_joined s) []) a = (r, a1)"
      "leave_each_with F s (other_channels_loop c (sess_joined s) []) b = (r, b1)" "same_stores a1 b1"
      using leave_each_alike [OF assms, of s "other_channels_loop c (sess_joined s) []"]
      by (cases "leave_each_with E s (other_channels_loop c (sess_joined s) []) a";
          cases "leave_each_with F s (other_channels_loop c (sess_joined s) []) b") auto
    then show ?thesis
      using Inr assms same_storesD [OF left(3)]
      by (auto simp: JoinChannel_with_def stores Let_def events_alike channels_save_def split: prod.split sum.split)
  qed (use assms in \<open>simp add: JoinChannel_with_def stores\<close>)
qed

end

interpretation grpc_events: event_contract "grpc_ports P" for P
  by unfold_locales (simp_all add: grpc_ports_def)

interpretation join_silence: silent_contract join_null_ports
  by unfold_locales (simp_all add: join_null_ports_def)

interpretation leave_silence: silent_contract leave_null_ports
  by unfold_locales (simp_all add: leave_null_ports_def)

interpretation create_silence: event_contract "create_null_ports (grpc_ports P)" for P
  by (rule grpc_events.null_list_contract)

interpretation leave_list_silence: event_contract "leave_null_list_ports (grpc_ports P)" for P
  by (rule grpc_events.null_list_contract)

interpretation join_pair: event_pair join_null_ports "grpc_ports P" for P
  by unfold_locales

interpretation leave_pair: event_pair leave_null_ports "grpc_ports P" for P
  by unfold_locales

interpretation leave_list_pair: event_pair "leave_null_list_ports (grpc_ports P)" "grpc_ports P" for P
  by unfold_locales

interpretation create_pair: event_pair "create_null_ports (grpc_ports P)" "grpc_ports P" for P
  by unfold_locales

subsection \<open>Property\<close>

text \<open>
  The publishers only report. With the null publishers of the shorter constructors, joining,
  leaving and creating channels give the results and the stores they give with the publishers of the
  running server, and joining and leaving write no event at all.
\<close>

theorem null_publishers_equivalent:
  "alike (JoinChannel_null i c srv) (JoinChannel_execute P i c srv) \<and>
   alike (LeaveChannel_null i c srv) (LeaveChannel_execute P i c srv) \<and>
   alike (LeaveChannel_null_list (grpc_ports P) i c srv) (LeaveChannel_execute P i c srv) \<and>
   alike (CreateChannel_null (grpc_ports P) P u t i name srv) (CreateChannel_execute P u t i name srv) \<and>
   srv_publisher (snd (JoinChannel_null i c srv)) = srv_publisher srv \<and>
   srv_list_publisher (snd (JoinChannel_null i c srv)) = srv_list_publisher srv \<and>
   srv_publisher (snd (LeaveChannel_null i c srv)) = srv_publisher srv \<and>
   srv_list_publisher (snd (LeaveChannel_null i c srv)) = srv_list_publisher srv"
  using join_pair.use_cases_alike(1) [OF same_stores_update(5), of i c srv P]
    leave_pair.use_cases_alike(2) [OF same_stores_update(5), of i c srv P]
    leave_list_pair.use_cases_alike(2) [OF same_stores_update(5), of P i c srv]
    create_pair.use_cases_alike(3) [OF same_stores_update(5), of P P u t i name srv]
    join_silence.use_cases_silent(1) leave_silence.use_cases_silent(2)
  unfolding use_cases_grpc JoinChannel_null_def LeaveChannel_null_def LeaveChannel_null_list_def CreateChannel_null_def
  by blast

end
