(* ===== verification/Ownership.thy ===== *)
theory Ownership
  imports System_Invariant
begin

text \<open>
  Who can move whom. A client's session and its place in the chat change only through calls made in
  its own name, or because it stopped sending heartbeats.
\<close>

text \<open>What the handlers do to a client that did not call.\<close>

definition stays :: "client_id \<Rightarrow> server \<Rightarrow> server \<Rightarrow> bool" where
  "stays i srv srv' \<longleftrightarrow> user (abs_chat srv') i = user (abs_chat srv) i \<and> place (abs_chat srv') i = place (abs_chat srv) i"

lemma stays_refl [simp]: "stays i srv srv"
  by (simp add: stays_def)

lemma stays_abs: "abs_chat srv' = abs_chat srv \<Longrightarrow> stays i srv srv'"
  by (simp add: stays_def del: abs_chat_sel)

lemma others_stay:
  assumes "(r, abs_chat srv') = chat_join j c (abs_chat srv) \<or> (q, abs_chat srv') = chat_leave j c (abs_chat srv) \<or>
      (q, abs_chat srv') = chat_quit j (abs_chat srv)" and "i \<noteq> j"
  shows "stays i srv srv'"
proof -
  have "user (abs_chat srv') i = user (abs_chat srv) i" "place (abs_chat srv') i = place (abs_chat srv) i"
    using assms by (auto simp: chat_join_def chat_leave_def chat_quit_def simp del: abs_chat_sel split: if_splits)
  then show ?thesis unfolding stays_def by blast
qed

lemma join_stays:
  assumes inv: "server_inv P srv" and other: "strong_id_parse P (trim ci) \<noteq> Some i"
  shows "stays i srv (snd (JoinChannel P ci ch srv))"
proof (cases "strong_id_parse P (trim ci) :: client_id option")
  case (Some j)
  then have ij: "i \<noteq> j" using other by auto
  have by_id: "stays i srv srv'" if "JoinChannel_execute P j c srv = (r, srv')" for c r srv'
    using JoinChannel_refines(2) [OF inv, of j c] that others_stay [OF disjI1 ij] by (simp del: abs_chat_sel)
  have by_name: "stays i srv srv'" if run: "JoinChannel_executeByName P j n srv = (r, srv')" for n r srv'
  proof -
    have "srv' = srv \<or> (\<exists>d. chat_join j d (abs_chat srv) = (Inr (), abs_chat srv'))"
      using JoinByName_refines(2) [OF inv, of j n] by (cases r) (auto simp: run)
    then show ?thesis
      using others_stay [OF disjI1 ij, where r = "Inr ()"] by (metis stays_refl)
  qed
  show ?thesis
    using by_id by_name by (auto simp: JoinChannel_def Some Let_def split: option.splits sum.splits prod.splits)
qed (simp add: JoinChannel_def)

lemma leave_stays:
  assumes inv: "server_inv P srv" and other: "strong_id_parse P (trim ci) \<noteq> Some i"
  shows "stays i srv (snd (LeaveChannel P ci ch srv))"
proof (cases "strong_id_parse P (trim ci) :: client_id option")
  case (Some j)
  then have ij: "i \<noteq> j" using other by auto
  have "stays i srv srv'" if "LeaveChannel_execute P j c srv = (r, srv')" for c r srv'
    using LeaveChannel_refines(2) [OF inv, of j c] that others_stay [OF disjI2 [OF disjI1] ij] by (simp del: abs_chat_sel)
  then show ?thesis
    by (auto simp: LeaveChannel_def Some Let_def split: option.splits sum.splits prod.splits)
qed (simp add: LeaveChannel_def)

lemma disconnect_stays:
  assumes inv: "server_inv P srv" and other: "strong_id_parse P (trim ci) \<noteq> Some i"
  shows "stays i srv (snd (Disconnect P ci srv))"
  using Disconnect_refines(2) [OF inv, of ci] other others_stay [OF disjI2 [OF disjI2]] by auto

lemma create_stays:
  assumes inv: "server_inv P srv" and fresh: "fresh_uuid P u srv"
  shows "stays i srv (snd (CreateChannel P u t ci n srv))"
proof -
  have "stays i srv srv'" if run: "CreateChannel_execute P u t j m srv = (r, srv')" for j m r srv'
    using CreateChannel_refines(2) [OF inv fresh, of t j m]
    by (auto simp: run stays_def chat_create_def simp del: abs_chat_sel split: if_splits)
  then show ?thesis
    by (auto simp: CreateChannel_def Let_def split: option.splits sum.splits prod.splits)
qed

lemma send_stays:
  assumes inv: "server_inv P srv" and fresh: "fresh_uuid P u srv"
  shows "stays i srv (snd (SendMessage P u t ci ch body srv))"
proof -
  have "stays i srv srv'" if run: "SendMessage_execute P u t j c m IncludeSender srv = (r, srv')" for j c m r srv'
    using SendMessage_refines(2) [OF inv fresh, of t j c m IncludeSender]
    by (auto simp: run stays_def chat_send_def chat_post_def Let_def simp del: abs_chat_sel split: if_splits sum.splits)
  then show ?thesis
    by (auto simp: SendMessage_def Let_def split: option.splits sum.splits prod.splits)
qed

lemma connect_stays:
  assumes inv: "server_inv P srv" and fresh: "fresh_uuid P u srv" and other: "i \<noteq> strong_id_generate P u"
  shows "stays i srv (snd (Connect P u t t' n srv))"
proof (cases "status_code (fst (fst (Connect P u t t' n srv))) = OK")
  case True
  then have "abs_chat (snd (Connect P u t t' n srv)) =
      snd (chat_enter (strong_id_generate P u) (Username (trim n)) (abs_chat srv))"
    using Connect_refines(5) [OF inv fresh, of t t' n] by blast
  then show ?thesis
    using other by (simp add: stays_def chat_enter_def del: abs_chat_sel)
next
  case False
  then show ?thesis using Connect_refines(3) [OF inv fresh] by simp
qed

lemma heartbeat_stays:
  assumes inv: "server_inv P srv"
  shows "stays i srv (snd (Heartbeat P t ci srv))"
proof -
  have "stays i srv (srv\<lparr>srv_clients := reg\<rparr>)" if "clients_touchHeartbeat t j (srv_clients srv) = (r, reg)" for j r reg
    by (rule stays_abs [OF heartbeat_refines(2) [OF inv that]])
  then show ?thesis
    by (auto simp: Heartbeat_def split: option.splits sum.splits prod.splits)
qed

text \<open>
  C6: clients move themselves. If a step changes a client's name or place, then it is the \<open>Connect\<close> that
  created the client, or a call to join, leave or disconnect made with the client's own identifier,
  or a pass of the sweeper at a time at which the client's last heartbeat was older than the timeout;
  calls of other clients never do.
\<close>

theorem clients_move_themselves:
  assumes reach: "reaches (sys_start P) (sys_step P) s" and step: "sys_step P s s'"
    and changed: "user (abs_chat (sys_server s')) i \<noteq> user (abs_chat (sys_server s)) i \<or>
      place (abs_chat (sys_server s')) i \<noteq> place (abs_chat (sys_server s)) i"
  shows "(\<exists>u t t' n. i = strong_id_generate P u \<and> user (abs_chat (sys_server s)) i = None \<and>
       sys_server s' = snd (Connect P u t t' n (sys_server s))) \<or>
    (\<exists>ci ch. strong_id_parse P (trim ci) = Some i \<and>
       sys_server s' \<in> {snd (JoinChannel P ci ch (sys_server s)), snd (LeaveChannel P ci ch (sys_server s)),
         snd (Disconnect P ci (sys_server s))}) \<or>
    (\<exists>now timeout x. sys_server s' = snd (sweep P now timeout (sys_server s)) \<and>
       clients_findById i (srv_clients (sys_server s)) = Inr x \<and> sess_last_heartbeat x < now - timeout)"
proof -
  have inv: "sys_inv P s" using reach by (rule server_system.reaches_inv)
  then have srv: "server_inv P (sys_server s)" and contract: "uuid_contract P"
    by (simp_all add: sys_inv_def)
  have moved: "\<not> stays i (sys_server s) (sys_server s')"
    using changed by (simp add: stays_def del: abs_chat_sel)
  show ?thesis
    using step
  proof cases
    case (connect u t t' n)
    have "i = strong_id_generate P u"
      using moved connect_stays [OF srv connect(2)] by (auto simp: connect(1))
    moreover from this have "user (abs_chat (sys_server s)) i = None"
      using connect(2) by (simp add: fresh_uuid_def strong_id_generate_def)
    ultimately show ?thesis
      using connect(1) by (intro disjI1 exI conjI) simp_all
  next
    case (disconnect ci)
    then show ?thesis using moved disconnect_stays [OF srv, of ci i] by auto
  next
    case (create_channel u t ci n)
    then show ?thesis using moved create_stays [OF srv create_channel(2)] by simp
  next
    case (join_channel ci ch)
    then show ?thesis using moved join_stays [OF srv, of ci i] by auto
  next
    case (leave_channel ci ch)
    then show ?thesis using moved leave_stays [OF srv, of ci i] by auto
  next
    case (send_message u t ci ch body)
    then show ?thesis using moved send_stays [OF srv send_message(2)] by simp
  next
    case (heartbeat t' ci)
    then show ?thesis using moved heartbeat_stays [OF srv] by simp
  next
    case (subscribe_open w ci j ch srv')
    then show ?thesis
      using moved stays_abs [OF subscribe_open_effect(4) [OF contract srv subscribe_open(3,4)]] by simp
  next
    case (subscribe_rejected w ci ch status srv')
    then show ?thesis
      using moved stays_abs [OF subscribe_rejected_effect(2) [OF contract srv subscribe_rejected(3)]] by simp
  next
    case (subscribe_close w j)
    then show ?thesis
      using moved by (simp add: stays_def SubscribeToChannel_close_def abs_chat_def)
  next
    case (list_open w ci j srv')
    then show ?thesis
      using moved by (auto simp: stays_def SubscribeToChannelList_open_def SubscribeToChannelList_execute_def
          split: option.splits sum.splits prod.splits)
  next
    case (list_rejected w ci status srv')
    then show ?thesis using moved list_open_effect(4) [OF contract srv list_rejected(3)] by simp
  next
    case (list_close w j)
    then show ?thesis
      using moved by (simp add: stays_def SubscribeToChannelList_close_def abs_chat_def)
  next
    case (sweep_pass now timeout)
    have "abs_chat (sys_server s') = chat_expire (expired_ids (now - timeout) (srv_clients (sys_server s))) (abs_chat (sys_server s))"
      using ExpireInactive_refines(3) [OF srv refl] by (simp add: sweep_pass sweep_def)
    then have "i \<in> expired_ids (now - timeout) (srv_clients (sys_server s))"
      using moved by (auto simp: stays_def chat_expire_def simp del: abs_chat_sel split: if_splits)
    then show ?thesis
      using sweep_pass by (auto simp: expired_ids_def isExpired_def clients_findById_Inr)
  next
    case (reorder srv')
    then show ?thesis
      using moved stays_abs [OF perm_effect(2) [OF srv reorder(2)]] by simp
  qed
qed

theorem clients_move_themselves_witness:
  "place (abs_chat demo_server) demo_alice \<noteq> place (abs_chat demo_server1) demo_alice \<and>
   ((\<exists>u t t' n. demo_alice = strong_id_generate demo_platform u \<and> user (abs_chat demo_server1) demo_alice = None \<and>
       demo_server = snd (Connect demo_platform u t t' n demo_server1)) \<or>
    (\<exists>ci ch. strong_id_parse demo_platform (trim ci) = Some demo_alice \<and>
       demo_server \<in> {snd (JoinChannel demo_platform ci ch demo_server1), snd (LeaveChannel demo_platform ci ch demo_server1),
         snd (Disconnect demo_platform ci demo_server1)}) \<or>
    (\<exists>now timeout x. demo_server = snd (sweep demo_platform now timeout demo_server1) \<and>
       clients_findById demo_alice (srv_clients demo_server1) = Inr x \<and> sess_last_heartbeat x < now - timeout))"
proof -
  have moved: "place (abs_chat demo_server) demo_alice \<noteq> place (abs_chat demo_server1) demo_alice"
    by (simp add: demo_server_inv(2) demo_server1_inv(2) demo_server0_inv(2) empty_server_abs del: abs_chat_sel)
  then show ?thesis
    using clients_move_themselves [OF demo_reachable1 demo_join_step, of demo_alice] by (simp add: demo_system_def)
qed

end
