(* ===== verification/Tasks.thy ===== *)
theory Tasks
  imports Prelude
begin

text \<open>
  Code that runs while other threads run. A task is a computation cut at its accesses to the shared
  state: it has returned, or it does one atomic access and goes on with what it has read, or it first
  draws a fresh value from the environment for that access. A task that nothing disturbs is a function
  of the state, by \<open>run_alone\<close>. The locale \<open>rely_guarantee\<close> is the logic in which the tasks are proved:
  each access keeps an invariant and a relation between the states that all tasks promise each other,
  and what a task knows about the state it must know again after any steps of the others.
\<close>

datatype ('e, 's, 'r) task =
    Returned 'r
  | Access "'s \<Rightarrow> ('e, 's, 'r) task \<times> 's"
  | Draw "'e \<Rightarrow> 's \<Rightarrow> ('e, 's, 'r) task \<times> 's"

primrec and_then :: "('e, 's, 'a) task \<Rightarrow> ('a \<Rightarrow> ('e, 's, 'r) task) \<Rightarrow> ('e, 's, 'r) task" where
  "and_then (Returned a) k = k a"
| "and_then (Access f) k = Access (\<lambda>s. map_prod (\<lambda>t. and_then t k) id (f s))"
| "and_then (Draw f) k = Draw (\<lambda>e s. map_prod (\<lambda>t. and_then t k) id (f e s))"

definition access :: "('s \<Rightarrow> 'a \<times> 's) \<Rightarrow> ('a \<Rightarrow> ('e, 's, 'r) task) \<Rightarrow> ('e, 's, 'r) task" where
  "access f k = Access (\<lambda>s. case f s of (a, s') \<Rightarrow> (k a, s'))"

definition draw :: "('e \<Rightarrow> 's \<Rightarrow> 'a \<times> 's) \<Rightarrow> ('a \<Rightarrow> ('e, 's, 'r) task) \<Rightarrow> ('e, 's, 'r) task" where
  "draw f k = Draw (\<lambda>e s. case f e s of (a, s') \<Rightarrow> (k a, s'))"

fun for_each :: "('a \<Rightarrow> ('e, 's, unit) task) \<Rightarrow> 'a list \<Rightarrow> ('e, 's, unit) task" where
  "for_each body [] = Returned ()"
| "for_each body (x # xs) = and_then (body x) (\<lambda>_. for_each body xs)"

primrec run_alone :: "'e \<Rightarrow> ('e, 's, 'r) task \<Rightarrow> 's \<Rightarrow> 'r \<times> 's" where
  "run_alone e (Returned r) = (\<lambda>s. (r, s))"
| "run_alone e (Access f) = (\<lambda>s. case map_prod (run_alone e) id (f s) of (g, s') \<Rightarrow> g s')"
| "run_alone e (Draw f) = (\<lambda>s. case map_prod (run_alone e) id (f e s) of (g, s') \<Rightarrow> g s')"

lemma run_access [simp]: "run_alone e (access f k) s = (case f s of (a, s') \<Rightarrow> run_alone e (k a) s')"
  by (simp add: access_def split: prod.split)

lemma run_draw [simp]: "run_alone e (draw f k) s = (case f e s of (a, s') \<Rightarrow> run_alone e (k a) s')"
  by (simp add: draw_def split: prod.split)

lemma run_and_then [simp]:
  "run_alone e (and_then t k) s = (case run_alone e t s of (a, s') \<Rightarrow> run_alone e (k a) s')"
proof (induction t arbitrary: s)
  case (Access f)
  obtain t s' where f: "f s = (t, s')" by fastforce
  have "(t, s') \<in> range f" using f by (metis rangeI)
  from Access.IH [OF this, of t s'] show ?case by (simp add: f Basic_BNFs.fsts.simps)
next
  case (Draw f)
  obtain t s' where f: "f e s = (t, s')" by fastforce
  have "f e \<in> range f" "(t, s') \<in> range (f e)" using f by (metis rangeI)+
  from Draw.IH [OF this, of t s'] show ?case by (simp add: f Basic_BNFs.fsts.simps)
qed simp

lemma run_for_each:
  "snd (run_alone e (for_each body xs) s) = fold (\<lambda>x s. snd (run_alone e (body x) s)) xs s"
  by (induction xs arbitrary: s) (simp_all split: prod.split)

subsection \<open>Many tasks\<close>

text \<open>
  A step of a system of tasks: a new task of the allowed ones arrives, or some task takes its next
  step. What is drawn is fresh at that moment.
\<close>

inductive tasks_step ::
  "('e \<Rightarrow> 's \<Rightarrow> bool) \<Rightarrow> ('e, 's, 'r) task set \<Rightarrow> ('e, 's, 'r) task list \<times> 's \<Rightarrow> ('e, 's, 'r) task list \<times> 's \<Rightarrow> bool"
  for fresh :: "'e \<Rightarrow> 's \<Rightarrow> bool" and allowed :: "('e, 's, 'r) task set" where
  arrives: "t \<in> allowed \<Longrightarrow> tasks_step fresh allowed (ts, s) (ts @ [t], s)"
| accesses: "k < length ts \<Longrightarrow> ts ! k = Access f \<Longrightarrow> f s = (t, s') \<Longrightarrow>
    tasks_step fresh allowed (ts, s) (ts[k := t], s')"
| draws: "k < length ts \<Longrightarrow> ts ! k = Draw f \<Longrightarrow> fresh e s \<Longrightarrow> f e s = (t, s') \<Longrightarrow>
    tasks_step fresh allowed (ts, s) (ts[k := t], s')"

text \<open>A task that draws nothing can take all its steps at once while the others stand still.\<close>

inductive drawless :: "('e, 's, 'r) task \<Rightarrow> bool" where
  drawless_Returned: "drawless (Returned r)"
| drawless_Access: "(\<And>s. drawless (fst (f s))) \<Longrightarrow> drawless (Access f)"

lemma drawless_and_then: "drawless t \<Longrightarrow> (\<And>a. drawless (k a)) \<Longrightarrow> drawless (and_then t k)"
  by (induction rule: drawless.induct) (auto intro!: drawless.intros)

lemma drawless_access: "(\<And>a. drawless (k a)) \<Longrightarrow> drawless (access f k)"
  unfolding access_def by (auto intro!: drawless_Access split: prod.split)

lemma drawless_for_each: "(\<And>x. drawless (body x)) \<Longrightarrow> drawless (for_each body xs)"
  by (induction xs) (auto intro!: drawless_Returned drawless_and_then)

lemmas drawless_rules = drawless_Returned drawless_and_then drawless_access drawless_for_each

lemma step_access:
  "k < length ts \<Longrightarrow> ts ! k = access f g \<Longrightarrow> f s = (a, s') \<Longrightarrow> tasks_step fresh allowed (ts, s) (ts[k := g a], s')"
  by (auto simp: access_def intro!: accesses)

lemma step_draw:
  assumes "k < length ts" and "ts ! k = draw f g" and "fresh e s" and "f e s = (a, s')"
  shows "tasks_step fresh allowed (ts, s) (ts[k := g a], s')"
proof (rule draws [where fresh = fresh, OF assms(1) assms(2) [unfolded draw_def] assms(3)])
  show "(case f e s of (a, s') \<Rightarrow> (g a, s')) = (g a, s')" by (simp add: assms(4))
qed

lemma run_to_end:
  assumes "drawless t" and "k < length ts" and "run_alone e t s = (r, s')"
  shows "rtranclp (tasks_step fresh allowed) (ts[k := t], s) (ts[k := Returned r], s')"
  using assms
proof (induction arbitrary: s rule: drawless.induct)
  case (drawless_Access f)
  obtain t s1 where f: "f s = (t, s1)" by fastforce
  have "tasks_step fresh allowed (ts[k := Access f], s) (ts[k := t], s1)"
    using accesses [of k "ts[k := Access f]" f s t s1] f drawless_Access.prems(1) by simp
  moreover have "run_alone e t s1 = (r, s')"
    using drawless_Access.prems(2) f by simp
  then have "rtranclp (tasks_step fresh allowed) (ts[k := t], s1) (ts[k := Returned r], s')"
    using drawless_Access.IH [of s s1] f drawless_Access.prems(1) by simp
  ultimately show ?case by (rule converse_rtranclp_into_rtranclp)
qed simp

text \<open>Putting tasks after each other keeps their first access.\<close>

lemma and_then_access: "and_then (access f k) k' = access f (\<lambda>a. and_then (k a) k')"
  by (simp add: access_def fun_eq_iff split: prod.split)

lemma and_then_draw: "and_then (draw f k) k' = draw f (\<lambda>a. and_then (k a) k')"
  by (simp add: draw_def fun_eq_iff split: prod.split)

lemma and_then_assoc: "and_then (and_then t f) g = and_then t (\<lambda>a. and_then (f a) g)"
proof (induction t)
  case (Access h)
  have "and_then (and_then (fst (h s)) f) g = and_then (fst (h s)) (\<lambda>a. and_then (f a) g)" for s
    using Access.IH [of "h s" "fst (h s)"] by (cases "h s") (simp add: Basic_BNFs.fsts.simps, metis rangeI)
  then show ?case by (simp add: fun_eq_iff map_prod_def case_prod_unfold)
next
  case (Draw h)
  have "and_then (and_then (fst (h e s)) f) g = and_then (fst (h e s)) (\<lambda>a. and_then (f a) g)" for e s
    using Draw.IH [of "h e" "h e s" "fst (h e s)"] by (cases "h e s") (simp add: Basic_BNFs.fsts.simps, metis rangeI)
  then show ?case by (simp add: fun_eq_iff map_prod_def case_prod_unfold)
qed simp

locale rely_guarantee =
  fixes inv :: "'s \<Rightarrow> bool" and rel :: "'s \<Rightarrow> 's \<Rightarrow> bool" and fresh :: "'e \<Rightarrow> 's \<Rightarrow> bool"
  assumes rel_refl: "rel s s" and rel_trans: "rel s s' \<Longrightarrow> rel s' s'' \<Longrightarrow> rel s s''"
begin

text \<open>\<open>good s t Q\<close>: from the state \<open>s\<close> on the task keeps to the rules, and \<open>Q\<close> holds when it returns and later.\<close>

inductive good :: "'s \<Rightarrow> ('e, 's, 'r) task \<Rightarrow> ('r \<Rightarrow> 's \<Rightarrow> bool) \<Rightarrow> bool" where
  good_Returned: "(\<And>s'. rel s s' \<Longrightarrow> inv s' \<Longrightarrow> Q r s') \<Longrightarrow> good s (Returned r) Q"
| good_Access: "(\<And>s'. rel s s' \<Longrightarrow> inv s' \<Longrightarrow>
      rel s' (snd (f s')) \<and> inv (snd (f s')) \<and> good (snd (f s')) (fst (f s')) Q) \<Longrightarrow> good s (Access f) Q"
| good_Draw: "(\<And>s' e. rel s s' \<Longrightarrow> inv s' \<Longrightarrow> fresh e s' \<Longrightarrow>
      rel s' (snd (f e s')) \<and> inv (snd (f e s')) \<and> good (snd (f e s')) (fst (f e s')) Q) \<Longrightarrow> good s (Draw f) Q"

inductive_cases good_ReturnedE: "good s (Returned r) Q"
inductive_cases good_AccessE: "good s (Access f) Q"
inductive_cases good_DrawE: "good s (Draw f) Q"

lemma good_returned: "good s (Returned r) Q \<Longrightarrow> inv s \<Longrightarrow> Q r s"
  by (erule good_ReturnedE) (use rel_refl in blast)

lemma good_later: "good s t Q \<Longrightarrow> rel s s' \<Longrightarrow> good s' t Q"
  by (erule good.cases) (auto intro!: good.intros dest: rel_trans)

lemma good_and_then:
  assumes "good s t Q" and "\<And>a s'. rel s s' \<Longrightarrow> inv s' \<Longrightarrow> Q a s' \<Longrightarrow> good s' (k a) Q'" and "inv s"
  shows "good s (and_then t k) Q'"
  using assms
proof (induction rule: good.induct)
  case (good_Returned s Q r)
  then show ?case using rel_refl by simp
next
  case (good_Access s f Q)
  have "good (snd (f s')) (and_then (fst (f s')) k) Q'" if s': "rel s s'" "inv s'" for s'
  proof -
    note step = good_Access(1) [OF s']
    have "good s'' (k a) Q'" if "rel (snd (f s')) s''" "inv s''" "Q a s''" for a s''
      using good_Access.prems(1) that step rel_trans s'(1) by blast
    then show ?thesis using step by blast
  qed
  then show ?case using good_Access(1) by (auto intro!: good.good_Access)
next
  case (good_Draw s f Q)
  have "good (snd (f e s')) (and_then (fst (f e s')) k) Q'" if s': "rel s s'" "inv s'" "fresh e s'" for s' e
  proof -
    note step = good_Draw(1) [OF s']
    have "good s'' (k a) Q'" if "rel (snd (f e s')) s''" "inv s''" "Q a s''" for a s''
      using good_Draw.prems(1) that step rel_trans s'(1) by blast
    then show ?thesis using step by blast
  qed
  then show ?case using good_Draw(1) by (auto intro!: good.good_Draw)
qed

lemma good_access:
  assumes "\<And>s' a s''. rel s s' \<Longrightarrow> inv s' \<Longrightarrow> f s' = (a, s'') \<Longrightarrow> rel s' s'' \<and> inv s'' \<and> good s'' (k a) Q"
  shows "good s (access f k) Q"
  unfolding access_def using assms by (intro good_Access) (auto split: prod.split)

lemma good_draw:
  assumes "\<And>s' e a s''. rel s s' \<Longrightarrow> inv s' \<Longrightarrow> fresh e s' \<Longrightarrow> f e s' = (a, s'') \<Longrightarrow>
      rel s' s'' \<and> inv s'' \<and> good s'' (k a) Q"
  shows "good s (draw f k) Q"
  unfolding draw_def using assms by (intro good_Draw) (auto split: prod.split)

lemma good_for_each:
  assumes "inv s" and "\<And>x s'. x \<in> set xs \<Longrightarrow> rel s s' \<Longrightarrow> inv s' \<Longrightarrow> good s' (body x) (\<lambda>_ _. True)"
  shows "good s (for_each body xs) (\<lambda>_ _. True)"
  using assms
proof (induction xs arbitrary: s)
  case (Cons x xs)
  show ?case
  proof (simp, rule good_and_then)
    show "good s (body x) (\<lambda>_ _. True)" using Cons.prems rel_refl by simp
    show "good s' (for_each body xs) (\<lambda>_ _. True)" if "rel s s'" "inv s'" for s'
      using Cons.IH [OF that(2)] Cons.prems(2) rel_trans [OF that(1)] by simp
    show "inv s" by (rule Cons.prems)
  qed
qed (auto intro: good_Returned)

text \<open>What no step undoes holds after any task that it held before.\<close>

lemma good_keeps:
  assumes "good s t Q" and "R s" and stable: "\<And>s s'. R s \<Longrightarrow> rel s s' \<Longrightarrow> R s'"
  shows "good s t (\<lambda>r s'. Q r s' \<and> R s')"
  using assms(1,2)
proof (induction rule: good.induct)
  case (good_Returned s Q r)
  then show ?case using stable by (auto intro!: good.good_Returned)
next
  case (good_Access s f Q)
  then show ?case using stable rel_trans by (intro good.good_Access) blast
next
  case (good_Draw s f Q)
  then show ?case using stable rel_trans by (intro good.good_Draw) blast
qed

lemma good_for_each_does:
  assumes "inv s" and "x \<in> set xs" and stable: "\<And>s s'. R s \<Longrightarrow> rel s s' \<Longrightarrow> R s'"
    and "\<And>y s'. y \<in> set xs \<Longrightarrow> rel s s' \<Longrightarrow> inv s' \<Longrightarrow> good s' (body y) (\<lambda>_ _. True)"
    and "\<And>s'. rel s s' \<Longrightarrow> inv s' \<Longrightarrow> good s' (body x) (\<lambda>_. R)"
  shows "good s (for_each body xs) (\<lambda>_. R)"
  using assms(1,2,4,5)
proof (induction xs arbitrary: s)
  case (Cons y ys)
  have rest: "good s' (for_each body ys) (\<lambda>_ _. True)" if "rel s s'" "inv s'" for s'
    using that Cons.prems(3) rel_trans by (intro good_for_each) auto
  show ?case
  proof (cases "y = x")
    case True
    have "good s' (for_each body ys) (\<lambda>_. R)" if "rel s s'" "inv s'" "R s'" for s'
      using good_keeps [where R = R, OF rest [OF that(1,2)] that(3) stable] by simp
    then show ?thesis
      using good_and_then [of s "body x" "\<lambda>_. R" "\<lambda>_. for_each body ys"] Cons.prems(4) [OF rel_refl] Cons.prems(1) True by simp
  next
    case False
    then have "x \<in> set ys" using Cons.prems(2) by simp
    then have "good s' (for_each body ys) (\<lambda>_. R)" if "rel s s'" "inv s'" for s'
      using Cons.IH [OF that(2)] Cons.prems(3,4) rel_trans [OF that(1)] by auto
    then show ?thesis
      using good_and_then [of s "body y" "\<lambda>_ _. True" "\<lambda>_. for_each body ys"] Cons.prems(3) [OF _ rel_refl] Cons.prems(1) by simp
  qed
qed simp

text \<open>
  Tasks that are good alone are good together, however they interleave: at every moment each of those
  that were there at the start is on its way to its postcondition.
\<close>

lemma together:
  assumes "rtranclp (tasks_step fresh allowed) (ts0, s0) (ts, s)" and "inv s0"
    and "\<And>k. k < length ts0 \<Longrightarrow> good s0 (ts0 ! k) (Q k)"
    and "\<And>s t k. t \<in> allowed \<Longrightarrow> rel s0 s \<Longrightarrow> inv s \<Longrightarrow> length ts0 \<le> k \<Longrightarrow> good s t (Q k)"
  shows "inv s \<and> rel s0 s \<and> length ts0 \<le> length ts \<and> (\<forall>k<length ts. good s (ts ! k) (Q k))"
  using assms(1)
proof (induction rule: rtranclp_induct2)
  case refl
  then show ?case using assms(2,3) rel_refl by simp
next
  case (step ts s ts' s')
  then have old: "inv s" "rel s0 s" "length ts0 \<le> length ts" "\<And>k. k < length ts \<Longrightarrow> good s (ts ! k) (Q k)" by blast+
  have moved: "inv s' \<and> rel s0 s' \<and> length ts0 \<le> length (ts[k := t]) \<and> (\<forall>l<length (ts[k := t]). good s' (ts[k := t] ! l) (Q l))"
    if "inv s'" "rel s s'" "good s' t (Q k)" for k t
  proof -
    have "good s' (ts ! l) (Q l)" if "l < length ts" for l by (rule good_later [OF old(4) [OF that] \<open>rel s s'\<close>])
    then show ?thesis
      using that old(2,3) rel_trans by (cases "k < length ts") (auto simp: nth_list_update)
  qed
  show ?case
    using step(2)
  proof cases
    case (arrives t)
    then show ?thesis using old assms(4) by (auto simp: nth_append less_Suc_eq)
  next
    case (accesses k f t)
    then have "good s (Access f) (Q k)" using old(4) by metis
    then have "rel s (snd (f s)) \<and> inv (snd (f s)) \<and> good (snd (f s)) (fst (f s)) (Q k)"
      using old(1) rel_refl by (auto elim: good_AccessE)
    then show ?thesis using moved [of t k] accesses by simp
  next
    case (draws k f e t)
    then have "good s (Draw f) (Q k)" using old(4) by metis
    then have "rel s (snd (f e s)) \<and> inv (snd (f e s)) \<and> good (snd (f e s)) (fst (f e s)) (Q k)"
      by (rule good_DrawE) (use old(1) rel_refl draws(4) in blast)
    then show ?thesis using moved [of t k] draws by simp
  qed
qed

end

end
