(* ===== verification/Interleavings.thy ===== *)
theory Interleavings
  imports Usecase_Properties
begin

text \<open>
  Calls that run at the same time. The handlers of the server run on the threads of the gRPC
  library; a lock is held for one operation of a store or publisher only. \<open>JoinChannel::execute\<close>
  (\<open>join_channel.cpp\<close>, with \<open>removeMemberAndBroadcast\<close> inlined) is taken apart here into one step
  for each such operation, with what the thread has read so far in its program counter, and
  \<open>GrpcClientPublisher::publish\<close> at the point between its two locks. Run alone, the steps are the
  use case of the theory of use cases; run interleaved, they show what the locks guarantee and what
  they do not.
\<close>

subsection \<open>The steps of a join\<close>

datatype join_pc =
    JFindClient
  | JFindChannel session
  | JLeaveFind session channel channel_id "channel_id list"
  | JLeaveSave session channel channel channel_id "channel_id list"
  | JLeaveBroadcast session channel channel channel_id "channel_id list"
  | JLeaveSession session channel channel_id "channel_id list"
  | JLeaveRefind session channel channel_id "channel_id list"
  | JLeaveCount session channel channel channel_id "channel_id list"
  | JSave session channel
  | JEnter session channel bool
  | JBroadcast session channel
  | JCount channel
  | JDone "unit result"

text \<open>What a thread does on its own, between two port calls.\<close>

definition after_leaving :: "client_id \<Rightarrow> session \<Rightarrow> channel \<Rightarrow> join_pc" where
  "after_leaving i s ch =
     (let was_already_member = hasMember i ch
      in if \<not> was_already_member
         then (case addMember i ch of (Inl e, _) \<Rightarrow> JDone (unexpected e) | (Inr _, ch1) \<Rightarrow> JSave s ch1)
         else JEnter s ch True)"

fun next_other :: "client_id \<Rightarrow> session \<Rightarrow> channel \<Rightarrow> channel_id list \<Rightarrow> join_pc" where
  "next_other i s ch [] = after_leaving i s ch"
| "next_other i s ch (other_channel_id # rest) = JLeaveFind s ch other_channel_id rest"

definition after_removal :: "unit result \<Rightarrow> session \<Rightarrow> channel \<Rightarrow> channel_id \<Rightarrow> channel_id list \<Rightarrow> join_pc" where
  "after_removal removed s ch other_channel_id rest =
     (if (case removed of Inl e \<Rightarrow> e \<noteq> NotAMember \<and> e \<noteq> ChannelNotFound | Inr _ \<Rightarrow> False)
      then JDone removed else JLeaveSession s ch other_channel_id rest)"

text \<open>One port call of the join of client \<open>i\<close> into channel \<open>c\<close>.\<close>

fun join_step :: "'u platform \<Rightarrow> client_id \<Rightarrow> channel_id \<Rightarrow> join_pc \<times> server \<Rightarrow> join_pc \<times> server" where
  "join_step P i c (JFindClient, srv) =
     (case clients_findById i (srv_clients srv) of
        Inl e \<Rightarrow> JDone (unexpected e) | Inr s \<Rightarrow> JFindChannel s, srv)"
| "join_step P i c (JFindChannel s, srv) =
     (case channels_findById c (srv_channels srv) of
        Inl e \<Rightarrow> JDone (unexpected e)
      | Inr ch \<Rightarrow> next_other i s ch (other_channels_loop c (sess_joined s) []), srv)"
| "join_step P i c (JLeaveFind s ch other rest, srv) =
     (case channels_findById other (srv_channels srv) of
        Inl e \<Rightarrow> after_removal (unexpected e) s ch other rest
      | Inr x \<Rightarrow>
          (case removeMember (sess_id s) x of
             (Inl e, _) \<Rightarrow> after_removal (unexpected e) s ch other rest
           | (Inr _, x') \<Rightarrow> JLeaveSave s ch x' other rest), srv)"
| "join_step P i c (JLeaveSave s ch x other rest, srv) =
     (case channels_save x (srv_channels srv) of
        (saved, repo) \<Rightarrow>
          (case saved of
             Inl e \<Rightarrow> after_removal (unexpected e) s ch other rest
           | Inr _ \<Rightarrow> JLeaveBroadcast s ch x other rest, srv\<lparr>srv_channels := repo\<rparr>))"
| "join_step P i c (JLeaveBroadcast s ch x other rest, srv) =
     (after_removal (Inr ()) s ch other rest,
      srv\<lparr>srv_publisher := publisher_broadcastMemberLeft P other (chan_members x) (sess_id s)
        (sess_username s) (srv_publisher srv)\<rparr>)"
| "join_step P i c (JLeaveSession s ch other rest, srv) =
     (case clients_leaveChannelAtomic (sess_id s) other (srv_clients srv) of
        (left, reg) \<Rightarrow>
          (if (case left of Inl e \<Rightarrow> e \<noteq> ClientNotFound | Inr _ \<Rightarrow> False)
           then JDone left else JLeaveRefind s ch other rest, srv\<lparr>srv_clients := reg\<rparr>))"
| "join_step P i c (JLeaveRefind s ch other rest, srv) =
     (case channels_findById other (srv_channels srv) of
        Inl e \<Rightarrow> next_other i s ch rest | Inr x \<Rightarrow> JLeaveCount s ch x other rest, srv)"
| "join_step P i c (JLeaveCount s ch x other rest, srv) =
     (next_other i s ch rest, publish_member_count other x srv)"
| "join_step P i c (JSave s ch, srv) =
     (case channels_save ch (srv_channels srv) of
        (saved, repo) \<Rightarrow>
          (case saved of Inl e \<Rightarrow> JDone (unexpected e) | Inr _ \<Rightarrow> JEnter s ch False, srv\<lparr>srv_channels := repo\<rparr>))"
| "join_step P i c (JEnter s ch was_already_member, srv) =
     (case clients_joinChannelAtomic i c (srv_clients srv) of
        (joined, reg) \<Rightarrow>
          (case joined of
             Inl e \<Rightarrow> JDone (unexpected e)
           | Inr _ \<Rightarrow> if \<not> was_already_member then JBroadcast s ch else JDone (Inr ()), srv\<lparr>srv_clients := reg\<rparr>))"
| "join_step P i c (JBroadcast s ch, srv) =
     (JCount ch,
      srv\<lparr>srv_publisher := publisher_broadcastMemberJoined P (chan_id ch) (chan_members ch) i
        (sess_username s) (srv_publisher srv)\<rparr>)"
| "join_step P i c (JCount ch, srv) = (JDone (Inr ()), publish_member_count (chan_id ch) ch srv)"
| "join_step P i c (JDone r, srv) = (JDone r, srv)"

subsection \<open>A join that is not disturbed\<close>

text \<open>After at most \<open>n\<close> steps the thread has ended with a result, and the server in a state.\<close>

definition join_ends :: "'u platform \<Rightarrow> client_id \<Rightarrow> channel_id \<Rightarrow> nat \<Rightarrow> join_pc \<times> server \<Rightarrow> unit result \<times> server \<Rightarrow> bool" where
  "join_ends P i c n st res \<longleftrightarrow> (join_step P i c ^^ n) st = (JDone (fst res), snd res)"

lemma join_ends_done: "join_ends P i c n (JDone r, srv) (r, srv)"
  by (induction n) (simp_all add: join_ends_def)

lemma join_ends_step: "join_ends P i c n (join_step P i c st) res \<Longrightarrow> join_ends P i c (Suc n) st res"
  by (simp add: join_ends_def funpow_Suc_right del: funpow.simps)

lemma join_ends_mono: "join_ends P i c n st res \<Longrightarrow> n \<le> m \<Longrightarrow> join_ends P i c m st res"
proof (induction m)
  case (Suc m)
  show ?case
  proof (cases "n = Suc m")
    case False
    then have "(join_step P i c ^^ m) st = (JDone (fst res), snd res)"
      using Suc by (simp add: join_ends_def)
    then show ?thesis by (simp add: join_ends_def)
  qed (use Suc in simp)
qed simp

lemma join_ends_after:
  "join_ends P i c n (join_step P i c st) res \<Longrightarrow> n < m \<Longrightarrow> join_ends P i c m st res"
  using join_ends_mono [OF join_ends_step] Suc_leI by blast

definition join_tail ::
  "'u platform \<Rightarrow> client_id \<Rightarrow> channel_id \<Rightarrow> session \<Rightarrow> channel \<Rightarrow> server \<Rightarrow> unit result \<times> server" where
  "join_tail P i c s ch srv =
     (if hasMember i ch
      then (case clients_joinChannelAtomic i c (srv_clients srv) of
              (joined, reg) \<Rightarrow> (joined, srv\<lparr>srv_clients := reg\<rparr>))
      else (case addMember i ch of
              (Inl e, _) \<Rightarrow> (Inl e, srv)
            | (Inr _, ch1) \<Rightarrow>
                (let srv1 = srv\<lparr>srv_channels := snd (channels_save ch1 (srv_channels srv))\<rparr>
                 in case clients_joinChannelAtomic i c (srv_clients srv1) of
                      (Inl e, reg) \<Rightarrow> (Inl e, srv1\<lparr>srv_clients := reg\<rparr>)
                    | (Inr _, reg) \<Rightarrow>
                        (Inr (), publish_member_count (chan_id ch1) ch1 (srv1\<lparr>srv_clients := reg,
                           srv_publisher := publisher_broadcastMemberJoined P (chan_id ch1) (chan_members ch1) i
                             (sess_username s) (srv_publisher srv1)\<rparr>)))))"

lemma join_found_tail:
  "join_found P i s ch c srv =
     (case leaveOtherChannels P s c srv of
        (Inl e, srv1) \<Rightarrow> (Inl e, srv1) | (Inr _, srv1) \<Rightarrow> join_tail P i c s ch srv1)"
  by (auto simp: join_found_def join_tail_def channels_save_def Let_def split: sum.splits prod.splits)

lemma join_tail_ends: "join_ends P i c 4 (after_leaving i s ch, srv) (join_tail P i c s ch srv)"
  by (simp add: join_ends_def numeral_eq_Suc after_leaving_def join_tail_def channels_save_def Let_def
      split: prod.splits sum.splits)

definition join_finish ::
  "'u platform \<Rightarrow> client_id \<Rightarrow> channel_id \<Rightarrow> session \<Rightarrow> channel \<Rightarrow> unit result \<times> server \<Rightarrow> unit result \<times> server" where
  "join_finish P i c s ch left =
     (case left of (Inl e, srv) \<Rightarrow> (Inl e, srv) | (Inr _, srv) \<Rightarrow> join_tail P i c s ch srv)"

abbreviation fatal_removal :: "unit result \<Rightarrow> bool" where
  "fatal_removal removed \<equiv> (case removed of Inl e \<Rightarrow> e \<noteq> NotAMember \<and> e \<noteq> ChannelNotFound | Inr _ \<Rightarrow> False)"

abbreviation fatal_leave :: "unit result \<Rightarrow> bool" where
  "fatal_leave left \<equiv> (case left of Inl e \<Rightarrow> e \<noteq> ClientNotFound | Inr _ \<Rightarrow> False)"

lemma join_finish_fatal [simp]:
  "fatal_removal r \<Longrightarrow> join_finish P i c s ch (r, srv) = (r, srv)"
  "fatal_leave r \<Longrightarrow> join_finish P i c s ch (r, srv) = (r, srv)"
  by (simp_all add: join_finish_def split: sum.splits)

text \<open>The part of the loop's body after the member has been removed from the channel.\<close>

definition leave_session ::
  "'u platform \<Rightarrow> session \<Rightarrow> channel_id \<Rightarrow> channel_id list \<Rightarrow> server \<Rightarrow> unit result \<times> server" where
  "leave_session P s x rest srv =
     (case clients_leaveChannelAtomic (sess_id s) x (srv_clients srv) of
        (left, reg) \<Rightarrow>
          let srv2 = srv\<lparr>srv_clients := reg\<rparr>
          in if fatal_leave left then (left, srv2)
             else leave_each P s rest
               (case channels_findById x (srv_channels srv2) of
                  Inl e \<Rightarrow> srv2 | Inr other \<Rightarrow> publish_member_count x other srv2))"

lemma leave_each_session:
  "leave_each P s (x # rest) srv =
     (case removeMemberAndBroadcast P s x srv of
        (removed, srv1) \<Rightarrow> if fatal_removal removed then (removed, srv1) else leave_session P s x rest srv1)"
  by (simp add: leave_session_def split: prod.split)

lemma leave_session_ends:
  assumes rest: "\<And>srv. join_ends P i c n (next_other i s ch rest, srv) (join_finish P i c s ch (leave_each P s rest srv))"
  shows "join_ends P i c (n + 3) (JLeaveSession s ch x rest, srv) (join_finish P i c s ch (leave_session P s x rest srv))"
proof -
  obtain left reg where left: "clients_leaveChannelAtomic (sess_id s) x (srv_clients srv) = (left, reg)"
    by fastforce
  let ?srv = "srv\<lparr>srv_clients := reg\<rparr>"
  show ?thesis
  proof (cases "fatal_leave left")
    case True
    then show ?thesis
      using join_ends_mono [OF join_ends_step [of P i c 0 "(JLeaveSession s ch x rest, srv)" "(left, ?srv)"]]
        join_ends_done [of P i c 0]
      by (simp add: left leave_session_def)
  next
    case False
    have "join_ends P i c (Suc (Suc n)) (JLeaveRefind s ch x rest, ?srv)
        (join_finish P i c s ch (leave_session P s x rest srv))"
    proof (cases "channels_findById x (srv_channels srv)")
      case (Inl e)
      then show ?thesis
        using False rest [of ?srv]
        by - (rule join_ends_after [where n = n], simp_all add: left leave_session_def)
    next
      case (Inr other)
      then show ?thesis
        using False rest [of "publish_member_count x other ?srv"]
        by - (rule join_ends_step [where n = "Suc n"], simp add: left leave_session_def,
          rule join_ends_step [where n = n], simp add: left leave_session_def)
    qed
    then have "join_ends P i c (Suc (Suc (Suc n))) (JLeaveSession s ch x rest, srv)
        (join_finish P i c s ch (leave_session P s x rest srv))"
      using False by (intro join_ends_step [where n = "Suc (Suc n)"]) (simp add: left)
    then show ?thesis by (simp add: numeral_eq_Suc)
  qed
qed

lemma join_others_end:
  "join_ends P i c (4 + 6 * length others) (next_other i s ch others, srv)
     (join_finish P i c s ch (leave_each P s others srv))"
proof (induction others arbitrary: srv)
  case Nil
  show ?case using join_tail_ends by (simp add: join_finish_def)
next
  case (Cons x rest)
  let ?n = "4 + 6 * length rest"
  let ?res = "join_finish P i c s ch (leave_each P s (x # rest) srv)"
  note session = leave_session_ends [OF Cons.IH, of x]
  have removal: "join_ends P i c (?n + 3) (after_removal removed s ch x rest, srv1)
      (join_finish P i c s ch (if fatal_removal removed then (removed, srv1) else leave_session P s x rest srv1))"
    for removed srv1
    using session [of srv1] join_ends_done [of P i c "?n + 3" removed srv1] by (simp add: after_removal_def)
  have "join_ends P i c (Suc (Suc (Suc (?n + 3)))) (JLeaveFind s ch x rest, srv) ?res"
  proof (cases "channels_findById x (srv_channels srv)")
    case (Inl e)
    then show ?thesis
      using removal [of "Inl e" srv]
      by - (rule join_ends_after [where n = "?n + 3"], simp_all add: leave_each_session
        removeMemberAndBroadcast_def del: leave_each.simps)
  next
    case (Inr y)
    obtain removed y' where y': "removeMember (sess_id s) y = (removed, y')" by fastforce
    show ?thesis
    proof (cases removed)
      case (Inl e)
      then show ?thesis
        using removal [of "Inl e" srv] Inr y'
        by - (rule join_ends_after [where n = "?n + 3"], simp_all add: leave_each_session
          removeMemberAndBroadcast_def del: leave_each.simps)
    next
      case Inr': (Inr u)
      let ?saved = "srv\<lparr>srv_channels := snd (channels_save y' (srv_channels srv))\<rparr>"
      have "?res = join_finish P i c s ch (leave_session P s x rest
          (?saved\<lparr>srv_publisher := publisher_broadcastMemberLeft P x (chan_members y') (sess_id s)
            (sess_username s) (srv_publisher ?saved)\<rparr>))"
        using Inr y' Inr' by (simp add: leave_each_session removeMemberAndBroadcast_def channels_save_def
            del: leave_each.simps)
      then have "join_ends P i c (Suc (?n + 3)) (JLeaveBroadcast s ch y' x rest, ?saved) ?res"
        using removal [of "Inr ()"] by (intro join_ends_step [where n = "?n + 3"]) simp
      then have "join_ends P i c (Suc (Suc (?n + 3))) (JLeaveSave s ch y' x rest, srv) ?res"
        by (intro join_ends_step [where n = "Suc (?n + 3)"]) (simp add: channels_save_def)
      then show ?thesis
        using Inr y' Inr' by (intro join_ends_step [where n = "Suc (Suc (?n + 3))"]) simp
    qed
  qed
  then show ?case by (simp add: numeral_eq_Suc)
qed

text \<open>The number of port calls a join can need.\<close>

definition join_bound :: "client_id \<Rightarrow> server \<Rightarrow> nat" where
  "join_bound i srv =
     6 + 6 * (case clients_findById i (srv_clients srv) of Inl e \<Rightarrow> 0 | Inr s \<Rightarrow> length (sess_joined s))"

text \<open>
  The steps are the use case. A join that no other call interleaves with has ended after six
  port calls and six more for every channel the client is in, with the result and the server that
  \<open>JoinChannel::execute\<close> as one step gives.
\<close>

theorem JoinChannel_steps:
  "(join_step P i c ^^ join_bound i srv) (JFindClient, srv) =
     (JDone (fst (JoinChannel_execute P i c srv)), snd (JoinChannel_execute P i c srv))"
proof -
  let ?res = "JoinChannel_execute P i c srv"
  have "join_ends P i c (join_bound i srv) (JFindClient, srv) ?res"
  proof (cases "clients_findById i (srv_clients srv)")
    case (Inl e)
    then show ?thesis
      using join_ends_done [of P i c 5 "Inl e" srv]
      by - (rule join_ends_after [where n = 5], simp_all add: JoinChannel_execute_def join_bound_def)
  next
    case (Inr s)
    have "join_ends P i c (5 + 6 * length (sess_joined s)) (JFindChannel s, srv) ?res"
    proof (cases "channels_findById c (srv_channels srv)")
      case (Inl e)
      then show ?thesis
        using Inr join_ends_done [of P i c 4 "Inl e" srv]
        by - (rule join_ends_after [where n = 4], simp_all add: JoinChannel_execute_def)
    next
      case Inr': (Inr ch)
      let ?others = "filter (\<lambda>j. j \<noteq> c) (sess_joined s)"
      have "?res = join_finish P i c s ch (leave_each P s ?others srv)"
        using Inr Inr' by (simp add: JoinChannel_execute_def join_found_tail join_finish_def
            leaveOtherChannels_def other_channels_filter)
      then show ?thesis
        using Inr' join_others_end [of P i c ?others s ch srv]
        by - (rule join_ends_after [where n = "4 + 6 * length ?others"], simp_all add: other_channels_filter less_Suc_eq_le)
    qed
    moreover have "join_bound i srv = Suc (5 + 6 * length (sess_joined s))"
      using Inr by (simp add: join_bound_def)
    ultimately show ?thesis
      using Inr by - (simp only:, rule join_ends_step, simp)
  qed
  then show ?thesis by (simp add: join_ends_def)
qed

subsection \<open>Joins that interleave\<close>

text \<open>Two servers to try the properties on: a second client, with the first one idle or in the room.\<close>

abbreviation demo_bob :: client_id where "demo_bob \<equiv> StrongId (demo_text U3)"

definition with_bob :: "server \<Rightarrow> server" where
  "with_bob srv = srv\<lparr>srv_clients :=
     snd (clients_registerClient demo_platform U3 0 0 (Username ''bob'') (srv_clients srv))\<rparr>"

lemma with_bob_inv:
  assumes inv: "server_inv demo_platform srv" and fresh: "fresh_uuid demo_platform U3 srv"
    and free: "\<not> user_taken (Username ''bob'') (abs_chat srv)"
  shows "server_inv demo_platform (with_bob srv)"
    and "abs_chat (with_bob srv) = (abs_chat srv)\<lparr>user := (user (abs_chat srv))(demo_bob \<mapsto> Username ''bob'')\<rparr>"
proof -
  obtain res where "clients_registerClient demo_platform U3 0 0 (Username ''bob'') (srv_clients srv) =
      (res, srv_clients (with_bob srv))"
    unfolding with_bob_def by (cases "clients_registerClient demo_platform U3 0 0 (Username ''bob'') (srv_clients srv)") simp
  note registered = register_refines [OF inv fresh _ this]
  have eq: "srv\<lparr>srv_clients := srv_clients (with_bob srv)\<rparr> = with_bob srv"
    by (simp add: with_bob_def)
  show "server_inv demo_platform (with_bob srv)"
    using registered(1) by (simp add: eq)
  show "abs_chat (with_bob srv) = (abs_chat srv)\<lparr>user := (user (abs_chat srv))(demo_bob \<mapsto> Username ''bob'')\<rparr>"
    using registered(2) free by (simp add: eq chat_enter_def del: abs_chat_sel)
qed

lemma demo_two_idle:
  "server_inv demo_platform (with_bob demo_server1)"
  "abs_chat (with_bob demo_server1) = \<lparr>room = [demo_room \<mapsto> ChannelName ''general''],
     user = [demo_alice \<mapsto> Username ''alice'', demo_bob \<mapsto> Username ''bob''], place = Map.empty, posts = (\<lambda>c. [])\<rparr>"
proof -
  have abs: "abs_chat demo_server1 = \<lparr>room = [demo_room \<mapsto> ChannelName ''general''],
      user = [demo_alice \<mapsto> Username ''alice''], place = Map.empty, posts = (\<lambda>c. [])\<rparr>"
    by (simp add: demo_server1_inv(2) demo_server0_inv(2) empty_server_abs del: abs_chat_sel)
  have "room (abs_chat demo_server1) (StrongId (demo_text U3)) = None"
    "user (abs_chat demo_server1) (StrongId (demo_text U3)) = None" "posts (abs_chat demo_server1) (StrongId k) = []" for k
    by (simp_all add: abs del: abs_chat_sel)
  then have "fresh_uuid demo_platform U3 demo_server1"
    by (simp add: fresh_uuid_def demo_names(2) [unfolded names_def])
  moreover have "\<not> user_taken (Username ''bob'') (abs_chat demo_server1)"
    by (simp add: abs user_taken_def del: abs_chat_sel)
  ultimately show "server_inv demo_platform (with_bob demo_server1)"
    "abs_chat (with_bob demo_server1) = \<lparr>room = [demo_room \<mapsto> ChannelName ''general''],
     user = [demo_alice \<mapsto> Username ''alice'', demo_bob \<mapsto> Username ''bob''], place = Map.empty, posts = (\<lambda>c. [])\<rparr>"
    using with_bob_inv [OF demo_server1_inv(1)] by (simp_all add: abs del: abs_chat_sel)
qed

lemma demo_one_inside:
  "server_inv demo_platform (with_bob demo_server)"
  "place (abs_chat (with_bob demo_server)) demo_alice = Some demo_room"
proof -
  have "\<not> user_taken (Username ''bob'') (abs_chat demo_server)"
    by (simp add: demo_server_inv(2) user_taken_def del: abs_chat_sel)
  from with_bob_inv [OF demo_server_inv(1) demo_server_fresh this]
  show "server_inv demo_platform (with_bob demo_server)"
    "place (abs_chat (with_bob demo_server)) demo_alice = Some demo_room"
    by (simp_all add: demo_server_inv(2) del: abs_chat_sel)
qed

text \<open>Threads, each with the join it runs, and a schedule that names the thread to move next.\<close>

type_synonym join_thread = "client_id \<times> channel_id \<times> join_pc"

fun run_joins ::
  "'u platform \<Rightarrow> nat list \<Rightarrow> join_thread list \<times> server \<Rightarrow> join_thread list \<times> server" where
  "run_joins P [] st = st"
| "run_joins P (k # schedule) (ts, srv) =
     (if k < length ts
      then (case ts ! k of
              (i, c, pc) \<Rightarrow>
                (case join_step P i c (pc, srv) of
                   (pc', srv') \<Rightarrow> run_joins P schedule (ts[k := (i, c, pc')], srv')))
      else run_joins P schedule (ts, srv))"

text \<open>
  What a schedule relies on and guarantees: a channel, stored or copied by a thread, is one of the
  channels of the start with other joining clients \<open>J\<close> as members at most, and the sessions of the
  others are untouched.
\<close>

definition faithful :: "client_id set \<Rightarrow> channel_repo \<Rightarrow> channel \<Rightarrow> bool" where
  "faithful J chans ch \<longleftrightarrow> channel_ok ch \<and>
     (\<exists>ch0. channel_at chans (id_value (chan_id ch)) = Some ch0 \<and> chan_name ch = chan_name ch0 \<and>
        set (chan_members ch) - J = set (chan_members ch0) - J)"

definition session_kept :: "client_id set \<Rightarrow> string \<Rightarrow> session option \<Rightarrow> session option \<Rightarrow> bool" where
  "session_kept J k s0 s \<longleftrightarrow>
     map_option sess_username s = map_option sess_username s0 \<and> (StrongId k \<notin> J \<longrightarrow> s = s0)"

fun pc_session :: "join_pc \<Rightarrow> session option" where
  "pc_session (JFindChannel s) = Some s"
| "pc_session (JLeaveFind s ch x rest) = Some s"
| "pc_session (JLeaveSave s ch y x rest) = Some s"
| "pc_session (JLeaveBroadcast s ch y x rest) = Some s"
| "pc_session (JLeaveSession s ch x rest) = Some s"
| "pc_session (JLeaveRefind s ch x rest) = Some s"
| "pc_session (JLeaveCount s ch y x rest) = Some s"
| "pc_session (JSave s ch) = Some s"
| "pc_session (JEnter s ch b) = Some s"
| "pc_session (JBroadcast s ch) = Some s"
| "pc_session _ = None"

fun pc_channels :: "join_pc \<Rightarrow> channel list" where
  "pc_channels (JLeaveFind s ch x rest) = [ch]"
| "pc_channels (JLeaveSave s ch y x rest) = [ch, y]"
| "pc_channels (JLeaveBroadcast s ch y x rest) = [ch, y]"
| "pc_channels (JLeaveSession s ch x rest) = [ch]"
| "pc_channels (JLeaveRefind s ch x rest) = [ch]"
| "pc_channels (JLeaveCount s ch y x rest) = [ch]"
| "pc_channels (JSave s ch) = [ch]"
| "pc_channels (JEnter s ch b) = [ch]"
| "pc_channels (JBroadcast s ch) = [ch]"
| "pc_channels _ = []"

definition thread_ok :: "client_id set \<Rightarrow> channel_repo \<Rightarrow> client_id \<Rightarrow> join_pc \<Rightarrow> bool" where
  "thread_ok J chans i pc \<longleftrightarrow> i \<in> J \<and> (case pc_session pc of None \<Rightarrow> True | Some s \<Rightarrow> sess_id s = i) \<and>
     (\<forall>ch\<in>set (pc_channels pc). faithful J chans ch)"

definition kept :: "'u platform \<Rightarrow> client_id set \<Rightarrow> server \<Rightarrow> server \<Rightarrow> bool" where
  "kept P J srv0 srv \<longleftrightarrow> tables_wf P srv \<and> repos_wf srv \<and> srv_messages srv = srv_messages srv0 \<and>
     (\<forall>k. channel_at (srv_channels srv0) k \<noteq> None \<longrightarrow> channel_at (srv_channels srv) k \<noteq> None) \<and>
     (\<forall>k ch. channel_at (srv_channels srv) k = Some ch \<longrightarrow> faithful J (srv_channels srv0) ch) \<and>
     (\<forall>k. session_kept J k (session_at (srv_clients srv0) k) (session_at (srv_clients srv) k))"

lemma faithful_members:
  assumes "faithful J chans ch" and "distinct ms" and "set ms - J = set (chan_members ch) - J"
  shows "faithful J chans (ch\<lparr>chan_members := ms\<rparr>)"
  using assms by (auto simp: faithful_def channel_ok_def)

lemma kept_tables:
  assumes "kept P J srv0 srv" and "table_wf P T" and "table_wf P L"
  shows "kept P J srv0 (srv\<lparr>srv_publisher := T, srv_list_publisher := L\<rparr>)"
  using assms by (auto simp: kept_def tables_wf_def repos_wf_def)

lemma kept_save:
  assumes kept: "kept P J srv0 srv" and ch: "faithful J (srv_channels srv0) ch"
  shows "kept P J srv0 (srv\<lparr>srv_channels := snd (channels_save ch (srv_channels srv))\<rparr>)"
proof -
  let ?k = "id_value (chan_id ch)"
  obtain ch0 where ch0: "channel_at (srv_channels srv0) ?k = Some ch0" "chan_name ch = chan_name ch0" "channel_ok ch"
    using ch by (auto simp: faithful_def)
  then obtain x where x: "channel_at (srv_channels srv) ?k = Some x"
    using kept by (fastforce simp: kept_def)
  have wf: "channels_wf (srv_channels srv)" using kept by (simp add: kept_def repos_wf_def)
  have "faithful J (srv_channels srv0) x" using kept x by (simp add: kept_def)
  moreover have "id_value (chan_id x) = ?k" using channels_wf_entity [OF wf x] by simp
  ultimately have "chan_name x = chan_name ch" using ch0 by (auto simp: faithful_def)
  then have "channels_wf (snd (channels_save ch (srv_channels srv)))"
    using channels_wf_save [OF wf ch0(3) x] by simp
  then show ?thesis
    using kept ch by (auto simp: kept_def tables_wf_def repos_wf_def)
qed

lemma kept_modify:
  assumes kept: "kept P J srv0 srv" and i: "i \<in> J"
    and f: "\<And>s. sess_id (f s) = sess_id s \<and> sess_username (f s) = sess_username s"
    and ok: "\<And>s. session_ok s \<Longrightarrow> session_ok (f s)"
  shows "kept P J srv0 (srv\<lparr>srv_clients := modify_session i f (srv_clients srv)\<rparr>)"
proof -
  have "clients_wf (modify_session i f (srv_clients srv))"
    using kept by (intro clients_wf_modify f ok) (auto simp: kept_def repos_wf_def)
  moreover have "session_kept J k (session_at (srv_clients srv0) k) (session_at (modify_session i f (srv_clients srv)) k)" for k
  proof -
    have "session_kept J k (session_at (srv_clients srv0) k) (session_at (srv_clients srv) k)"
      using kept by (simp add: kept_def)
    then show ?thesis using i f by (auto simp: session_kept_def option.map_comp comp_def)
  qed
  ultimately show ?thesis
    using kept by (auto simp: kept_def tables_wf_def repos_wf_def)
qed

lemma faithful_add:
  "faithful J chans ch \<Longrightarrow> i \<in> J \<Longrightarrow> \<not> hasMember i ch \<Longrightarrow> faithful J chans (ch\<lparr>chan_members := chan_members ch @ [i]\<rparr>)"
  by (rule faithful_members) (auto simp: faithful_def channel_ok_def hasMember_def)

lemma faithful_remove:
  "faithful J chans ch \<Longrightarrow> i \<in> J \<Longrightarrow> faithful J chans (ch\<lparr>chan_members := uset_erase i (chan_members ch)\<rparr>)"
  by (rule faithful_members) (auto simp: faithful_def channel_ok_def)

lemma thread_ok_next:
  assumes "faithful J chans ch" and "i \<in> J" and "sess_id s = i"
  shows "thread_ok J chans i (next_other i s ch others)"
  using assms faithful_add [OF assms(1,2)]
  by (cases others) (simp_all add: thread_ok_def after_leaving_def)

lemma thread_ok_removal:
  assumes "faithful J chans ch" and "i \<in> J" and "sess_id s = i"
  shows "thread_ok J chans i (after_removal removed s ch x rest)"
  using assms by (simp add: thread_ok_def after_removal_def)

lemma thread_ok_done [simp]: "thread_ok J chans i (JDone r) \<longleftrightarrow> i \<in> J"
  by (simp add: thread_ok_def)

lemma kept_step:
  assumes kept: "kept P J srv0 srv" and ok: "thread_ok J (srv_channels srv0) i pc"
    and step: "join_step P i c (pc, srv) = (pc', srv')"
  shows "kept P J srv0 srv' \<and> thread_ok J (srv_channels srv0) i pc'"
proof -
  have i: "i \<in> J" using ok by (simp add: thread_ok_def)
  have wf: "channels_wf (srv_channels srv)" "clients_wf (srv_clients srv)"
    "table_wf P (srv_publisher srv)" "table_wf P (srv_list_publisher srv)"
    using kept by (auto simp: kept_def tables_wf_def repos_wf_def)
  have found: "faithful J (srv_channels srv0) ch" if "channels_findById x (srv_channels srv) = Inr ch" for x ch
    using kept that by (auto simp: kept_def channels_findById_Inr)
  have tables: "kept P J srv0 (srv\<lparr>srv_publisher := T\<rparr>)" if "table_wf P T" for T
    using kept_tables [OF kept that wf(4)] by simp
  have count: "kept P J srv0 (publish_member_count x y srv)" for x y
    using kept_tables [OF kept wf(3)] wf(4) by (simp add: publish_member_count_def)
  have sess: "kept P J srv0 (srv\<lparr>srv_clients := snd (clients_joinChannelAtomic i x (srv_clients srv))\<rparr>)"
    "kept P J srv0 (srv\<lparr>srv_clients := snd (clients_leaveChannelAtomic i x (srv_clients srv))\<rparr>)" for x
    using kept kept_modify [OF kept i, of "session_joinChannel x"] kept_modify [OF kept i, of "session_leaveChannel x"]
    by (simp_all add: in_place_eq session_ok_def)
  show ?thesis
  proof (cases pc)
    case JFindClient
    then show ?thesis
      using step kept i clients_findById_id [OF wf(2), of i]
      by (auto simp: thread_ok_def split: sum.splits)
  next
    case (JFindChannel s)
    then show ?thesis
      using step kept ok i found [of c] by (auto simp: thread_ok_def [of _ _ _ "JFindChannel s"]
          split: sum.splits intro: thread_ok_next)
  next
    case (JLeaveFind s ch x rest)
    then have s: "sess_id s = i" "faithful J (srv_channels srv0) ch" using ok by (simp_all add: thread_ok_def)
    show ?thesis
    proof (cases "channels_findById x (srv_channels srv)")
      case (Inl e)
      then show ?thesis using JLeaveFind step kept s i by (auto intro: thread_ok_removal)
    next
      case (Inr y)
      then show ?thesis
        using JLeaveFind step kept s i faithful_remove [OF found [OF Inr] i] thread_ok_removal [OF s(2) i s(1)]
        by (auto simp: thread_ok_def [of _ _ _ "JLeaveSave _ _ _ _ _"] split: if_splits)
    qed
  next
    case (JLeaveSave s ch y x rest)
    then show ?thesis
      using step ok kept_save [OF kept, of y] by (auto simp: thread_ok_def channels_save_def)
  next
    case (JLeaveBroadcast s ch y x rest)
    then show ?thesis
      using step ok tables wf(3) i
      by (auto simp: thread_ok_def [of _ _ _ "JLeaveBroadcast _ _ _ _ _"] intro: thread_ok_removal)
  next
    case (JLeaveSession s ch x rest)
    then show ?thesis
      using step ok sess(2) [of x] i by (auto simp: thread_ok_def split: prod.splits sum.splits if_splits)
  next
    case (JLeaveRefind s ch x rest)
    then show ?thesis
      using step ok kept i by (auto simp: thread_ok_def [of _ _ _ "JLeaveRefind _ _ _ _"]
        thread_ok_def [of _ _ _ "JLeaveCount _ _ _ _ _"] split: sum.splits intro: thread_ok_next)
  next
    case (JLeaveCount s ch y x rest)
    then show ?thesis
      using step ok count i
      by (auto simp: thread_ok_def [of _ _ _ "JLeaveCount _ _ _ _ _"] intro: thread_ok_next)
  next
    case (JSave s ch)
    then show ?thesis
      using step ok kept_save [OF kept, of ch] by (auto simp: thread_ok_def channels_save_def)
  next
    case (JEnter s ch b)
    then show ?thesis
      using step ok sess(1) [of c] i by (auto simp: thread_ok_def split: prod.splits sum.splits if_splits)
  next
    case (JBroadcast s ch)
    then show ?thesis
      using step ok tables wf(3) by (auto simp: thread_ok_def)
  next
    case (JCount ch)
    then show ?thesis using step ok count by (auto simp: thread_ok_def)
  next
    case (JDone r)
    then show ?thesis using step kept ok by simp
  qed
qed

lemma kept_run:
  assumes "kept P J srv0 srv" and "\<forall>(i, c, pc)\<in>set ts. thread_ok J (srv_channels srv0) i pc"
  shows "kept P J srv0 (snd (run_joins P schedule (ts, srv)))"
  using assms
proof (induction schedule arbitrary: ts srv)
  case (Cons k schedule)
  show ?case
  proof (cases "k < length ts")
    case True
    obtain i c pc where t: "ts ! k = (i, c, pc)" by (cases "ts ! k") auto
    obtain pc' srv' where step: "join_step P i c (pc, srv) = (pc', srv')" by fastforce
    have "thread_ok J (srv_channels srv0) i pc"
      using Cons.prems(2) True t by (metis (no_types, lifting) case_prodD nth_mem)
    from kept_step [OF Cons.prems(1) this step]
    have "kept P J srv0 srv'" and ok: "thread_ok J (srv_channels srv0) i pc'" by simp_all
    moreover have "\<forall>(i, c, pc)\<in>set (ts[k := (i, c, pc')]). thread_ok J (srv_channels srv0) i pc"
      using Cons.prems(2) ok set_update_subset_insert [of ts k "(i, c, pc')"] by blast
    ultimately show ?thesis
      using Cons.IH [of srv' "ts[k := (i, c, pc')]"] True t step by simp
  qed (use Cons in simp)
qed simp

lemma kept_start:
  assumes "server_inv P srv"
  shows "kept P J srv srv"
  using assms channels_wf_entity [OF server_invD(3) [OF assms]]
  by (auto simp: kept_def server_inv_def repos_wf_def faithful_def session_kept_def)

lemma kept_others:
  assumes inv: "server_inv P srv0" and kept: "kept P J srv0 srv"
  shows "tables_wf P srv \<and> repos_wf srv \<and> room (abs_chat srv) = room (abs_chat srv0) \<and>
    user (abs_chat srv) = user (abs_chat srv0) \<and> posts (abs_chat srv) = posts (abs_chat srv0)"
    and "j \<notin> J \<Longrightarrow> place (abs_chat srv) j = place (abs_chat srv0) j"
    and "j \<notin> J \<Longrightarrow> channel_at (srv_channels srv) (id_value c) = Some ch \<Longrightarrow>
      hasMember j ch \<longleftrightarrow> place (abs_chat srv0) j = Some c"
proof -
  have wf: "channels_wf (srv_channels srv)" using kept by (simp add: kept_def repos_wf_def)
  have at: "\<exists>ch0. channel_at (srv_channels srv0) k = Some ch0 \<and> chan_name ch = chan_name ch0 \<and>
      set (chan_members ch) - J = set (chan_members ch0) - J" if "channel_at (srv_channels srv) k = Some ch" for k ch
    using that kept channels_wf_entity [OF wf that] by (auto simp: kept_def faithful_def)
  have "map_option chan_name (channel_at (srv_channels srv) k) = map_option chan_name (channel_at (srv_channels srv0) k)" for k
  proof (cases "channel_at (srv_channels srv) k")
    case None
    then have "channel_at (srv_channels srv0) k = None" using kept by (auto simp: kept_def)
    with None show ?thesis by simp
  qed (use at in fastforce)
  then show "tables_wf P srv \<and> repos_wf srv \<and> room (abs_chat srv) = room (abs_chat srv0) \<and>
      user (abs_chat srv) = user (abs_chat srv0) \<and> posts (abs_chat srv) = posts (abs_chat srv0)"
    using kept by (auto simp: kept_def session_kept_def fun_eq_iff)
  show "place (abs_chat srv) j = place (abs_chat srv0) j" if "j \<notin> J"
    using kept that by (simp add: kept_def session_kept_def place_of_def)
  show "hasMember j ch \<longleftrightarrow> place (abs_chat srv0) j = Some c"
    if "j \<notin> J" and ch: "channel_at (srv_channels srv) (id_value c) = Some ch"
  proof -
    obtain ch0 where ch0: "channel_at (srv_channels srv0) (id_value c) = Some ch0"
      "set (chan_members ch) - J = set (chan_members ch0) - J"
      using at [OF ch] by blast
    then have "hasMember j ch \<longleftrightarrow> hasMember j ch0" using that(1) by (auto simp: hasMember_def)
    then show ?thesis
      using membership_members [OF server_invD(6) [OF inv] ch0(1)] by simp
  qed
qed

text \<open>
  Joins that run at the same time damage nobody else, whatever the order of their port calls.
  At every moment of every schedule the indices of the repositories and the tables of the publishers
  are well-formed, the rooms, the users and the posts are those of the start, and every client that
  is not itself joining is where it was and a member of exactly that channel.
\<close>

theorem concurrent_joins_spare_others:
  assumes "server_inv P srv"
    and "srv' = snd (run_joins P schedule (map (\<lambda>(i, c). (i, c, JFindClient)) joins, srv))"
  shows "tables_wf P srv' \<and> repos_wf srv' \<and> room (abs_chat srv') = room (abs_chat srv) \<and>
     user (abs_chat srv') = user (abs_chat srv) \<and> posts (abs_chat srv') = posts (abs_chat srv) \<and>
     (\<forall>j. j \<notin> fst ` set joins \<longrightarrow> place (abs_chat srv') j = place (abs_chat srv) j \<and>
        (\<forall>c ch. channel_at (srv_channels srv') (id_value c) = Some ch \<longrightarrow>
           (hasMember j ch \<longleftrightarrow> place (abs_chat srv') j = Some c)))"
proof -
  have "\<forall>(i, c, pc)\<in>set (map (\<lambda>(i, c). (i, c, JFindClient)) joins). thread_ok (fst ` set joins) (srv_channels srv) i pc"
    by (force simp: thread_ok_def)
  from kept_run [OF kept_start [OF assms(1)] this, of schedule]
  have "kept P (fst ` set joins) srv srv'" using assms(2) by simp
  from kept_others [OF assms(1) this] show ?thesis by (simp del: abs_chat_sel)
qed

theorem concurrent_joins_spare_others_witness:
  "place (abs_chat (snd (run_joins demo_platform [0, 0, 0, 0] ([(demo_bob, demo_room, JFindClient)], with_bob demo_server)))) demo_alice =
     Some demo_room"
  using concurrent_joins_spare_others [OF demo_one_inside(1) refl, of "[0, 0, 0, 0]" "[(demo_bob, demo_room)]"]
    demo_one_inside(2) by (simp del: abs_chat_sel run_joins.simps)

text \<open>
  C19: and yet a join can be lost. Two clients that are in no channel join the same channel, both
  read it before either writes it back: both calls succeed and both sessions record the channel,
  but the first client is not a member of it, and what it then sends there is rejected.
\<close>

theorem lost_join:
  assumes inv: "server_inv P srv" and neq: "i \<noteq> j"
    and known: "user (abs_chat srv) i \<noteq> None" "user (abs_chat srv) j \<noteq> None" "room (abs_chat srv) c \<noteq> None"
    and idle: "place (abs_chat srv) i = None" "place (abs_chat srv) j = None"
    and run: "run_joins P [0, 0, 1, 1, 0, 0, 0, 0, 1, 1, 1, 1] ([(i, c, JFindClient), (j, c, JFindClient)], srv) = (ts, srv')"
  shows "ts = [(i, c, JDone (Inr ())), (j, c, JDone (Inr ()))] \<and>
     place (abs_chat srv') i = Some c \<and> place (abs_chat srv') j = Some c \<and>
     (\<exists>ch. channel_at (srv_channels srv') (id_value c) = Some ch \<and> hasMember j ch \<and> \<not> hasMember i ch) \<and>
     fst (SendMessage_execute P u now i c content echo_policy srv') = Inl NotAMember"
proof -
  obtain si sj ch where at: "session_at (srv_clients srv) (id_value i) = Some si"
    "session_at (srv_clients srv) (id_value j) = Some sj" "channel_at (srv_channels srv) (id_value c) = Some ch"
    using known by auto
  note wf = server_invD [OF inv]
  have joined: "sess_joined si = []" "sess_joined sj = []"
    using membership_joined [OF wf(6)] at idle by simp_all
  have members: "\<not> hasMember i ch" "\<not> hasMember j ch"
    using membership_members [OF wf(6) at(3)] idle by simp_all
  have id: "chan_id ch = c" using channels_wf_entity [OF wf(3) at(3)] by (simp add: strong_id.expand)
  have neq': "id_value i \<noteq> id_value j" using neq by (simp add: strong_id_eq_iff)
  let ?save = "\<lambda>k r. snd (channels_save (ch\<lparr>chan_members := chan_members ch @ [k]\<rparr>) r)"
  have clients: "srv_clients srv' = modify_session j (session_joinChannel c) (modify_session i (session_joinChannel c) (srv_clients srv))"
    and channels: "srv_channels srv' = ?save j (?save i (srv_channels srv))"
    and ts: "ts = [(i, c, JDone (Inr ())), (j, c, JDone (Inr ()))]"
    using run at joined members neq neq' id
    by (auto simp: clients_findById_eq channels_findById_eq after_leaving_def in_place_eq channels_save_def
        split: prod.splits)
  show ?thesis
    using ts at neq neq' joined members id
    by (auto simp: clients channels place_of_modify place_of_def session_joinChannel_def uset_insert_def
        hasMember_def SendMessage_execute_def clients_findById_eq channels_findById_eq)
qed

theorem lost_join_witness:
  "\<exists>srv' ch. srv' = snd (run_joins demo_platform [0, 0, 1, 1, 0, 0, 0, 0, 1, 1, 1, 1]
       ([(demo_alice, demo_room, JFindClient), (demo_bob, demo_room, JFindClient)], with_bob demo_server1)) \<and>
     place (abs_chat srv') demo_alice = Some demo_room \<and>
     channel_at (srv_channels srv') (demo_text U1) = Some ch \<and> \<not> hasMember demo_alice ch"
proof -
  obtain ts srv' where run: "run_joins demo_platform [0, 0, 1, 1, 0, 0, 0, 0, 1, 1, 1, 1]
       ([(demo_alice, demo_room, JFindClient), (demo_bob, demo_room, JFindClient)], with_bob demo_server1) = (ts, srv')"
    by (rule prod.exhaust)
  have "demo_alice \<noteq> demo_bob" by simp
  from lost_join [OF demo_two_idle(1) this _ _ _ _ _ run, where u = U1 and now = 0 and content = "''hi''" and
      echo_policy = IncludeSender]
  show ?thesis unfolding run by (auto simp: demo_two_idle(2) simp del: abs_chat_sel)
qed

subsection \<open>A delivery in flight\<close>

text \<open>
  \<open>publish\<close> copies the pointer to the entry under the lock of the table and writes later, under
  the lock of the entry.
\<close>

definition publish_lookup :: "client_id \<Rightarrow> channel_event writer_table \<Rightarrow> nat option" where
  "publish_lookup recipient_id t =
     (case umap_find (writers t) (id_value recipient_id) of None \<Rightarrow> None | Some entry \<Rightarrow> entry)"

definition publish_write ::
  "'u platform \<Rightarrow> client_registry option \<Rightarrow> message \<Rightarrow> nat option \<Rightarrow> channel_event writer_table \<Rightarrow>
   channel_event writer_table" where
  "publish_write P reg m entry t =
     (case entry of None \<Rightarrow> t | Some e \<Rightarrow> write_entry (message_to_event P reg m) e t)"

lemma publish_split: "publisher_publish P reg i m t = publish_write P reg m (publish_lookup i t) t"
  by (simp add: publisher_publish_def publish_write_def publish_lookup_def split: option.splits)

datatype table_op = Register client_id "writer option" | Unregister client_id | Deliver channel_delivery

fun run_op :: "'u platform \<Rightarrow> table_op \<Rightarrow> channel_event writer_table \<Rightarrow> channel_event writer_table" where
  "run_op P (Register i w) t = publisher_registerSubscriber i w t"
| "run_op P (Unregister i) t = publisher_unregisterSubscriber i t"
| "run_op P (Deliver d) t = channel_deliver P d t"

text \<open>An entry that has been disarmed stays disarmed.\<close>

lemma nth_update_same: "xs ! e = x \<Longrightarrow> e < length xs \<Longrightarrow> xs[k := x] ! e = x"
  by (cases "k = e") simp_all

lemma disarmed_op:
  assumes "e < length (entries t)" and "entry_writer t e = None"
  shows "e < length (entries (run_op P op t)) \<and> entry_writer (run_op P op t) e = None"
  using assms
  by (cases op) (auto simp: publisher_register_eq table_register_def publisher_unregister_eq table_unregister_def
      entry_writer_def nth_append nth_update_same split: option.splits)

lemma disarmed_ops:
  assumes "e < length (entries t)" and "entry_writer t e = None"
  shows "entry_writer (fold (run_op P) ops t) e = None"
  using assms by (induction ops arbitrary: t) (simp_all add: disarmed_op)

lemma unregister_disarms:
  assumes wf: "table_wf P t" and "publish_lookup i t = Some e"
  shows "e < length (entries (publisher_unregisterSubscriber i t)) \<and> entry_writer (publisher_unregisterSubscriber i t) e = None"
proof -
  have at: "umap_find (writers t) (id_value i) = Some (Some e)"
    using assms(2) by (simp add: publish_lookup_def split: option.splits)
  then have "e < length (entries t)" using table_wf_entry [OF wf] by blast
  then show ?thesis
    using at by (simp add: publisher_unregister_eq table_unregister_def entry_writer_def)
qed

text \<open>
  C24: unregistering a stream waits for deliveries in flight, replacing it does not. A delivery that
  has looked up the entry of a client writes nothing once that client's stream has been unregistered,
  whatever happens to the table in between; but when the stream has been replaced by another one,
  the delivery still writes to the replaced writer, whose handler may have returned.
\<close>

theorem delivery_in_flight:
  assumes "table_wf P t"
  shows "publish_write P reg m (publish_lookup i t) (fold (run_op P) ops (publisher_unregisterSubscriber i t)) =
      fold (run_op P) ops (publisher_unregisterSubscriber i t) \<and>
    (live t (id_value i) = Some w \<longrightarrow>
      written (publish_write P reg m (publish_lookup i t) (publisher_registerSubscriber i w' t)) =
        written t @ [(w, message_to_event P reg m)])"
proof (intro conjI impI)
  show "publish_write P reg m (publish_lookup i t) (fold (run_op P) ops (publisher_unregisterSubscriber i t)) =
      fold (run_op P) ops (publisher_unregisterSubscriber i t)"
    using unregister_disarms [OF assms, of i]
    by (cases "publish_lookup i t") (simp_all add: publish_write_def write_entry_def disarmed_ops)
next
  assume "live t (id_value i) = Some w"
  then obtain e where "umap_find (writers t) (id_value i) = Some (Some e)" "entries t ! e = Some w" "e < length (entries t)"
    by (auto simp: live_def entry_writer_def split: option.splits if_splits)
  then show "written (publish_write P reg m (publish_lookup i t) (publisher_registerSubscriber i w' t)) =
      written t @ [(w, message_to_event P reg m)]"
    by (simp add: publish_write_def publish_lookup_def publisher_register_eq table_register_def entry_writer_def nth_append)
qed

theorem delivery_in_flight_witness:
  "written (publish_write demo_platform None (demo_message ''1'') (publish_lookup (StrongId (demo_text U1)) demo_table)
      (publisher_registerSubscriber (StrongId (demo_text U1)) (Some 6) demo_table)) =
   written demo_table @ [(5, message_to_event demo_platform None (demo_message ''1''))]"
  using delivery_in_flight [OF demo_table_wf, of None "demo_message ''1''" "StrongId (demo_text U1)" "[]" 5 "Some 6"]
  by (simp add: demo_table_live)

end
