(* ===== verification/Concurrent_Calls.thy ===== *)
theory Concurrent_Calls
  imports Interleavings Service_Properties
begin

text \<open>
  Joins and leaves that run at the same time. \<open>LeaveChannel::execute\<close> (\<open>leave_channel.cpp\<close>) is taken
  apart like \<open>JoinChannel::execute\<close>, one step for each port call; threads run calls of either kind
  under a schedule.
\<close>

subsection \<open>The steps of a leave\<close>

datatype leave_pc =
    LFindClient
  | LFindChannel session
  | LSave session channel
  | LBroadcast session channel
  | LSession
  | LRefind
  | LCount channel
  | LDone "unit result"

fun leave_step :: "'u platform \<Rightarrow> client_id \<Rightarrow> channel_id \<Rightarrow> leave_pc \<times> server \<Rightarrow> leave_pc \<times> server" where
  "leave_step P i c (LFindClient, srv) =
     (case clients_findById i (srv_clients srv) of
        Inl e \<Rightarrow> LDone (unexpected e) | Inr s \<Rightarrow> LFindChannel s, srv)"
| "leave_step P i c (LFindChannel s, srv) =
     (case channels_findById c (srv_channels srv) of
        Inl e \<Rightarrow> LDone (unexpected e)
      | Inr ch \<Rightarrow>
          (case removeMember (sess_id s) ch of
             (Inl e, _) \<Rightarrow> LDone (unexpected e) | (Inr _, ch') \<Rightarrow> LSave s ch'), srv)"
| "leave_step P i c (LSave s ch, srv) =
     (case channels_save ch (srv_channels srv) of
        (saved, repo) \<Rightarrow>
          (case saved of Inl e \<Rightarrow> LDone (unexpected e) | Inr _ \<Rightarrow> LBroadcast s ch, srv\<lparr>srv_channels := repo\<rparr>))"
| "leave_step P i c (LBroadcast s ch, srv) =
     (LSession,
      srv\<lparr>srv_publisher := publisher_broadcastMemberLeft P c (chan_members ch) (sess_id s)
        (sess_username s) (srv_publisher srv)\<rparr>)"
| "leave_step P i c (LSession, srv) =
     (case clients_leaveChannelAtomic i c (srv_clients srv) of
        (left, reg) \<Rightarrow>
          (if (case left of Inl e \<Rightarrow> e \<noteq> ClientNotFound | Inr _ \<Rightarrow> False) then LDone left else LRefind,
           srv\<lparr>srv_clients := reg\<rparr>))"
| "leave_step P i c (LRefind, srv) =
     (case channels_findById c (srv_channels srv) of
        Inl e \<Rightarrow> LDone (unexpected e) | Inr ch \<Rightarrow> LCount ch, srv)"
| "leave_step P i c (LCount ch, srv) = (LDone (Inr ()), publish_member_count c ch srv)"
| "leave_step P i c (LDone r, srv) = (LDone r, srv)"

text \<open>
  The steps are the use case: a leave that no other call interleaves with has ended after seven port
  calls, with the result and the server that \<open>LeaveChannel::execute\<close> as one step gives.
\<close>

lemma LeaveChannel_steps:
  "(leave_step P i c ^^ 7) (LFindClient, srv) =
     (LDone (fst (LeaveChannel_execute P i c srv)), snd (LeaveChannel_execute P i c srv))"
proof (cases "clients_findById i (srv_clients srv)")
  case (Inl e)
  then show ?thesis by (simp add: numeral_eq_Suc LeaveChannel_execute_def)
next
  case s: (Inr s)
  show ?thesis
  proof (cases "channels_findById c (srv_channels srv)")
    case (Inl e)
    then show ?thesis
      using s by (simp add: numeral_eq_Suc LeaveChannel_execute_def removeMemberAndBroadcast_def)
  next
    case ch: (Inr ch)
    obtain r ch' where rm: "removeMember (sess_id s) ch = (r, ch')" by fastforce
    show ?thesis
      using s ch rm by (cases r) (auto simp: numeral_eq_Suc LeaveChannel_execute_def removeMemberAndBroadcast_def
          channels_save_def Let_def split: prod.splits sum.splits)
  qed
qed

subsection \<open>Threads with calls\<close>

datatype call = Joining client_id channel_id join_pc | Leaving client_id channel_id leave_pc

fun call_client :: "call \<Rightarrow> client_id" where
  "call_client (Joining i c pc) = i"
| "call_client (Leaving i c pc) = i"

fun call_step :: "'u platform \<Rightarrow> call \<times> server \<Rightarrow> call \<times> server" where
  "call_step P (Joining i c pc, srv) = (case join_step P i c (pc, srv) of (pc', srv') \<Rightarrow> (Joining i c pc', srv'))"
| "call_step P (Leaving i c pc, srv) = (case leave_step P i c (pc, srv) of (pc', srv') \<Rightarrow> (Leaving i c pc', srv'))"

fun run_calls :: "'u platform \<Rightarrow> nat list \<Rightarrow> call list \<times> server \<Rightarrow> call list \<times> server" where
  "run_calls P [] st = st"
| "run_calls P (k # schedule) (ts, srv) =
     (if k < length ts
      then (case call_step P (ts ! k, srv) of (t, srv') \<Rightarrow> run_calls P schedule (ts[k := t], srv'))
      else run_calls P schedule (ts, srv))"

subsection \<open>What every schedule keeps\<close>

fun leave_ok :: "client_id set \<Rightarrow> channel_repo \<Rightarrow> client_id \<Rightarrow> leave_pc \<Rightarrow> bool" where
  "leave_ok J chans i (LFindChannel s) \<longleftrightarrow> i \<in> J \<and> sess_id s = i"
| "leave_ok J chans i (LSave s ch) \<longleftrightarrow> i \<in> J \<and> faithful J chans ch"
| "leave_ok J chans i _ \<longleftrightarrow> i \<in> J"

fun call_ok :: "client_id set \<Rightarrow> channel_repo \<Rightarrow> call \<Rightarrow> bool" where
  "call_ok J chans (Joining i c pc) \<longleftrightarrow> thread_ok J chans i pc"
| "call_ok J chans (Leaving i c pc) \<longleftrightarrow> leave_ok J chans i pc"

lemma kept_leave:
  assumes kept: "kept P J srv0 srv" and ok: "leave_ok J (srv_channels srv0) i pc"
    and step: "leave_step P i c (pc, srv) = (pc', srv')"
  shows "kept P J srv0 srv' \<and> leave_ok J (srv_channels srv0) i pc'"
proof -
  have i: "i \<in> J" using ok by (cases pc) simp_all
  have wf: "clients_wf (srv_clients srv)" "table_wf P (srv_publisher srv)" "table_wf P (srv_list_publisher srv)"
    using kept by (auto simp: kept_def tables_wf_def repos_wf_def)
  have found: "faithful J (srv_channels srv0) ch" if "channels_findById x (srv_channels srv) = Inr ch" for x ch
    using kept that by (auto simp: kept_def channels_findById_Inr)
  show ?thesis
  proof (cases pc)
    case LFindClient
    then show ?thesis
      using step kept i clients_findById_id [OF wf(1), of i] by (auto split: sum.splits)
  next
    case (LFindChannel s)
    then show ?thesis
      using step kept ok i found [of c] faithful_remove
      by (auto split: sum.splits prod.splits if_splits)
  next
    case (LSave s ch)
    then show ?thesis
      using step ok kept_save [OF kept, of ch] by (auto simp: channels_save_def)
  next
    case (LBroadcast s ch)
    then show ?thesis
      using step ok kept_tables [OF kept _ wf(3)] wf(2) by auto
  next
    case LSession
    then show ?thesis
      using step i kept kept_modify [OF kept i, of "session_leaveChannel c"]
      by (auto simp: in_place_eq session_ok_def split: if_splits)
  next
    case LRefind
    then show ?thesis using step kept i by (auto split: sum.splits)
  next
    case (LCount ch)
    then show ?thesis
      using step i kept_tables [OF kept wf(2)] wf(3) by (auto simp: publish_member_count_def)
  next
    case (LDone r)
    then show ?thesis using step kept i by auto
  qed
qed

lemma kept_call:
  assumes "kept P J srv0 srv" and "call_ok J (srv_channels srv0) t" and "call_step P (t, srv) = (t', srv')"
  shows "kept P J srv0 srv' \<and> call_ok J (srv_channels srv0) t'"
proof (cases t)
  case (Joining i c pc)
  then show ?thesis
    using assms kept_step [OF assms(1), of i pc] by (auto split: prod.splits)
next
  case (Leaving i c pc)
  then show ?thesis
    using assms kept_leave [OF assms(1), of i pc] by (auto split: prod.splits)
qed

lemma kept_calls:
  assumes "kept P J srv0 srv" and "\<forall>t\<in>set ts. call_ok J (srv_channels srv0) t"
  shows "kept P J srv0 (snd (run_calls P schedule (ts, srv)))"
  using assms
proof (induction schedule arbitrary: ts srv)
  case (Cons k schedule)
  show ?case
  proof (cases "k < length ts")
    case True
    obtain t srv' where step: "call_step P (ts ! k, srv) = (t, srv')" by fastforce
    have "call_ok J (srv_channels srv0) (ts ! k)" using Cons.prems(2) True by simp
    from kept_call [OF Cons.prems(1) this step]
    have "kept P J srv0 srv'" and ok: "call_ok J (srv_channels srv0) t" by simp_all
    moreover have "\<forall>x\<in>set (ts[k := t]). call_ok J (srv_channels srv0) x"
      using Cons.prems(2) ok set_update_subset_insert [of ts k t] by blast
    ultimately show ?thesis
      using Cons.IH [of srv' "ts[k := t]"] True step by simp
  qed (use Cons in simp)
qed simp

fun at_start :: "call \<Rightarrow> bool" where
  "at_start (Joining i c pc) \<longleftrightarrow> pc = JFindClient"
| "at_start (Leaving i c pc) \<longleftrightarrow> pc = LFindClient"

text \<open>
  Joins and leaves that run at the same time damage nobody else, whatever the order of their port
  calls. At every moment of every schedule the indices of the repositories and the tables of the
  publishers are well-formed, the rooms, the users and the posts are those of the start, and every
  client that is not itself joining or leaving is where it was and a member of exactly that channel.
\<close>

theorem concurrent_calls_spare_others:
  assumes "server_inv P srv" and "\<forall>t\<in>set calls. at_start t"
    and "srv' = snd (run_calls P schedule (calls, srv))"
  shows "tables_wf P srv' \<and> repos_wf srv' \<and> room (abs_chat srv') = room (abs_chat srv) \<and>
     user (abs_chat srv') = user (abs_chat srv) \<and> posts (abs_chat srv') = posts (abs_chat srv) \<and>
     (\<forall>j. j \<notin> call_client ` set calls \<longrightarrow> place (abs_chat srv') j = place (abs_chat srv) j \<and>
        (\<forall>c ch. channel_at (srv_channels srv') (id_value c) = Some ch \<longrightarrow>
           (hasMember j ch \<longleftrightarrow> place (abs_chat srv') j = Some c)))"
proof -
  let ?J = "call_client ` set calls"
  have "call_ok ?J (srv_channels srv) t" if "t \<in> set calls" for t
  proof -
    have "at_start t" "call_client t \<in> ?J" using that assms(2) by auto
    then show ?thesis by (cases t) (simp_all add: thread_ok_def)
  qed
  then have "kept P ?J srv srv'"
    using kept_calls [OF kept_start [OF assms(1)], of calls ?J schedule] assms(3) by simp
  from kept_others [OF assms(1) this] show ?thesis by (simp del: abs_chat_sel)
qed

theorem concurrent_calls_spare_others_witness:
  "place (abs_chat (snd (run_calls demo_platform [0, 1, 1, 0, 0, 1, 0]
      ([Joining demo_bob demo_room JFindClient, Leaving demo_bob demo_room LFindClient], with_bob demo_server)))) demo_alice =
     Some demo_room"
  using concurrent_calls_spare_others [OF demo_one_inside(1) _ refl, of
      "[Joining demo_bob demo_room JFindClient, Leaving demo_bob demo_room LFindClient]" "[0, 1, 1, 0, 0, 1, 0]"]
    demo_one_inside(2) by (simp del: abs_chat_sel run_calls.simps)

lemma run_calls_append: "run_calls P (a @ b) st = run_calls P b (run_calls P a st)"
  by (induction P a st rule: run_calls.induct) (auto split: prod.splits)

lemma run_leaving:
  "run_calls P (replicate n 0) ([Leaving i c pc, t], srv) =
     (case (leave_step P i c ^^ n) (pc, srv) of (pc', srv') \<Rightarrow> ([Leaving i c pc', t], srv'))"
  by (induction n arbitrary: pc srv) (auto simp: funpow_Suc_right simp del: funpow.simps(2) split: prod.splits)

text \<open>
  C20: and yet a client can stay behind as a ghost. While a client leaves a channel, another one that
  joins it has read the channel before the leave was written and writes its copy back after it: both
  calls succeed and the session of the client that left records no channel, but it is a member
  still, and what is then said in the channel is still written to its stream.
\<close>

theorem ghost_member:
  assumes inv: "server_inv P srv" and neq: "i \<noteq> j"
    and inside: "place (abs_chat srv) i = Some c" and idle: "user (abs_chat srv) j \<noteq> None" "place (abs_chat srv) j = None"
    and stream: "live (srv_publisher srv) (id_value i) = Some w"
    and run: "run_calls P ([1, 1] @ replicate 7 0 @ replicate 4 1)
        ([Leaving i c LFindClient, Joining j c JFindClient], srv) = (ts, srv')"
    and content: "valid_content content"
  shows "ts = [Leaving i c (LDone (Inr ())), Joining j c (JDone (Inr ()))] \<and>
     place (abs_chat srv') i = None \<and>
     (\<exists>ch. channel_at (srv_channels srv') (id_value c) = Some ch \<and> hasMember i ch) \<and>
     (\<exists>mid srv2 new ev. SendMessage_execute P u now j c content IncludeSender srv' = (Inr mid, srv2) \<and>
        written (srv_publisher srv2) = written (srv_publisher srv') @ new \<and> (w, MessageEv ev) \<in> set new \<and>
        ev_sender_id ev = id_value j \<and> ev_content ev = content)"
proof -
  note wf = server_invD [OF inv]
  obtain si sj where s: "session_at (srv_clients srv) (id_value i) = Some si"
    "session_at (srv_clients srv) (id_value j) = Some sj"
    using idle(1) place_of_session [of "srv_clients srv" i c] inside by auto
  obtain ch where ch: "channel_at (srv_channels srv) (id_value c) = Some ch"
    using membership_room [OF wf(6)] inside by auto
  have joined: "sess_joined si = [c]" "sess_joined sj = []"
    using membership_joined [OF wf(6)] s inside idle(2) by simp_all
  have members: "hasMember i ch" "\<not> hasMember j ch"
    using membership_members [OF wf(6) ch] inside idle(2) by simp_all
  have ids: "chan_id ch = c" "sess_id si = i" "id_value i \<noteq> id_value j"
    using channels_wf_entity [OF wf(3) ch] clients_wf_entity [OF wf(4) s(1)] neq by (simp_all add: strong_id_eq_iff)
  let ?left = "ch\<lparr>chan_members := uset_erase i (chan_members ch)\<rparr>" and ?joined = "ch\<lparr>chan_members := chan_members ch @ [j]\<rparr>"
  obtain T L where leave: "LeaveChannel_execute P i c srv = (Inr (), srv\<lparr>srv_channels := snd (channels_save ?left (srv_channels srv)),
      srv_clients := modify_session i (session_leaveChannel c) (srv_clients srv), srv_publisher := T, srv_list_publisher := L\<rparr>)"
    by (rule LeaveChannel_cases [OF inv, of i c]) (use s(1) ch inside in auto)
  have same: "same_tables srv (snd (LeaveChannel_execute P i c srv))" by (rule same_tables_Leave)
  then have T: "writers T = writers (srv_publisher srv)" "entries T = entries (srv_publisher srv)"
    by (simp_all add: leave same_tables_def)
  define srv1 where "srv1 = srv\<lparr>srv_channels := snd (channels_save ?left (srv_channels srv)),
      srv_clients := modify_session i (session_leaveChannel c) (srv_clients srv), srv_publisher := T, srv_list_publisher := L\<rparr>"
  have one: "run_calls P [1, 1] ([Leaving i c LFindClient, Joining j c JFindClient], srv) =
      ([Leaving i c LFindClient, Joining j c (JSave sj ?joined)], srv)"
    using s(2) ch joined(2) members(2) by (simp add: clients_findById_eq channels_findById_eq after_leaving_def)
  have run1: "run_calls P (replicate 4 1) ([Leaving i c (LDone (Inr ())), Joining j c (JSave sj ?joined)], srv1) = (ts, srv')"
    using run by (simp only: run_calls_append one run_leaving LeaveChannel_steps leave prod.case prod.sel srv1_def)
  have sj1: "session_at (srv_clients srv1) (id_value j) = Some sj"
    using s(2) ids(3) by (simp add: srv1_def)
  have clients: "srv_clients srv' = modify_session j (session_joinChannel c) (modify_session i (session_leaveChannel c) (srv_clients srv))"
    and channels: "srv_channels srv' = snd (channels_save ?joined (snd (channels_save ?left (srv_channels srv))))"
    and tables: "writers (srv_publisher srv') = writers (srv_publisher srv)" "entries (srv_publisher srv') = entries (srv_publisher srv)"
    and ts: "ts = [Leaving i c (LDone (Inr ())), Joining j c (JDone (Inr ()))]"
    using run1 sj1 T by (auto simp: numeral_eq_Suc in_place_eq channels_save_def publisher_broadcastMemberJoined_def srv1_def)
  have at: "channel_at (srv_channels srv') (id_value c) = Some ?joined"
    using ids ch by (simp add: channels)
  have sj: "session_at (srv_clients srv') (id_value j) = Some (session_joinChannel c sj)"
    using s ids by (simp add: clients)
  have live: "live (srv_publisher srv') (id_value i) = Some w"
    using stream live_cong [OF tables] by simp
  have "trim content = content"
    using content by (intro trim_trimmed_id) (simp add: valid_content_def)
  then have create: "MessageContent_create content = Inr (MessageContent content)"
    using content by (auto simp: MessageContent_create_def content_trim_eq valid_content_def Let_def)
  let ?m = "sent_message P u now j c (MessageContent content)"
  let ?ev = "message_to_event P (Some (srv_clients srv')) ?m" and ?to = "recipientsFor ?joined ?m IncludeSender"
  let ?srv2 = "publish_each P ?m ?to (srv'\<lparr>srv_messages := snd (messages_save ?m (srv_messages srv'))\<rparr>)"
  have sent: "SendMessage_execute P u now j c content IncludeSender srv' = (Inr (strong_id_generate P u), ?srv2)"
    using at sj create by (simp add: SendMessage_execute_def clients_findById_eq channels_findById_eq messages_save_def
        sent_message_def hasMember_def Let_def)
  have "i \<in> set ?to"
    using members(1) by (simp add: recipientsFor_def recipients_loop_filter hasMember_def)
  then have "w \<in> set (List.map_filter (\<lambda>r. live (srv_publisher srv') (id_value r)) ?to)"
    using live by (force simp: List.map_filter_def image_iff)
  then have "\<exists>new ev. written (srv_publisher ?srv2) = written (srv_publisher srv') @ new \<and> (w, MessageEv ev) \<in> set new \<and>
      ev_sender_id ev = id_value j \<and> ev_content ev = content"
    by (auto simp: written_publish_each message_to_event_def sent_message_def)
  then have "\<exists>mid srv2 new ev. SendMessage_execute P u now j c content IncludeSender srv' = (Inr mid, srv2) \<and>
      written (srv_publisher srv2) = written (srv_publisher srv') @ new \<and> (w, MessageEv ev) \<in> set new \<and>
      ev_sender_id ev = id_value j \<and> ev_content ev = content"
    using sent by blast
  moreover have "place (abs_chat srv') i = None"
    using s ids neq joined by (simp add: clients place_of_modify)
      (simp add: place_of_def session_leaveChannel_def uset_erase_def)
  ultimately show ?thesis
    using ts at members(1) by (auto simp: hasMember_def)
qed

theorem ghost_member_witness:
  "\<exists>srv' ch. srv' = snd (run_calls demo_platform ([1, 1] @ replicate 7 0 @ replicate 4 1)
       ([Leaving demo_alice demo_room LFindClient, Joining demo_bob demo_room JFindClient], with_bob demo_stream_server)) \<and>
     place (abs_chat srv') demo_alice = None \<and>
     channel_at (srv_channels srv') (demo_text U1) = Some ch \<and> hasMember demo_alice ch"
proof -
  have "\<not> user_taken (Username ''bob'') (abs_chat demo_stream_server)"
    by (simp add: demo_stream_abs demo_server_inv(2) user_taken_def del: abs_chat_sel)
  note bob = with_bob_inv [OF demo_stream_inv demo_stream_fresh this]
  obtain ts srv' where run: "run_calls demo_platform ([1, 1] @ replicate 7 0 @ replicate 4 1)
       ([Leaving demo_alice demo_room LFindClient, Joining demo_bob demo_room JFindClient], with_bob demo_stream_server) = (ts, srv')"
    by (rule prod.exhaust)
  have places: "place (abs_chat (with_bob demo_stream_server)) demo_alice = Some demo_room"
    "user (abs_chat (with_bob demo_stream_server)) demo_bob \<noteq> None" "place (abs_chat (with_bob demo_stream_server)) demo_bob = None"
    by (simp_all add: bob(2) demo_stream_abs demo_server_inv(2) del: abs_chat_sel)
  have stream: "live (srv_publisher (with_bob demo_stream_server)) (id_value demo_alice) = Some 5"
    using demo_stream_live by (simp add: with_bob_def)
  have "valid_content ''hi''" by (simp add: valid_content_def trimmed_def is_ascii_space_def)
  moreover have "demo_alice \<noteq> demo_bob" by simp
  ultimately show ?thesis
    using ghost_member [OF bob(1) _ places stream run, where u = U1 and now = 0 and content = "''hi''"]
    unfolding run by auto
qed

end
