(* ===== verification/Handler_Tasks.thy ===== *)
theory Handler_Tasks
  imports Tasks Service_Properties Concurrent_Calls
begin

text \<open>
  Every handler of the server as a task: the same code as in \<open>Usecases\<close> and \<open>Service\<close>, cut at each
  operation of a store, at each lock of a publisher's table and at each lock of a writer entry. A
  handler that nothing disturbs is the handler as one step (\<open>handle_alone\<close>).
\<close>

subsection \<open>One access\<close>

definition look :: "(server \<Rightarrow> 'a) \<Rightarrow> server \<Rightarrow> 'a \<times> server" where
  "look f srv = (f srv, srv)"

definition on_channels :: "(channel_repo \<Rightarrow> 'a \<times> channel_repo) \<Rightarrow> server \<Rightarrow> 'a \<times> server" where
  "on_channels f srv = (case f (srv_channels srv) of (a, repo) \<Rightarrow> (a, srv\<lparr>srv_channels := repo\<rparr>))"

definition on_clients :: "(client_registry \<Rightarrow> 'a \<times> client_registry) \<Rightarrow> server \<Rightarrow> 'a \<times> server" where
  "on_clients f srv = (case f (srv_clients srv) of (a, reg) \<Rightarrow> (a, srv\<lparr>srv_clients := reg\<rparr>))"

definition on_messages :: "(message_repo \<Rightarrow> 'a \<times> message_repo) \<Rightarrow> server \<Rightarrow> 'a \<times> server" where
  "on_messages f srv = (case f (srv_messages srv) of (a, repo) \<Rightarrow> (a, srv\<lparr>srv_messages := repo\<rparr>))"

definition on_publisher ::
  "(channel_event writer_table \<Rightarrow> channel_event writer_table) \<Rightarrow> server \<Rightarrow> unit \<times> server" where
  "on_publisher f srv = ((), srv\<lparr>srv_publisher := f (srv_publisher srv)\<rparr>)"

definition on_list_publisher ::
  "(channel_list_event writer_table \<Rightarrow> channel_list_event writer_table) \<Rightarrow> server \<Rightarrow> unit \<times> server" where
  "on_list_publisher f srv = ((), srv\<lparr>srv_list_publisher := f (srv_list_publisher srv)\<rparr>)"

lemmas access_defs = look_def on_channels_def on_clients_def on_messages_def on_publisher_def on_list_publisher_def

type_synonym ('u, 'r) handler = "('u, server, 'r) task"

subsection \<open>The publishers\<close>

text \<open>The table's lock is held while the targets are copied, then each entry's lock for its write.\<close>

definition write_task :: "channel_event \<Rightarrow> nat \<Rightarrow> ('u, unit) handler" where
  "write_task event entry = access (on_publisher (write_entry event entry)) Returned"

definition broadcast_task :: "'u platform \<Rightarrow> client_id list \<Rightarrow> channel_event \<Rightarrow> ('u, unit) handler" where
  "broadcast_task P recipients event =
     access (look (\<lambda>srv. member_targets P recipients (writers (srv_publisher srv)) []))
       (for_each (write_task event))"

definition broadcastMemberJoined_task ::
  "'u platform \<Rightarrow> channel_id \<Rightarrow> client_id list \<Rightarrow> client_id \<Rightarrow> username \<Rightarrow> ('u, unit) handler" where
  "broadcastMemberJoined_task P channel_id recipients client_id name =
     broadcast_task P recipients (MemberJoined (id_value channel_id) (id_value client_id) (username_value name))"

definition broadcastMemberLeft_task ::
  "'u platform \<Rightarrow> channel_id \<Rightarrow> client_id list \<Rightarrow> client_id \<Rightarrow> username \<Rightarrow> ('u, unit) handler" where
  "broadcastMemberLeft_task P channel_id recipients client_id name =
     broadcast_task P recipients (MemberLeft (id_value channel_id) (id_value client_id) (username_value name))"

text \<open>The sender's name is looked up while the entry's lock is held.\<close>

definition publish_task :: "'u platform \<Rightarrow> message \<Rightarrow> client_id \<Rightarrow> ('u, unit) handler" where
  "publish_task P m recipient_id =
     access (look (\<lambda>srv. publish_lookup recipient_id (srv_publisher srv)))
       (\<lambda>entry. case entry of
          None \<Rightarrow> Returned ()
        | Some e \<Rightarrow>
            access (\<lambda>srv. on_publisher (publish_write P (Some (srv_clients srv)) m (Some e)) srv) Returned)"

text \<open>Unregistering takes the entry out of the table under its lock, and disarms it under the entry's.\<close>

definition take_entry :: "string \<Rightarrow> 'ev writer_table \<Rightarrow> nat option \<times> 'ev writer_table" where
  "take_entry key t =
     (case umap_find (writers t) key of
        None \<Rightarrow> (None, t)
      | Some entry \<Rightarrow> (entry, t\<lparr>writers := umap_erase key (writers t)\<rparr>))"

definition unregister_task :: "client_id \<Rightarrow> ('u, unit) handler" where
  "unregister_task i =
     access (\<lambda>srv. case take_entry (id_value i) (srv_publisher srv) of
               (entry, t) \<Rightarrow> (entry, srv\<lparr>srv_publisher := t\<rparr>))
       (\<lambda>entry. case entry of None \<Rightarrow> Returned () | Some e \<Rightarrow> access (on_publisher (disarm_entry e)) Returned)"

definition list_write_task :: "channel_list_event \<Rightarrow> nat \<Rightarrow> ('u, unit) handler" where
  "list_write_task event entry = access (on_list_publisher (write_entry event entry)) Returned"

definition list_publish_task :: "channel_list_event \<Rightarrow> ('u, unit) handler" where
  "list_publish_task event =
     access (look (\<lambda>srv. all_targets (writers (srv_list_publisher srv)) [])) (for_each (list_write_task event))"

definition publishChannelCreated_task :: "channel \<Rightarrow> ('u, unit) handler" where
  "publishChannelCreated_task ch = list_publish_task (ChannelCreated (channel_summary_of ch))"

definition publishMemberCount_task :: "channel_id \<Rightarrow> channel \<Rightarrow> ('u, unit) handler" where
  "publishMemberCount_task channel_id ch =
     list_publish_task (MemberCountChanged (id_value channel_id) (int32_of_size (memberCount ch)))"

definition list_unregister_task :: "client_id \<Rightarrow> ('u, unit) handler" where
  "list_unregister_task i =
     access (\<lambda>srv. case take_entry (id_value i) (srv_list_publisher srv) of
               (entry, t) \<Rightarrow> (entry, srv\<lparr>srv_list_publisher := t\<rparr>))
       (\<lambda>entry. case entry of None \<Rightarrow> Returned () | Some e \<Rightarrow> access (on_list_publisher (disarm_entry e)) Returned)"

lemma run_writes:
  "run_alone u (for_each (write_task event) es) srv = ((), srv\<lparr>srv_publisher := fold (write_entry event) es (srv_publisher srv)\<rparr>)"
  "run_alone u (for_each (list_write_task lev) es) srv =
     ((), srv\<lparr>srv_list_publisher := fold (write_entry lev) es (srv_list_publisher srv)\<rparr>)"
  by (induction es arbitrary: srv) (simp_all add: write_task_def list_write_task_def access_defs)

lemma run_broadcast [simp]:
  "run_alone u (broadcastMemberJoined_task P c rs i n) srv =
     ((), srv\<lparr>srv_publisher := publisher_broadcastMemberJoined P c rs i n (srv_publisher srv)\<rparr>)"
  "run_alone u (broadcastMemberLeft_task P c rs i n) srv =
     ((), srv\<lparr>srv_publisher := publisher_broadcastMemberLeft P c rs i n (srv_publisher srv)\<rparr>)"
  by (simp_all add: broadcastMemberJoined_task_def broadcastMemberLeft_task_def broadcast_task_def look_def run_writes
      publisher_broadcastMemberJoined_def publisher_broadcastMemberLeft_def)

lemma run_publish [simp]:
  "run_alone u (publish_task P m r) srv =
     ((), srv\<lparr>srv_publisher := publisher_publish P (Some (srv_clients srv)) r m (srv_publisher srv)\<rparr>)"
  by (simp add: publish_task_def access_defs publish_split publish_write_def split: option.split)

lemma run_unregister [simp]:
  "run_alone u (unregister_task i) srv =
     ((), srv\<lparr>srv_publisher := publisher_unregisterSubscriber i (srv_publisher srv)\<rparr>)"
  "run_alone u (list_unregister_task i) srv =
     ((), srv\<lparr>srv_list_publisher := list_unregisterSubscriber i (srv_list_publisher srv)\<rparr>)"
  by (simp_all add: unregister_task_def list_unregister_task_def take_entry_def access_defs Let_def
      publisher_unregisterSubscriber_def list_unregisterSubscriber_def split: option.split)

lemma run_list_publish [simp]:
  "run_alone u (publishChannelCreated_task ch) srv =
     ((), srv\<lparr>srv_list_publisher := list_publishChannelCreated ch (srv_list_publisher srv)\<rparr>)"
  "run_alone u (publishMemberCount_task c ch) srv = ((), publish_member_count c ch srv)"
  by (simp_all add: publishChannelCreated_task_def publishMemberCount_task_def list_publish_task_def look_def run_writes
      list_publishChannelCreated_def publish_member_count_def list_publishMemberCountChanged_def)

subsection \<open>The use cases\<close>

definition removeMember_task ::
  "'u platform \<Rightarrow> session \<Rightarrow> channel_id \<Rightarrow> ('u, unit result) handler" where
  "removeMember_task P s channel_id =
     access (look (\<lambda>srv. channels_findById channel_id (srv_channels srv))) (\<lambda>found. case found of
       Inl e \<Rightarrow> Returned (unexpected e)
     | Inr ch \<Rightarrow>
         (case removeMember (sess_id s) ch of
            (Inl e, _) \<Rightarrow> Returned (unexpected e)
          | (Inr _, ch') \<Rightarrow>
              access (on_channels (channels_save ch')) (\<lambda>saved. case saved of
                Inl e \<Rightarrow> Returned (unexpected e)
              | Inr _ \<Rightarrow>
                  and_then (broadcastMemberLeft_task P channel_id (chan_members ch') (sess_id s) (sess_username s))
                    (\<lambda>_. Returned (Inr ())))))"

definition LeaveChannel_task ::
  "'u platform \<Rightarrow> client_id \<Rightarrow> channel_id \<Rightarrow> ('u, unit result) handler" where
  "LeaveChannel_task P client_id channel_id =
     access (look (\<lambda>srv. clients_findById client_id (srv_clients srv))) (\<lambda>found. case found of
       Inl e \<Rightarrow> Returned (unexpected e)
     | Inr s \<Rightarrow>
         and_then (removeMember_task P s channel_id) (\<lambda>removed. case removed of
           Inl e \<Rightarrow> Returned (unexpected e)
         | Inr _ \<Rightarrow>
             access (on_clients (clients_leaveChannelAtomic client_id channel_id)) (\<lambda>left.
               if fatal_leave left then Returned left
               else access (look (\<lambda>srv. channels_findById channel_id (srv_channels srv))) (\<lambda>refound.
                 case refound of
                   Inl e \<Rightarrow> Returned (unexpected e)
                 | Inr ch \<Rightarrow> and_then (publishMemberCount_task channel_id ch) (\<lambda>_. Returned (Inr ()))))))"

fun leave_each_task :: "'u platform \<Rightarrow> session \<Rightarrow> channel_id list \<Rightarrow> ('u, unit result) handler" where
  "leave_each_task P s [] = Returned (Inr ())"
| "leave_each_task P s (other_channel_id # rest) =
     and_then (removeMember_task P s other_channel_id) (\<lambda>removed.
       if fatal_removal removed then Returned removed
       else access (on_clients (clients_leaveChannelAtomic (sess_id s) other_channel_id)) (\<lambda>left.
         if fatal_leave left then Returned left
         else access (look (\<lambda>srv. channels_findById other_channel_id (srv_channels srv))) (\<lambda>found.
           and_then (case found of Inl e \<Rightarrow> Returned () | Inr other \<Rightarrow> publishMemberCount_task other_channel_id other)
             (\<lambda>_. leave_each_task P s rest))))"

definition join_found_task ::
  "'u platform \<Rightarrow> client_id \<Rightarrow> session \<Rightarrow> channel \<Rightarrow> channel_id \<Rightarrow> ('u, unit result) handler" where
  "join_found_task P client_id s ch target =
     and_then (leave_each_task P s (other_channels_loop target (sess_joined s) [])) (\<lambda>left. case left of
       Inl e \<Rightarrow> Returned (unexpected e)
     | Inr _ \<Rightarrow>
         if hasMember client_id ch
         then access (on_clients (clients_joinChannelAtomic client_id target)) Returned
         else (case addMember client_id ch of
             (Inl e, _) \<Rightarrow> Returned (unexpected e)
           | (Inr _, ch1) \<Rightarrow>
               access (on_channels (channels_save ch1)) (\<lambda>saved. case saved of
                 Inl e \<Rightarrow> Returned (unexpected e)
               | Inr _ \<Rightarrow>
                   access (on_clients (clients_joinChannelAtomic client_id target)) (\<lambda>joined. case joined of
                     Inl e \<Rightarrow> Returned (unexpected e)
                   | Inr _ \<Rightarrow>
                       and_then (broadcastMemberJoined_task P (chan_id ch1) (chan_members ch1) client_id (sess_username s))
                         (\<lambda>_. and_then (publishMemberCount_task (chan_id ch1) ch1) (\<lambda>_. Returned (Inr ())))))))"

definition JoinChannel_task ::
  "'u platform \<Rightarrow> client_id \<Rightarrow> channel_id \<Rightarrow> ('u, unit result) handler" where
  "JoinChannel_task P client_id channel_id =
     access (look (\<lambda>srv. clients_findById client_id (srv_clients srv))) (\<lambda>found. case found of
       Inl e \<Rightarrow> Returned (unexpected e)
     | Inr s \<Rightarrow>
         access (look (\<lambda>srv. channels_findById channel_id (srv_channels srv))) (\<lambda>chan_found. case chan_found of
           Inl e \<Rightarrow> Returned (unexpected e)
         | Inr ch \<Rightarrow> join_found_task P client_id s ch channel_id))"

definition JoinChannelByName_task ::
  "'u platform \<Rightarrow> client_id \<Rightarrow> string \<Rightarrow> ('u, channel_id result) handler" where
  "JoinChannelByName_task P client_id name =
     access (look (\<lambda>srv. clients_findById client_id (srv_clients srv))) (\<lambda>found. case found of
       Inl e \<Rightarrow> Returned (unexpected e)
     | Inr s \<Rightarrow>
         (case ChannelName_create (trim name) of
            None \<Rightarrow> Returned (unexpected InvalidChannelName)
          | Some validated_name \<Rightarrow>
              access (look (\<lambda>srv. channels_findByName validated_name (srv_channels srv))) (\<lambda>existing. case existing of
                Inl e \<Rightarrow> Returned (unexpected e)
              | Inr ch \<Rightarrow>
                  and_then (join_found_task P client_id s ch (chan_id ch)) (\<lambda>joined. case joined of
                    Inl e \<Rightarrow> Returned (unexpected e) | Inr _ \<Rightarrow> Returned (Inr (chan_id ch))))))"

definition CreateChannel_task ::
  "'u platform \<Rightarrow> int \<Rightarrow> client_id \<Rightarrow> string \<Rightarrow> ('u, channel_id result) handler" where
  "CreateChannel_task P system_now client_id name =
     access (look (\<lambda>srv. clients_findById client_id (srv_clients srv))) (\<lambda>found. case found of
       Inl e \<Rightarrow> Returned (unexpected e)
     | Inr s \<Rightarrow>
         (case ChannelName_create (trim name) of
            None \<Rightarrow> Returned (unexpected InvalidChannelName)
          | Some validated_name \<Rightarrow>
              draw (\<lambda>u. on_channels (channels_create P u system_now validated_name)) (\<lambda>created. case created of
                Inl e \<Rightarrow> Returned (unexpected e)
              | Inr ch \<Rightarrow> and_then (publishChannelCreated_task ch) (\<lambda>_. Returned (Inr (chan_id ch))))))"

text \<open>The identifier of the message is drawn just before the message is saved.\<close>

definition SendMessage_task ::
  "'u platform \<Rightarrow> int \<Rightarrow> client_id \<Rightarrow> channel_id \<Rightarrow> string \<Rightarrow> EchoPolicy \<Rightarrow> ('u, message_id result) handler" where
  "SendMessage_task P system_now sender_id channel_id content echo_policy =
     access (look (\<lambda>srv. clients_findById sender_id (srv_clients srv))) (\<lambda>sender. case sender of
       Inl e \<Rightarrow> Returned (unexpected e)
     | Inr _ \<Rightarrow>
         access (look (\<lambda>srv. channels_findById channel_id (srv_channels srv))) (\<lambda>found. case found of
           Inl e \<Rightarrow> Returned (unexpected e)
         | Inr ch \<Rightarrow>
             if \<not> hasMember sender_id ch then Returned (unexpected NotAMember)
             else (case MessageContent_create content of
                Inl e \<Rightarrow> Returned (unexpected e)
              | Inr validated_content \<Rightarrow>
                  draw (\<lambda>u srv.
                      let m = \<lparr>msg_id = strong_id_generate P u, msg_sender_id = sender_id,
                               msg_channel_id = channel_id, msg_content = validated_content, msg_sent_at = system_now\<rparr>
                      in case on_messages (messages_save m) srv of (saved, srv') \<Rightarrow> ((saved, m), srv'))
                    (\<lambda>(saved, m). case saved of
                       Inl e \<Rightarrow> Returned (unexpected e)
                     | Inr _ \<Rightarrow>
                         and_then (for_each (publish_task P m) (recipientsFor ch m echo_policy))
                           (\<lambda>_. Returned (Inr (msg_id m)))))))"

definition ListMessages_task ::
  "client_id \<Rightarrow> channel_id \<Rightarrow> message_id option \<Rightarrow> 32 word \<Rightarrow> ('u, (message list \<times> bool) result) handler" where
  "ListMessages_task client_id channel_id before_message_id limit =
     access (look (\<lambda>srv. channels_findById channel_id (srv_channels srv))) (\<lambda>found. case found of
       Inl e \<Rightarrow> Returned (unexpected e)
     | Inr ch \<Rightarrow>
         if \<not> hasMember client_id ch then Returned (unexpected NotAMember)
         else
           (let capped = min limit kServerMaxLimit
            in access (look (\<lambda>srv. case before_message_id of
                    Some before \<Rightarrow> messages_listBefore channel_id before capped (srv_messages srv)
                  | None \<Rightarrow> messages_recent channel_id capped (srv_messages srv))) (\<lambda>page.
                 if page = [] then Returned (Inr (page, False))
                 else access (look (\<lambda>srv. messages_listBefore channel_id (msg_id (hd page)) 1 (srv_messages srv)))
                   (\<lambda>older. Returned (Inr (page, older \<noteq> []))))))"

fun expire_channels_task :: "'u platform \<Rightarrow> session \<Rightarrow> channel_id list \<Rightarrow> ('u, unit) handler" where
  "expire_channels_task P s [] = Returned ()"
| "expire_channels_task P s (channel_id # rest) =
     and_then (removeMember_task P s channel_id) (\<lambda>_. expire_channels_task P s rest)"

definition expire_task :: "'u platform \<Rightarrow> session \<Rightarrow> ('u, unit) handler" where
  "expire_task P s =
     and_then (expire_channels_task P s (sess_joined s)) (\<lambda>_.
       access (on_clients (clients_remove (sess_id s))) (\<lambda>_. unregister_task (sess_id s)))"

definition ExpireInactiveClients_task :: "'u platform \<Rightarrow> int \<Rightarrow> ('u, nat) handler" where
  "ExpireInactiveClients_task P deadline =
     access (look (\<lambda>srv. clients_collectExpired deadline (srv_clients srv))) (\<lambda>expired.
       and_then (for_each (expire_task P) expired) (\<lambda>_. Returned (length expired)))"

lemma run_removeMember [simp]:
  "run_alone u (removeMember_task P s c) srv = removeMemberAndBroadcast P s c srv"
  by (simp add: removeMember_task_def removeMemberAndBroadcast_def look_def on_channels_def
      split: sum.split prod.split)

lemma run_LeaveChannel [simp]:
  "run_alone u (LeaveChannel_task P i c) srv = LeaveChannel_execute P i c srv"
  by (auto simp: LeaveChannel_task_def LeaveChannel_execute_def look_def on_clients_def Let_def
      split: sum.splits prod.splits)

lemma run_leave_each [simp]: "run_alone u (leave_each_task P s cs) srv = leave_each P s cs srv"
  by (induction cs arbitrary: srv)
    (auto simp: look_def on_clients_def Let_def split: sum.splits prod.splits)

lemma run_join_found [simp]: "run_alone u (join_found_task P i s ch c) srv = join_found P i s ch c srv"
  by (auto simp: join_found_task_def join_found_tail join_tail_def leaveOtherChannels_def on_clients_def on_channels_def
      channels_save_def Let_def split: sum.splits prod.splits)

lemma run_JoinChannel [simp]:
  "run_alone u (JoinChannel_task P i c) srv = JoinChannel_execute P i c srv"
  "run_alone u (JoinChannelByName_task P i n) srv = JoinChannel_executeByName P i n srv"
  by (auto simp: JoinChannel_task_def JoinChannel_execute_def JoinChannelByName_task_def JoinChannel_executeByName_def
      look_def split: sum.splits option.splits prod.splits)

lemma run_CreateChannel [simp]:
  "run_alone u (CreateChannel_task P t i n) srv = CreateChannel_execute P u t i n srv"
  by (auto simp: CreateChannel_task_def CreateChannel_execute_def look_def on_channels_def
      split: sum.splits option.splits prod.splits)

lemma run_publish_each [simp]:
  "run_alone u (for_each (publish_task P m) rs) srv = ((), publish_each P m rs srv)"
  by (induction rs arbitrary: srv) simp_all

lemma run_SendMessage [simp]:
  "run_alone u (SendMessage_task P t i c content policy) srv = SendMessage_execute P u t i c content policy srv"
  by (auto simp: SendMessage_task_def SendMessage_execute_def look_def on_messages_def Let_def
      split: sum.splits prod.splits)

lemma run_ListMessages [simp]:
  "run_alone u (ListMessages_task i c before limit) srv = (ListMessages_execute i c before limit srv, srv)"
  by (auto simp: ListMessages_task_def ListMessages_execute_def look_def Let_def split: sum.splits option.splits)

lemma run_expire_channels [simp]: "run_alone u (expire_channels_task P s cs) srv = ((), expire_channels P s cs srv)"
  by (induction cs arbitrary: srv) (simp_all split: prod.split)

lemma run_expire_each: "expire_each P ss n srv = (n + length ss, snd (run_alone u (for_each (expire_task P) ss) srv))"
  by (induction ss arbitrary: n srv)
    (auto simp: expire_task_def on_clients_def Let_def split: prod.splits)

lemma run_Expire [simp]:
  "run_alone u (ExpireInactiveClients_task P deadline) srv = ExpireInactiveClients_run P deadline srv"
  by (simp add: ExpireInactiveClients_task_def ExpireInactiveClients_run_def look_def run_expire_each [of P _ 0 _ u]
      split: prod.split)

subsection \<open>The procedures\<close>

definition status_task :: "('u, 'a result) handler \<Rightarrow> ('u, grpc_status) handler" where
  "status_task use_case =
     and_then use_case (\<lambda>result. case result of Inl e \<Rightarrow> Returned (errorToStatus e) | Inr _ \<Rightarrow> Returned status_ok)"

definition Connect_task :: "'u platform \<Rightarrow> int \<Rightarrow> int \<Rightarrow> string \<Rightarrow> ('u, grpc_status \<times> string) handler" where
  "Connect_task P system_now steady_now request_username =
     (case Username_create (trim request_username) of
        None \<Rightarrow> Returned (errorToStatus InvalidUsername, [])
      | Some name \<Rightarrow>
          draw (\<lambda>u. on_clients (clients_registerClient P u system_now steady_now name)) (\<lambda>registered.
            case registered of
              Inl e \<Rightarrow> Returned (errorToStatus e, []) | Inr s \<Rightarrow> Returned (status_ok, id_value (sess_id s))))"

definition Disconnect_task :: "'u platform \<Rightarrow> string \<Rightarrow> ('u, grpc_status) handler" where
  "Disconnect_task P request_client_id =
     (case strong_id_parse P (trim request_client_id) of
        None \<Rightarrow> Returned (errorToStatus ClientNotFound)
      | Some client_id \<Rightarrow>
          access (look (\<lambda>srv. clients_findById client_id (srv_clients srv))) (\<lambda>found. case found of
            Inl e \<Rightarrow> Returned (errorToStatus e)
          | Inr s \<Rightarrow>
              and_then (for_each (\<lambda>c. and_then (LeaveChannel_task P client_id c) (\<lambda>_. Returned ())) (sess_joined s)) (\<lambda>_.
                access (on_clients (clients_remove client_id)) (\<lambda>removed. case removed of
                  Inl e \<Rightarrow> Returned (errorToStatus e)
                | Inr _ \<Rightarrow> and_then (unregister_task client_id) (\<lambda>_. Returned status_ok)))))"

definition CreateChannel_call ::
  "'u platform \<Rightarrow> int \<Rightarrow> string \<Rightarrow> string \<Rightarrow> ('u, grpc_status \<times> string \<times> string) handler" where
  "CreateChannel_call P system_now request_client_id request_channel_name =
     (case strong_id_parse P (trim request_client_id) of
        None \<Rightarrow> Returned (errorToStatus ClientNotFound, [], [])
      | Some client_id \<Rightarrow>
          let trimmed_name = trim request_channel_name
          in and_then (CreateChannel_task P system_now client_id trimmed_name) (\<lambda>created. case created of
               Inl e \<Rightarrow> Returned (errorToStatus e, [], []) | Inr c \<Rightarrow> Returned (status_ok, id_value c, trimmed_name)))"

definition JoinChannel_call :: "'u platform \<Rightarrow> string \<Rightarrow> string \<Rightarrow> ('u, grpc_status) handler" where
  "JoinChannel_call P request_client_id request_channel_id =
     (case strong_id_parse P (trim request_client_id) of
        None \<Rightarrow> Returned (errorToStatus ClientNotFound)
      | Some client_id \<Rightarrow>
          let trimmed_channel = trim request_channel_id
          in (case strong_id_parse P trimmed_channel of
                Some channel_id \<Rightarrow> status_task (JoinChannel_task P client_id channel_id)
              | None \<Rightarrow> status_task (JoinChannelByName_task P client_id trimmed_channel)))"

definition LeaveChannel_call :: "'u platform \<Rightarrow> string \<Rightarrow> string \<Rightarrow> ('u, grpc_status) handler" where
  "LeaveChannel_call P request_client_id request_channel_id =
     (case strong_id_parse P (trim request_client_id) of
        None \<Rightarrow> Returned (errorToStatus ClientNotFound)
      | Some client_id \<Rightarrow>
          (case strong_id_parse P (trim request_channel_id) of
             None \<Rightarrow> Returned (errorToStatus ChannelNotFound)
           | Some channel_id \<Rightarrow> status_task (LeaveChannel_task P client_id channel_id)))"

definition SendMessage_call ::
  "'u platform \<Rightarrow> int \<Rightarrow> string \<Rightarrow> string \<Rightarrow> string \<Rightarrow> ('u, grpc_status \<times> string) handler" where
  "SendMessage_call P system_now request_client_id request_channel_id request_content =
     (case strong_id_parse P (trim request_client_id) of
        None \<Rightarrow> Returned (errorToStatus ClientNotFound, [])
      | Some client_id \<Rightarrow>
          (case strong_id_parse P (trim request_channel_id) of
             None \<Rightarrow> Returned (errorToStatus ChannelNotFound, [])
           | Some channel_id \<Rightarrow>
               and_then (SendMessage_task P system_now client_id channel_id (trim request_content) IncludeSender)
                 (\<lambda>sent. case sent of
                    Inl e \<Rightarrow> Returned (errorToStatus e, []) | Inr m \<Rightarrow> Returned (status_ok, id_value m))))"

fun listed_task :: "'u platform \<Rightarrow> message list \<Rightarrow> message_event list \<Rightarrow> ('u, message_event list) handler" where
  "listed_task P [] events = Returned events"
| "listed_task P (m # rest) events =
     access (look (\<lambda>srv. listed_event P (srv_clients srv) m)) (\<lambda>event. listed_task P rest (events @ [event]))"

definition ListMessages_call ::
  "'u platform \<Rightarrow> string \<Rightarrow> string \<Rightarrow> string \<Rightarrow> 32 word \<Rightarrow>
   ('u, grpc_status \<times> message_event list \<times> bool) handler" where
  "ListMessages_call P request_client_id request_channel_id request_before limit =
     (case strong_id_parse P (trim request_client_id) of
        None \<Rightarrow> Returned (errorToStatus ClientNotFound, [], False)
      | Some client_id \<Rightarrow>
          (case strong_id_parse P (trim request_channel_id) of
             None \<Rightarrow> Returned (errorToStatus ChannelNotFound, [], False)
           | Some channel_id \<Rightarrow>
               let trimmed_cursor = trim request_before
               in (case (if trimmed_cursor = [] then Some None
                         else map_option Some (strong_id_parse P trimmed_cursor)) of
                     None \<Rightarrow> Returned (errorToStatus InvalidArgument, [], False)
                   | Some cursor \<Rightarrow>
                       and_then (ListMessages_task client_id channel_id cursor limit) (\<lambda>result. case result of
                         Inl e \<Rightarrow> Returned (errorToStatus e, [], False)
                       | Inr (page, has_more) \<Rightarrow>
                           and_then (listed_task P page []) (\<lambda>events. Returned (status_ok, events, has_more))))))"

definition Heartbeat_task :: "'u platform \<Rightarrow> int \<Rightarrow> string \<Rightarrow> ('u, grpc_status) handler" where
  "Heartbeat_task P steady_now request_client_id =
     (case strong_id_parse P (trim request_client_id) of
        None \<Rightarrow> Returned (errorToStatus ClientNotFound)
      | Some client_id \<Rightarrow> status_task (access (on_clients (clients_touchHeartbeat steady_now client_id)) Returned))"

definition Subscribe_task ::
  "'u platform \<Rightarrow> string \<Rightarrow> string \<Rightarrow> writer \<Rightarrow> ('u, grpc_status option) handler" where
  "Subscribe_task P request_client_id request_channel_id w =
     (case strong_id_parse P (trim request_client_id) of
        None \<Rightarrow> Returned (Some (errorToStatus ClientNotFound))
      | Some client_id \<Rightarrow>
          (case strong_id_parse P (trim request_channel_id) of
             None \<Rightarrow> Returned (Some (errorToStatus ChannelNotFound))
           | Some channel_id \<Rightarrow>
               access (on_publisher (publisher_registerSubscriber client_id (Some w))) (\<lambda>_.
                 access (look (SubscribeToChannel_execute client_id channel_id)) (\<lambda>authorized. case authorized of
                   Inl e \<Rightarrow> and_then (unregister_task client_id) (\<lambda>_. Returned (Some (errorToStatus e)))
                 | Inr _ \<Rightarrow> Returned None))))"

text \<open>The table's lock is held over the snapshot, so the channels are read in the same access.\<close>

definition SubscribeList_task :: "'u platform \<Rightarrow> string \<Rightarrow> writer \<Rightarrow> ('u, grpc_status option) handler" where
  "SubscribeList_task P request_client_id w =
     (case strong_id_parse P (trim request_client_id) of
        None \<Rightarrow> Returned (Some (errorToStatus ClientNotFound))
      | Some client_id \<Rightarrow>
          access (look (\<lambda>srv. clients_findById client_id (srv_clients srv))) (\<lambda>found. case found of
            Inl e \<Rightarrow> Returned (Some (errorToStatus e))
          | Inr _ \<Rightarrow>
              access (\<lambda>srv. on_list_publisher
                  (list_registerSubscriberWithSnapshot (srv_channels srv) client_id (Some w)) srv)
                (\<lambda>_. Returned None)))"

text \<open>What can run on the server, with the readings of the clocks each call takes.\<close>

datatype request =
    ConnectCall int int string
  | DisconnectCall string
  | ListChannelsCall
  | CreateCall int string string
  | JoinCall string string
  | LeaveCall string string
  | SendCall int string string string
  | ListMessagesCall string string string "32 word"
  | HeartbeatCall int string
  | SubscribeCall string string writer
  | StreamEnds client_id
  | SubscribeListCall string writer
  | ListStreamEnds client_id
  | Sweep int int

datatype reply =
    Status_Reply grpc_status
  | Connect_Reply "grpc_status \<times> string"
  | Create_Reply "grpc_status \<times> string \<times> string"
  | Send_Reply "grpc_status \<times> string"
  | Channels_Reply "grpc_status \<times> channel_summary list"
  | Messages_Reply "grpc_status \<times> message_event list \<times> bool"
  | Stream_Reply "grpc_status option"
  | Sweep_Reply nat

definition reply :: "('a \<Rightarrow> reply) \<Rightarrow> ('u, 'a) handler \<Rightarrow> ('u, reply) handler" where
  "reply wrap t = and_then t (\<lambda>r. Returned (wrap r))"

fun handle :: "'u platform \<Rightarrow> request \<Rightarrow> ('u, reply) handler" where
  "handle P (ConnectCall t t' name) = reply Connect_Reply (Connect_task P t t' name)"
| "handle P (DisconnectCall ci) = reply Status_Reply (Disconnect_task P ci)"
| "handle P ListChannelsCall = access (look ListChannels) (\<lambda>r. Returned (Channels_Reply r))"
| "handle P (CreateCall t ci name) = reply Create_Reply (CreateChannel_call P t ci name)"
| "handle P (JoinCall ci ch) = reply Status_Reply (JoinChannel_call P ci ch)"
| "handle P (LeaveCall ci ch) = reply Status_Reply (LeaveChannel_call P ci ch)"
| "handle P (SendCall t ci ch content) = reply Send_Reply (SendMessage_call P t ci ch content)"
| "handle P (ListMessagesCall ci ch before limit) = reply Messages_Reply (ListMessages_call P ci ch before limit)"
| "handle P (HeartbeatCall t' ci) = reply Status_Reply (Heartbeat_task P t' ci)"
| "handle P (SubscribeCall ci ch w) = reply Stream_Reply (Subscribe_task P ci ch w)"
| "handle P (StreamEnds i) = reply (\<lambda>_. Status_Reply status_ok) (unregister_task i)"
| "handle P (SubscribeListCall ci w) = reply Stream_Reply (SubscribeList_task P ci w)"
| "handle P (ListStreamEnds i) = reply (\<lambda>_. Status_Reply status_ok) (list_unregister_task i)"
| "handle P (Sweep now timeout) = reply Sweep_Reply (ExpireInactiveClients_task P (now - timeout))"

text \<open>The same requests as single steps, by the functions of \<open>Service\<close> and \<open>Server_System\<close>.\<close>

fun serve :: "'u platform \<Rightarrow> 'u \<Rightarrow> request \<Rightarrow> server \<Rightarrow> reply \<times> server" where
  "serve P u (ConnectCall t t' name) srv = map_prod Connect_Reply id (Connect P u t t' name srv)"
| "serve P u (DisconnectCall ci) srv = map_prod Status_Reply id (Disconnect P ci srv)"
| "serve P u ListChannelsCall srv = (Channels_Reply (ListChannels srv), srv)"
| "serve P u (CreateCall t ci name) srv = map_prod Create_Reply id (CreateChannel P u t ci name srv)"
| "serve P u (JoinCall ci ch) srv = map_prod Status_Reply id (JoinChannel P ci ch srv)"
| "serve P u (LeaveCall ci ch) srv = map_prod Status_Reply id (LeaveChannel P ci ch srv)"
| "serve P u (SendCall t ci ch content) srv = map_prod Send_Reply id (SendMessage P u t ci ch content srv)"
| "serve P u (ListMessagesCall ci ch before limit) srv = (Messages_Reply (ListMessages P ci ch before limit srv), srv)"
| "serve P u (HeartbeatCall t' ci) srv = map_prod Status_Reply id (Heartbeat P t' ci srv)"
| "serve P u (SubscribeCall ci ch w) srv = map_prod Stream_Reply id (SubscribeToChannel_open P ci ch w srv)"
| "serve P u (StreamEnds i) srv = map_prod Status_Reply id (SubscribeToChannel_close i srv)"
| "serve P u (SubscribeListCall ci w) srv = map_prod Stream_Reply id (SubscribeToChannelList_open P ci w srv)"
| "serve P u (ListStreamEnds i) srv = map_prod Status_Reply id (SubscribeToChannelList_close i srv)"
| "serve P u (Sweep now timeout) srv = map_prod Sweep_Reply id (sweep P now timeout srv)"

lemma run_reply [simp]: "run_alone u (reply wrap t) srv = map_prod wrap id (run_alone u t srv)"
  by (simp add: reply_def split: prod.split)

lemma run_status [simp]:
  "run_alone u (status_task t) srv =
     (case run_alone u t srv of (Inl e, srv') \<Rightarrow> (errorToStatus e, srv') | (Inr _, srv') \<Rightarrow> (status_ok, srv'))"
  by (simp add: status_task_def split: prod.split sum.split)

lemma run_disconnect_loop [simp]:
  "run_alone u (for_each (\<lambda>c. and_then (LeaveChannel_task P i c) (\<lambda>_. Returned ())) cs) srv =
     ((), disconnect_loop P i cs srv)"
  by (induction cs arbitrary: srv) (auto split: prod.splits)

lemma run_listed [simp]:
  "run_alone u (listed_task P ms events) srv = (events @ map (listed_event P (srv_clients srv)) ms, srv)"
  by (induction ms arbitrary: events) (simp_all add: look_def)

subsection \<open>Handlers that draw no identifier\<close>

lemma drawless_broadcast:
  "drawless (broadcastMemberJoined_task P c rs i n)" "drawless (broadcastMemberLeft_task P c rs i n)"
  "drawless (publishChannelCreated_task ch)" "drawless (publishMemberCount_task c ch)" "drawless (publish_task P m r)"
  "drawless (unregister_task i)" "drawless (list_unregister_task i)"
  unfolding broadcastMemberJoined_task_def broadcastMemberLeft_task_def broadcast_task_def publish_task_def
    publishChannelCreated_task_def publishMemberCount_task_def list_publish_task_def write_task_def list_write_task_def
    unregister_task_def list_unregister_task_def
  by (auto intro!: drawless_rules split: option.split)

lemma drawless_removeMember: "drawless (removeMember_task P s c)"
  unfolding removeMember_task_def
  by (auto intro!: drawless_rules drawless_broadcast split: sum.split prod.split)

lemma drawless_LeaveChannel: "drawless (LeaveChannel_task P i c)"
  unfolding LeaveChannel_task_def
  by (auto intro!: drawless_rules drawless_broadcast drawless_removeMember split: sum.split)

lemma drawless_JoinChannel: "drawless (JoinChannel_task P i c)" "drawless (JoinChannelByName_task P i n)"
proof -
  have "drawless (leave_each_task P s cs)" for s cs
    by (induction cs) (auto intro!: drawless_rules drawless_broadcast drawless_removeMember split: sum.split)
  then have "drawless (join_found_task P i s ch c)" for s ch c
    unfolding join_found_task_def
    by (auto intro!: drawless_rules drawless_broadcast split: sum.split prod.split)
  then show "drawless (JoinChannel_task P i c)" "drawless (JoinChannelByName_task P i n)"
    unfolding JoinChannel_task_def JoinChannelByName_task_def
    by (auto intro!: drawless_rules split: sum.split option.split)
qed

lemma drawless_Expire: "drawless (expire_task P s)" "drawless (ExpireInactiveClients_task P deadline)"
proof -
  have "drawless (expire_channels_task P s cs)" for s cs
    by (induction cs) (auto intro!: drawless_rules drawless_removeMember)
  then have each: "drawless (expire_task P s)" for s
    unfolding expire_task_def by (auto intro!: drawless_rules drawless_broadcast)
  then show "drawless (expire_task P s)" .
  show "drawless (ExpireInactiveClients_task P deadline)"
    unfolding ExpireInactiveClients_task_def by (auto intro!: drawless_rules each)
qed

lemma drawless_calls:
  "drawless t \<Longrightarrow> drawless (status_task t)" "drawless t' \<Longrightarrow> drawless (reply wrap t')"
  "drawless (JoinChannel_call P ci ch)" "drawless (LeaveChannel_call P ci ch)" "drawless (Heartbeat_task P now ci)"
  unfolding status_task_def reply_def JoinChannel_call_def LeaveChannel_call_def Heartbeat_task_def Let_def
  by (auto intro!: drawless_rules drawless_JoinChannel drawless_LeaveChannel split: option.split sum.split)

end
