(* ===== verification/Concurrent_Server.thy ===== *)
theory Concurrent_Server
  imports Handler_Tasks
begin

text \<open>
  The server with all its handlers running at the same time, each cut at its locks: what is true at
  every moment, whatever the requests and however their accesses interleave.
\<close>

subsection \<open>The invariant\<close>

text \<open>
  With respect to a starting state and a set \<open>J\<close> of clients that calls are made for: a stored channel
  has other clients as members only as it had them at the start, and the session and the streams of
  other clients are as they were.
\<close>

definition tame :: "client_id set \<Rightarrow> channel_repo \<Rightarrow> channel \<Rightarrow> bool" where
  "tame J chans0 ch \<longleftrightarrow> channel_ok ch \<and>
     (case channel_at chans0 (id_value (chan_id ch)) of
        None \<Rightarrow> set (chan_members ch) \<subseteq> J
      | Some ch0 \<Rightarrow> set (chan_members ch) - J = set (chan_members ch0) - J)"

definition undisturbed :: "'u platform \<Rightarrow> client_id set \<Rightarrow> server \<Rightarrow> server \<Rightarrow> bool" where
  "undisturbed P J srv0 srv \<longleftrightarrow> tables_wf P srv \<and> repos_wf srv \<and>
     repo_cap (srv_messages srv) = repo_cap (srv_messages srv0) \<and>
     (\<forall>k. channel_at (srv_channels srv0) k \<noteq> None \<longrightarrow> channel_at (srv_channels srv) k \<noteq> None) \<and>
     (\<forall>k ch. channel_at (srv_channels srv) k = Some ch \<longrightarrow> tame J (srv_channels srv0) ch) \<and>
     (\<forall>j. j \<notin> J \<longrightarrow> session_at (srv_clients srv) (id_value j) = session_at (srv_clients srv0) (id_value j) \<and>
        session_at (srv_clients srv0) (id_value j) \<noteq> None \<and>
        umap_find (writers (srv_publisher srv)) (id_value j) = umap_find (writers (srv_publisher srv0)) (id_value j) \<and>
        live (srv_publisher srv) (id_value j) = live (srv_publisher srv0) (id_value j) \<and>
        live (srv_list_publisher srv) (id_value j) = live (srv_list_publisher srv0) (id_value j))"

text \<open>
  What every access promises the others: channels keep their names, names given to clients are
  remembered, and a writer entry that has left a table does not come back.
\<close>

definition unreferenced :: "nat \<Rightarrow> 'ev writer_table \<Rightarrow> bool" where
  "unreferenced e t \<longleftrightarrow> (\<forall>k. umap_find (writers t) k \<noteq> Some (Some e))"

definition entries_kept :: "'ev writer_table \<Rightarrow> 'ev writer_table \<Rightarrow> bool" where
  "entries_kept t t' \<longleftrightarrow> length (entries t) \<le> length (entries t') \<and>
     (\<forall>e < length (entries t). unreferenced e t \<longrightarrow> unreferenced e t') \<and> prefix (written t) (written t')"

definition goes_on :: "server \<Rightarrow> server \<Rightarrow> bool" where
  "goes_on srv srv' \<longleftrightarrow>
     (\<forall>k ch. channel_at (srv_channels srv) k = Some ch \<longrightarrow>
        (\<exists>ch'. channel_at (srv_channels srv') k = Some ch' \<and> chan_name ch' = chan_name ch)) \<and>
     (\<forall>k n. username_history (srv_clients srv) k = Some n \<longrightarrow> username_history (srv_clients srv') k = Some n) \<and>
     entries_kept (srv_publisher srv) (srv_publisher srv') \<and>
     entries_kept (srv_list_publisher srv) (srv_list_publisher srv')"

lemma entries_kept_refl [simp]: "entries_kept t t"
  by (simp add: entries_kept_def)

lemma entries_kept_trans: "entries_kept t t' \<Longrightarrow> entries_kept t' t'' \<Longrightarrow> entries_kept t t''"
  unfolding entries_kept_def by (meson less_le_trans order_trans prefix_order.trans)

lemma goes_on_trans: "goes_on srv srv' \<Longrightarrow> goes_on srv' srv'' \<Longrightarrow> goes_on srv srv''"
  unfolding goes_on_def by (metis entries_kept_trans)

interpretation server_calls: rely_guarantee "undisturbed P J srv0" goes_on "fresh_uuid P"
  for P :: "'u platform" and J srv0
proof
  show "goes_on s s" for s by (simp add: goes_on_def)
qed (rule goes_on_trans)

abbreviation fine :: "'u platform \<Rightarrow> client_id set \<Rightarrow> server \<Rightarrow> server \<Rightarrow> ('u, 'r) handler \<Rightarrow> bool" where
  "fine P J srv0 srv t \<equiv> server_calls.good P J srv0 srv t (\<lambda>_ _. True)"

abbreviation moves :: "'u platform \<Rightarrow> client_id set \<Rightarrow> server \<Rightarrow> server \<Rightarrow> server \<Rightarrow> bool" where
  "moves P J srv0 srv srv' \<equiv> goes_on srv srv' \<and> undisturbed P J srv0 srv'"

subsection \<open>One access\<close>

lemma undisturbedD:
  assumes "undisturbed P J srv0 srv"
  shows "table_wf P (srv_publisher srv)" "table_wf P (srv_list_publisher srv)"
    "channels_wf (srv_channels srv)" "clients_wf (srv_clients srv)" "messages_wf (srv_messages srv)"
  using assms by (simp_all add: undisturbed_def tables_wf_def repos_wf_def)

lemma moves_publisher:
  assumes "undisturbed P J srv0 srv" and "table_wf P T" and "entries_kept (srv_publisher srv) T"
    and "\<And>j. j \<notin> J \<Longrightarrow> live T (id_value j) = live (srv_publisher srv) (id_value j) \<and>
      umap_find (writers T) (id_value j) = umap_find (writers (srv_publisher srv)) (id_value j)"
  shows "moves P J srv0 srv (srv\<lparr>srv_publisher := T\<rparr>)"
  using assms by (auto simp: undisturbed_def goes_on_def tables_wf_def repos_wf_def)

lemma moves_list_publisher:
  assumes "undisturbed P J srv0 srv" and "table_wf P L" and "entries_kept (srv_list_publisher srv) L"
    and "\<And>j. j \<notin> J \<Longrightarrow> live L (id_value j) = live (srv_list_publisher srv) (id_value j)"
  shows "moves P J srv0 srv (srv\<lparr>srv_list_publisher := L\<rparr>)"
  using assms by (auto simp: undisturbed_def goes_on_def tables_wf_def repos_wf_def)

lemma moves_clients:
  assumes inv: "undisturbed P J srv0 srv" and wf: "clients_wf reg"
    and history: "\<And>k n. username_history (srv_clients srv) k = Some n \<Longrightarrow> username_history reg k = Some n"
    and others: "\<And>j. j \<notin> J \<Longrightarrow> session_at reg (id_value j) = session_at (srv_clients srv) (id_value j)"
  shows "moves P J srv0 srv (srv\<lparr>srv_clients := reg\<rparr>)"
  using assms by (auto simp: undisturbed_def goes_on_def tables_wf_def repos_wf_def)

lemma moves_channels:
  assumes inv: "undisturbed P J srv0 srv" and wf: "channels_wf repo"
    and "\<And>k ch. channel_at (srv_channels srv) k = Some ch \<Longrightarrow> \<exists>ch'. channel_at repo k = Some ch' \<and> chan_name ch' = chan_name ch"
    and "\<And>k ch. channel_at repo k = Some ch \<Longrightarrow> tame J (srv_channels srv0) ch"
  shows "moves P J srv0 srv (srv\<lparr>srv_channels := repo\<rparr>)"
  using assms by (auto simp: undisturbed_def goes_on_def tables_wf_def repos_wf_def) (metis option.distinct(1))

lemma moves_messages:
  assumes "undisturbed P J srv0 srv" and "messages_wf msgs" and "repo_cap msgs = repo_cap (srv_messages srv)"
  shows "moves P J srv0 srv (srv\<lparr>srv_messages := msgs\<rparr>)"
  using assms by (auto simp: undisturbed_def goes_on_def tables_wf_def repos_wf_def)

subsection \<open>The tables\<close>

lemma entries_kept_write: "entries_kept t (write_entry ev e t)"
  by (simp add: entries_kept_def unreferenced_def write_entry_def split: option.split)

lemma entries_kept_register:
  assumes "table_wf P t"
  shows "entries_kept t (table_register k w t)"
  by (auto simp: entries_kept_def unreferenced_def table_register_def)

lemma live_write: "live (write_entry ev e t) = live t"
  by (rule live_cong) (simp_all add: write_entry_def split: option.split)

lemma table_wf_write: "table_wf P t \<Longrightarrow> table_wf P (write_entry ev e t)"
  by (cases "entry_writer t e") (simp_all add: write_entry_def table_wf_def)

lemma writers_disarm [simp]: "writers (disarm_entry e t) = writers t"
  by (simp add: disarm_entry_def)

lemma writers_take: "take_entry k t = (entry, t') \<Longrightarrow> l \<noteq> k \<Longrightarrow> umap_find (writers t') l = umap_find (writers t) l"
  by (auto simp: take_entry_def split: option.splits)

lemma writers_register: "l \<noteq> k \<Longrightarrow> umap_find (writers (table_register k w t)) l = umap_find (writers t) l"
  by (simp add: table_register_def)

lemma take_entry_keeps:
  assumes wf: "table_wf P t" and take: "take_entry k t = (entry, t')"
  shows "table_wf P t'" "entries_kept t t'" "l \<noteq> k \<Longrightarrow> live t' l = live t l"
    "entry = Some e \<Longrightarrow> e < length (entries t') \<and> unreferenced e t'"
proof -
  show "table_wf P t'"
    using wf take by (fastforce simp: table_wf_def take_entry_def split: option.splits if_splits)
  show "entries_kept t t'"
    using take by (auto simp: entries_kept_def unreferenced_def take_entry_def split: option.splits if_splits)
  show "l \<noteq> k \<Longrightarrow> live t' l = live t l"
    using take by (auto simp: live_def take_entry_def entry_writer_def split: option.splits)
  show "e < length (entries t') \<and> unreferenced e t'" if "entry = Some e"
  proof (cases "umap_find (writers t) k")
    case (Some x)
    then have x: "x = Some e" "t' = t\<lparr>writers := umap_erase k (writers t)\<rparr>"
      using take that by (simp_all add: take_entry_def)
    have "e < length (entries t)" using table_wf_entry [OF wf Some] x(1) by simp
    moreover have "umap_find (writers t) l \<noteq> Some (Some e)" if "l \<noteq> k" for l
      using table_wf_inj [OF wf] Some x(1) that by blast
    ultimately show ?thesis by (simp add: x(2) unreferenced_def)
  qed (use take that in \<open>simp add: take_entry_def\<close>)
qed

lemma disarm_keeps:
  assumes wf: "table_wf P t" and e: "unreferenced e t"
  shows "table_wf P (disarm_entry e t)" "entries_kept t (disarm_entry e t)" "live (disarm_entry e t) = live t"
proof -
  show "table_wf P (disarm_entry e t)" using wf by (simp add: table_wf_def disarm_entry_def)
  show "entries_kept t (disarm_entry e t)"
    by (simp add: entries_kept_def unreferenced_def disarm_entry_def)
  have "e \<noteq> d" if "umap_find (writers t) k = Some (Some d)" for k d
    using that e by (auto simp: unreferenced_def)
  then show "live (disarm_entry e t) = live t"
    by (auto simp: fun_eq_iff live_def disarm_entry_def entry_writer_def split: option.splits)
qed

lemma moves_write:
  assumes "undisturbed P J srv0 srv"
  shows "moves P J srv0 srv (srv\<lparr>srv_publisher := write_entry ev e (srv_publisher srv)\<rparr>)"
    and "moves P J srv0 srv (srv\<lparr>srv_list_publisher := write_entry lev e (srv_list_publisher srv)\<rparr>)"
  using moves_publisher [OF assms table_wf_write [OF undisturbedD(1) [OF assms]] entries_kept_write]
    moves_list_publisher [OF assms table_wf_write [OF undisturbedD(2) [OF assms]] entries_kept_write]
  by (simp_all add: live_write)

lemma moves_disarm:
  assumes inv: "undisturbed P J srv0 srv"
  shows "unreferenced e (srv_publisher srv) \<Longrightarrow>
      moves P J srv0 srv (srv\<lparr>srv_publisher := disarm_entry e (srv_publisher srv)\<rparr>)"
    and "unreferenced e (srv_list_publisher srv) \<Longrightarrow>
      moves P J srv0 srv (srv\<lparr>srv_list_publisher := disarm_entry e (srv_list_publisher srv)\<rparr>)"
  using disarm_keeps [OF undisturbedD(1) [OF inv]] disarm_keeps [OF undisturbedD(2) [OF inv]]
  by (simp_all add: moves_publisher [OF inv] moves_list_publisher [OF inv])

lemma moves_take:
  assumes inv: "undisturbed P J srv0 srv" and i: "i \<in> J"
  shows "take_entry (id_value i) (srv_publisher srv) = (entry, T) \<Longrightarrow> moves P J srv0 srv (srv\<lparr>srv_publisher := T\<rparr>)"
    and "take_entry (id_value i) (srv_list_publisher srv) = (entry, L) \<Longrightarrow> moves P J srv0 srv (srv\<lparr>srv_list_publisher := L\<rparr>)"
proof -
  have other: "id_value j \<noteq> id_value i" if "j \<notin> J" for j
    using that i strong_id_eq_iff by metis
  show "take_entry (id_value i) (srv_publisher srv) = (entry, T) \<Longrightarrow> moves P J srv0 srv (srv\<lparr>srv_publisher := T\<rparr>)"
    using take_entry_keeps [OF undisturbedD(1) [OF inv]] writers_take other by (intro moves_publisher [OF inv]) blast+
  show "take_entry (id_value i) (srv_list_publisher srv) = (entry, L) \<Longrightarrow> moves P J srv0 srv (srv\<lparr>srv_list_publisher := L\<rparr>)"
    using take_entry_keeps [OF undisturbedD(2) [OF inv]] other by (intro moves_list_publisher [OF inv]) blast+
qed

lemma moves_register:
  assumes inv: "undisturbed P J srv0 srv" and i: "i \<in> J" and key: "client_key_ok P (id_value i)"
  shows "moves P J srv0 srv (srv\<lparr>srv_publisher := publisher_registerSubscriber i w (srv_publisher srv)\<rparr>)"
    and "moves P J srv0 srv (srv\<lparr>srv_list_publisher :=
      list_registerSubscriberWithSnapshot (srv_channels srv) i w (srv_list_publisher srv)\<rparr>)"
proof -
  have other: "id_value j \<noteq> id_value i" if "j \<notin> J" for j
    using that i strong_id_eq_iff by metis
  note wf = undisturbedD [OF inv]
  show "moves P J srv0 srv (srv\<lparr>srv_publisher := publisher_registerSubscriber i w (srv_publisher srv)\<rparr>)"
    using channel_pub.wf_register [OF wf(1) key] channel_pub.live_register [OF wf(1)] other
      entries_kept_register [OF wf(1)] writers_register [OF other]
    by (intro moves_publisher [OF inv]) (simp_all add: publisher_register_eq)
  show "moves P J srv0 srv (srv\<lparr>srv_list_publisher :=
      list_registerSubscriberWithSnapshot (srv_channels srv) i w (srv_list_publisher srv)\<rparr>)"
    using list_pub.wf_register [OF wf(2) key] list_pub.live_register [OF wf(2)] other
      entries_kept_trans [OF entries_kept_register [OF wf(2)] entries_kept_write]
    by (intro moves_list_publisher [OF inv]) (simp_all add: list_register_eq)
qed

subsection \<open>The stores\<close>

text \<open>What a handler knows of a channel it has copied.\<close>

definition copied :: "client_id set \<Rightarrow> server \<Rightarrow> server \<Rightarrow> channel \<Rightarrow> bool" where
  "copied J srv0 srv ch \<longleftrightarrow> tame J (srv_channels srv0) ch \<and>
     (\<exists>x. channel_at (srv_channels srv) (id_value (chan_id ch)) = Some x \<and> chan_name x = chan_name ch)"

lemma copied_later: "copied J srv0 srv ch \<Longrightarrow> goes_on srv srv' \<Longrightarrow> copied J srv0 srv' ch"
  unfolding copied_def goes_on_def by metis

lemma copied_at:
  assumes "undisturbed P J srv0 srv" and "channel_at (srv_channels srv) k = Some ch"
  shows "copied J srv0 srv ch"
  using assms channels_wf_entity [OF undisturbedD(3) [OF assms(1)] assms(2)]
  by (auto simp: copied_def undisturbed_def)

lemma copied_members:
  assumes "copied J srv0 srv ch" and "distinct ms" and "set ms - J = set (chan_members ch) - J"
  shows "copied J srv0 srv (ch\<lparr>chan_members := ms\<rparr>)"
  using assms by (auto simp: copied_def tame_def channel_ok_def split: option.splits)

lemma copied_change:
  assumes "copied J srv0 srv ch" and "i \<in> J"
  shows "removeMember i ch = (Inr a, ch') \<Longrightarrow> copied J srv0 srv ch'"
    and "addMember i ch = (Inr b, ch'') \<Longrightarrow> copied J srv0 srv ch''"
proof -
  have d: "distinct (chan_members ch)" using assms(1) by (auto simp: copied_def tame_def channel_ok_def)
  show "removeMember i ch = (Inr a, ch') \<Longrightarrow> copied J srv0 srv ch'"
    using assms d copied_members [OF assms(1), of "uset_erase i (chan_members ch)"]
    by (auto simp: removeMember_def uset_erase_def split: if_splits)
  show "addMember i ch = (Inr b, ch'') \<Longrightarrow> copied J srv0 srv ch''"
    using assms d copied_members [OF assms(1), of "chan_members ch @ [i]"]
    by (auto simp: addMember_def uset_insert_def hasMember_def split: if_splits)
qed

lemma moves_save:
  assumes inv: "undisturbed P J srv0 srv" and ch: "copied J srv0 srv ch"
  shows "moves P J srv0 srv (srv\<lparr>srv_channels := snd (channels_save ch (srv_channels srv))\<rparr>)"
proof -
  obtain x where x: "channel_at (srv_channels srv) (id_value (chan_id ch)) = Some x" "chan_name x = chan_name ch"
    and tame: "tame J (srv_channels srv0) ch"
    using ch by (auto simp: copied_def)
  then have "channels_wf (snd (channels_save ch (srv_channels srv)))"
    using channels_wf_save [OF undisturbedD(3) [OF inv] _ x(1)] by (simp add: tame_def)
  then show ?thesis
    using inv x tame by (intro moves_channels [OF inv]) (auto simp: undisturbed_def split: if_splits)
qed

lemma moves_create:
  assumes inv: "undisturbed P J srv0 srv" and fresh: "fresh_uuid P u srv" and n: "valid_channel_name (channel_name_value n)"
  shows "moves P J srv0 srv (srv\<lparr>srv_channels := snd (channels_create P u t n (srv_channels srv))\<rparr>)"
proof (cases "channel_index (srv_channels srv) (channel_name_value n)")
  case None
  have new: "channel_at (srv_channels srv) (uuid_to_string P u) = None"
    using fresh by (simp add: fresh_uuid_def)
  then have kept: "channel_at (srv_channels srv0) (uuid_to_string P u) = None"
    using inv by (auto simp: undisturbed_def)
  have "tame J (srv_channels srv0) (new_channel (strong_id_generate P u) n t)"
    using n kept by (simp add: tame_def channel_ok_def strong_id_generate_def new_channel_def)
  then show ?thesis
    using inv None new channels_wf_create [OF undisturbedD(3) [OF inv] n new]
    by (intro moves_channels [OF inv]) (auto simp: channel_at_create undisturbed_def split: if_splits)
next
  case (Some k)
  then show ?thesis
    using inv by (simp add: channels_create_taken goes_on_def)
qed

lemma moves_modify:
  assumes inv: "undisturbed P J srv0 srv" and i: "i \<in> J"
  shows "moves P J srv0 srv (srv\<lparr>srv_clients := snd (clients_joinChannelAtomic i c (srv_clients srv))\<rparr>)"
    and "moves P J srv0 srv (srv\<lparr>srv_clients := snd (clients_leaveChannelAtomic i c (srv_clients srv))\<rparr>)"
    and "moves P J srv0 srv (srv\<lparr>srv_clients := snd (clients_touchHeartbeat t i (srv_clients srv))\<rparr>)"
    and "moves P J srv0 srv (srv\<lparr>srv_clients := snd (clients_remove i (srv_clients srv))\<rparr>)"
proof -
  have other: "id_value j \<noteq> id_value i" if "j \<notin> J" for j
    using that i strong_id_eq_iff by metis
  note wf = undisturbedD(4) [OF inv]
  show "moves P J srv0 srv (srv\<lparr>srv_clients := snd (clients_joinChannelAtomic i c (srv_clients srv))\<rparr>)"
    "moves P J srv0 srv (srv\<lparr>srv_clients := snd (clients_leaveChannelAtomic i c (srv_clients srv))\<rparr>)"
    "moves P J srv0 srv (srv\<lparr>srv_clients := snd (clients_touchHeartbeat t i (srv_clients srv))\<rparr>)"
    using clients_wf_in_place [OF wf] other by (intro moves_clients [OF inv]; simp add: in_place_eq)+
  show "moves P J srv0 srv (srv\<lparr>srv_clients := snd (clients_remove i (srv_clients srv))\<rparr>)"
    using clients_wf_remove [OF wf] other by (intro moves_clients [OF inv]) simp_all
qed

lemma moves_connect:
  assumes inv: "undisturbed P J srv0 srv" and fresh: "fresh_uuid P u srv" and n: "valid_username (username_value n)"
  shows "moves P J srv0 srv (srv\<lparr>srv_clients := snd (clients_registerClient P u t t' n (srv_clients srv))\<rparr>)"
proof (cases "username_index (srv_clients srv) (username_value n)")
  case None
  have new: "session_at (srv_clients srv) (uuid_to_string P u) = None"
    "username_history (srv_clients srv) (uuid_to_string P u) = None"
    using fresh by (simp_all add: fresh_uuid_def)
  have "id_value j \<noteq> uuid_to_string P u" if "j \<notin> J" for j
    using inv new(1) that by (metis undisturbed_def)
  then show ?thesis
    using None new clients_wf_register [OF undisturbedD(4) [OF inv] n new(1)]
    by (intro moves_clients [OF inv]) (auto simp: session_at_register username_history_register)
next
  case (Some k)
  then show ?thesis
    using inv by (simp add: clients_register_taken goes_on_def)
qed

lemma moves_post:
  assumes inv: "undisturbed P J srv0 srv" and fresh: "fresh_uuid P u srv" and m: "msg_id m = strong_id_generate P u"
  shows "moves P J srv0 srv (srv\<lparr>srv_messages := snd (messages_save m (srv_messages srv))\<rparr>)"
proof -
  have "id_value (msg_id x) \<noteq> id_value (msg_id m)" if "x \<in> set (history (srv_messages srv) k)" for x k
    using that fresh m by (simp add: fresh_uuid_def strong_id_generate_def)
  then have "msg_id m \<notin> msg_id ` set (history (srv_messages srv) (id_value (msg_channel_id m)))"
    by (metis imageE)
  then show ?thesis
    using messages_wf_save [OF undisturbedD(5) [OF inv]] by (intro moves_messages [OF inv]) simp_all
qed

subsection \<open>The handlers keep to the rules\<close>

lemma fine_Returned [simp]: "fine P J srv0 srv (Returned r)"
  by (rule server_calls.good_Returned) simp

lemmas fine_access = server_calls.good_access [where Q = "\<lambda>_ _. True"]
  and fine_draw = server_calls.good_draw [where Q = "\<lambda>_ _. True"]
  and fine_for_each = server_calls.good_for_each

lemma fine_then:
  assumes "fine P J srv0 srv t" and "undisturbed P J srv0 srv"
    and "\<And>a srv'. goes_on srv srv' \<Longrightarrow> undisturbed P J srv0 srv' \<Longrightarrow> fine P J srv0 srv' (k a)"
  shows "fine P J srv0 srv (and_then t k)"
  using server_calls.good_and_then [OF assms(1) _ assms(2)] assms(3) by blast

lemma fine_look:
  assumes "\<And>srv'. goes_on srv srv' \<Longrightarrow> undisturbed P J srv0 srv' \<Longrightarrow> fine P J srv0 srv' (k (f srv'))"
  shows "fine P J srv0 srv (access (look f) k)"
  using assms by (intro fine_access) (auto simp: look_def goes_on_def)

lemma fine_step:
  assumes "\<And>srv'. goes_on srv srv' \<Longrightarrow> undisturbed P J srv0 srv' \<Longrightarrow> moves P J srv0 srv' (snd (f srv'))"
    and "\<And>a srv'. goes_on srv srv' \<Longrightarrow> undisturbed P J srv0 srv' \<Longrightarrow> fine P J srv0 srv' (k a)"
  shows "fine P J srv0 srv (access f k)"
proof (rule fine_access)
  fix srv' a srv''
  assume before: "goes_on srv srv'" "undisturbed P J srv0 srv'" and f: "f srv' = (a, srv'')"
  then have "moves P J srv0 srv' srv''"
    using assms(1) [OF before] by simp
  then show "goes_on srv' srv'' \<and> undisturbed P J srv0 srv'' \<and> fine P J srv0 srv'' (k a)"
    using assms(2) goes_on_trans [OF before(1)] by blast
qed

lemma fine_clients:
  assumes "\<And>srv'. undisturbed P J srv0 srv' \<Longrightarrow> moves P J srv0 srv' (srv'\<lparr>srv_clients := snd (f (srv_clients srv'))\<rparr>)"
    and "\<And>a srv'. goes_on srv srv' \<Longrightarrow> undisturbed P J srv0 srv' \<Longrightarrow> fine P J srv0 srv' (k a)"
  shows "fine P J srv0 srv (access (on_clients f) k)"
  using assms by (intro fine_step) (simp_all add: on_clients_def split: prod.split_asm prod.split, metis snd_conv)

lemma fine_save:
  assumes "copied J srv0 srv ch"
    and "\<And>a srv'. goes_on srv srv' \<Longrightarrow> undisturbed P J srv0 srv' \<Longrightarrow> fine P J srv0 srv' (k a)"
  shows "fine P J srv0 srv (access (on_channels (channels_save ch)) k)"
proof (rule fine_step)
  show "moves P J srv0 srv' (snd (on_channels (channels_save ch) srv'))"
    if "goes_on srv srv'" "undisturbed P J srv0 srv'" for srv'
    using moves_save [OF that(2) copied_later [OF assms(1) that(1)]] by (simp add: on_channels_def case_prod_unfold)
qed (rule assms(2))

lemma fine_write: "fine P J srv0 srv (write_task ev e)" "fine P J srv0 srv (list_write_task lev e)"
  unfolding write_task_def list_write_task_def on_publisher_def on_list_publisher_def
  by (rule fine_step; simp add: moves_write)+

lemma fine_broadcast [simp]:
  "fine P J srv0 srv (broadcastMemberJoined_task P c rs i n)"
  "fine P J srv0 srv (broadcastMemberLeft_task P c rs i n)"
  "fine P J srv0 srv (publishChannelCreated_task ch)"
  "fine P J srv0 srv (publishMemberCount_task c ch)"
  unfolding broadcastMemberJoined_task_def broadcastMemberLeft_task_def broadcast_task_def
    publishChannelCreated_task_def publishMemberCount_task_def list_publish_task_def
  by (intro fine_look fine_for_each fine_write; assumption)+

lemma fine_publish [simp]: "fine P J srv0 srv (publish_task P m r)"
  unfolding publish_task_def
proof (rule fine_look)
  fix srv' :: server
  let ?entry = "publish_lookup r (srv_publisher srv')"
  show "fine P J srv0 srv' (case ?entry of None \<Rightarrow> Returned ()
      | Some e \<Rightarrow> access (\<lambda>srv. on_publisher (publish_write P (Some (srv_clients srv)) m (Some e)) srv) Returned)"
  proof (cases ?entry)
    case (Some e)
    have "fine P J srv0 srv' (access (\<lambda>srv. on_publisher (publish_write P (Some (srv_clients srv)) m (Some e)) srv) Returned)"
      by (rule fine_step; simp add: moves_write on_publisher_def publish_write_def)
    then show ?thesis by (simp add: Some)
  qed simp
qed

lemma fine_disarm:
  assumes "unreferenced e (srv_publisher srv)" and "e < length (entries (srv_publisher srv))"
  shows "fine P J srv0 srv (access (on_publisher (disarm_entry e)) Returned)"
proof (rule fine_access)
  fix srv' a srv''
  assume before: "goes_on srv srv'" "undisturbed P J srv0 srv'" and f: "on_publisher (disarm_entry e) srv' = (a, srv'')"
  then have "unreferenced e (srv_publisher srv')"
    using assms by (simp add: goes_on_def entries_kept_def)
  then show "goes_on srv' srv'' \<and> undisturbed P J srv0 srv'' \<and> fine P J srv0 srv'' (Returned a)"
    using moves_disarm(1) [OF before(2)] f by (auto simp: on_publisher_def)
qed

lemma fine_list_disarm:
  assumes "unreferenced e (srv_list_publisher srv)" and "e < length (entries (srv_list_publisher srv))"
  shows "fine P J srv0 srv (access (on_list_publisher (disarm_entry e)) Returned)"
proof (rule fine_access)
  fix srv' a srv''
  assume before: "goes_on srv srv'" "undisturbed P J srv0 srv'" and f: "on_list_publisher (disarm_entry e) srv' = (a, srv'')"
  then have "unreferenced e (srv_list_publisher srv')"
    using assms by (simp add: goes_on_def entries_kept_def)
  then show "goes_on srv' srv'' \<and> undisturbed P J srv0 srv'' \<and> fine P J srv0 srv'' (Returned a)"
    using moves_disarm(2) [OF before(2)] f by (auto simp: on_list_publisher_def)
qed

lemma fine_unregister:
  assumes i: "i \<in> J"
  shows "fine P J srv0 srv (unregister_task i)" and "fine P J srv0 srv (list_unregister_task i)"
proof -
  show "fine P J srv0 srv (unregister_task i)"
    unfolding unregister_task_def
  proof (rule fine_access)
    fix srv' entry srv''
    assume inv: "undisturbed P J srv0 srv'"
      and "(case take_entry (id_value i) (srv_publisher srv') of (entry, t) \<Rightarrow> (entry, srv'\<lparr>srv_publisher := t\<rparr>)) = (entry, srv'')"
    then obtain T where T: "take_entry (id_value i) (srv_publisher srv') = (entry, T)" "srv'' = srv'\<lparr>srv_publisher := T\<rparr>"
      by (auto split: prod.splits)
    show "goes_on srv' srv'' \<and> undisturbed P J srv0 srv'' \<and>
        fine P J srv0 srv'' (case entry of None \<Rightarrow> Returned () | Some e \<Rightarrow> access (on_publisher (disarm_entry e)) Returned)"
      using moves_take(1) [OF inv i T(1)] take_entry_keeps(4) [OF undisturbedD(1) [OF inv] T(1)] fine_disarm [of _ srv'']
      by (auto simp: T(2) split: option.split)
  qed
  show "fine P J srv0 srv (list_unregister_task i)"
    unfolding list_unregister_task_def
  proof (rule fine_access)
    fix srv' entry srv''
    assume inv: "undisturbed P J srv0 srv'"
      and "(case take_entry (id_value i) (srv_list_publisher srv') of (entry, t) \<Rightarrow> (entry, srv'\<lparr>srv_list_publisher := t\<rparr>)) = (entry, srv'')"
    then obtain L where L: "take_entry (id_value i) (srv_list_publisher srv') = (entry, L)" "srv'' = srv'\<lparr>srv_list_publisher := L\<rparr>"
      by (auto split: prod.splits)
    show "goes_on srv' srv'' \<and> undisturbed P J srv0 srv'' \<and>
        fine P J srv0 srv'' (case entry of None \<Rightarrow> Returned () | Some e \<Rightarrow> access (on_list_publisher (disarm_entry e)) Returned)"
      using moves_take(2) [OF inv i L(1)] take_entry_keeps(4) [OF undisturbedD(2) [OF inv] L(1)] fine_list_disarm [of _ srv'']
      by (auto simp: L(2) split: option.split)
  qed
qed

end
