(* ===== verification/Concurrent_Handlers.thy ===== *)
theory Concurrent_Handlers
  imports Concurrent_Server
begin

text \<open>
  Every handler keeps to the rules of \<open>Concurrent_Server\<close> when it is run for a client in \<open>J\<close>; so do
  all requests together, and the clients outside of \<open>J\<close> do not notice them.
\<close>

subsection \<open>The use cases\<close>

lemma fine_sessions:
  assumes i: "i \<in> J" and k: "\<And>a srv'. goes_on srv srv' \<Longrightarrow> undisturbed P J srv0 srv' \<Longrightarrow> fine P J srv0 srv' (k a)"
  shows "fine P J srv0 srv (access (on_clients (clients_joinChannelAtomic i c)) k)"
    and "fine P J srv0 srv (access (on_clients (clients_leaveChannelAtomic i c)) k)"
    and "fine P J srv0 srv (access (on_clients (clients_touchHeartbeat t i)) k)"
    and "fine P J srv0 srv (access (on_clients (clients_remove i)) k)"
proof -
  note step = fine_clients [OF moves_modify(1) [OF _ i] k] fine_clients [OF moves_modify(2) [OF _ i] k]
    fine_clients [OF moves_modify(3) [OF _ i] k] fine_clients [OF moves_modify(4) [OF _ i] k]
  show "fine P J srv0 srv (access (on_clients (clients_joinChannelAtomic i c)) k)" by (rule step(1))
  show "fine P J srv0 srv (access (on_clients (clients_leaveChannelAtomic i c)) k)" by (rule step(2))
  show "fine P J srv0 srv (access (on_clients (clients_touchHeartbeat t i)) k)" by (rule step(3))
  show "fine P J srv0 srv (access (on_clients (clients_remove i)) k)" by (rule step(4))
qed

lemmas fine_intros = fine_then fine_look fine_save fine_sessions fine_for_each

lemma fine_removeMember:
  assumes i: "sess_id s \<in> J"
  shows "fine P J srv0 srv (removeMember_task P s c)"
  unfolding removeMember_task_def
proof (rule fine_look)
  fix srv' assume inv: "undisturbed P J srv0 srv'"
  show "fine P J srv0 srv' (case channels_findById c (srv_channels srv') of
       Inl e \<Rightarrow> Returned (unexpected e)
     | Inr ch \<Rightarrow>
         (case removeMember (sess_id s) ch of
            (Inl e, _) \<Rightarrow> Returned (unexpected e)
          | (Inr _, ch') \<Rightarrow>
              access (on_channels (channels_save ch')) (\<lambda>saved. case saved of
                Inl e \<Rightarrow> Returned (unexpected e)
              | Inr _ \<Rightarrow>
                  and_then (broadcastMemberLeft_task P c (chan_members ch') (sess_id s) (sess_username s))
                    (\<lambda>_. Returned (Inr ())))))"
  proof (cases "channels_findById c (srv_channels srv')")
    case (Inr ch)
    then have ch: "copied J srv0 srv' ch"
      by (simp add: channels_findById_Inr copied_at [OF inv])
    obtain removed ch' where rm: "removeMember (sess_id s) ch = (removed, ch')" by fastforce
    then show ?thesis
      using Inr copied_change(1) [OF ch i, of _ ch']
      by (auto split: sum.split intro!: fine_intros)
  qed simp
qed

lemma fine_LeaveChannel:
  assumes i: "i \<in> J"
  shows "fine P J srv0 srv (LeaveChannel_task P i c)"
  unfolding LeaveChannel_task_def
proof (rule fine_look)
  fix srv' assume inv: "undisturbed P J srv0 srv'"
  show "fine P J srv0 srv' (case clients_findById i (srv_clients srv') of
       Inl e \<Rightarrow> Returned (unexpected e)
     | Inr s \<Rightarrow>
         and_then (removeMember_task P s c) (\<lambda>removed. case removed of
           Inl e \<Rightarrow> Returned (unexpected e)
         | Inr _ \<Rightarrow>
             access (on_clients (clients_leaveChannelAtomic i c)) (\<lambda>left.
               if fatal_leave left then Returned left
               else access (look (\<lambda>srv. channels_findById c (srv_channels srv))) (\<lambda>refound.
                 case refound of
                   Inl e \<Rightarrow> Returned (unexpected e)
                 | Inr ch \<Rightarrow> and_then (publishMemberCount_task c ch) (\<lambda>_. Returned (Inr ()))))))"
  proof (cases "clients_findById i (srv_clients srv')")
    case (Inr s)
    then have "sess_id s \<in> J" using clients_findById_id [OF undisturbedD(4) [OF inv]] i by blast
    then show ?thesis
      using Inr inv i by (auto split: sum.split intro!: fine_intros fine_removeMember)
  qed simp
qed

lemma fine_leave_each:
  assumes i: "sess_id s \<in> J" and "undisturbed P J srv0 srv"
  shows "fine P J srv0 srv (leave_each_task P s cs)"
  using assms(2)
proof (induction cs arbitrary: srv)
  case (Cons c cs)
  show ?case
    using Cons i by (auto split: sum.split intro!: fine_intros fine_removeMember)
qed simp

lemma fine_join_found:
  assumes i: "i \<in> J" "sess_id s = i" and ch: "copied J srv0 srv ch" and inv: "undisturbed P J srv0 srv"
  shows "fine P J srv0 srv (join_found_task P i s ch c)"
  unfolding join_found_task_def
proof (rule fine_then [OF fine_leave_each inv])
  show "sess_id s \<in> J" "undisturbed P J srv0 srv" using i inv by simp_all
  fix left srv' assume later: "goes_on srv srv'" "undisturbed P J srv0 srv'"
  obtain added ch1 where add: "addMember i ch = (added, ch1)" by fastforce
  have "copied J srv0 srv' ch1" if "added = Inr a" for a
    using copied_later [OF copied_change(2) [OF ch i(1)] later(1)] add that by simp
  then show "fine P J srv0 srv' (case left of
       Inl e \<Rightarrow> Returned (unexpected e)
     | Inr _ \<Rightarrow>
         if hasMember i ch then access (on_clients (clients_joinChannelAtomic i c)) Returned
         else (case addMember i ch of
             (Inl e, _) \<Rightarrow> Returned (unexpected e)
           | (Inr _, ch1) \<Rightarrow>
               access (on_channels (channels_save ch1)) (\<lambda>saved. case saved of
                 Inl e \<Rightarrow> Returned (unexpected e)
               | Inr _ \<Rightarrow>
                   access (on_clients (clients_joinChannelAtomic i c)) (\<lambda>joined. case joined of
                     Inl e \<Rightarrow> Returned (unexpected e)
                   | Inr _ \<Rightarrow>
                       and_then (broadcastMemberJoined_task P (chan_id ch1) (chan_members ch1) i (sess_username s))
                         (\<lambda>_. and_then (publishMemberCount_task (chan_id ch1) ch1) (\<lambda>_. Returned (Inr ())))))))"
    using i(1) by (auto simp: add simp del: addMember_eq split: sum.split intro!: fine_intros)
qed

lemma fine_JoinChannel:
  assumes i: "i \<in> J"
  shows "fine P J srv0 srv (JoinChannel_task P i c)" and "fine P J srv0 srv (JoinChannelByName_task P i n)"
proof -
  have session: "sess_id s = i" if "undisturbed P J srv0 srv'" "clients_findById i (srv_clients srv') = Inr s" for srv' s
    using clients_findById_id [OF undisturbedD(4) [OF that(1)] that(2)] .
  have by_id: "copied J srv0 srv' ch" if "undisturbed P J srv0 srv'" "channels_findById x (srv_channels srv') = Inr ch" for srv' x ch
    using that by (simp add: channels_findById_Inr copied_at)
  have by_name: "copied J srv0 srv' ch" if "undisturbed P J srv0 srv'" "channels_findByName x (srv_channels srv') = Inr ch" for srv' x ch
    using that by (auto simp: channels_findByName_def channel_at_def intro!: copied_at split: option.splits)
  show "fine P J srv0 srv (JoinChannel_task P i c)"
    unfolding JoinChannel_task_def
    using i session by_id by (auto split: sum.split intro!: fine_look fine_join_found)
  show "fine P J srv0 srv (JoinChannelByName_task P i n)"
    unfolding JoinChannelByName_task_def
    using i session by_name by (auto split: sum.split option.split intro!: fine_look fine_then fine_join_found)
qed

lemma fine_CreateChannel: "fine P J srv0 srv (CreateChannel_task P t i name)"
  unfolding CreateChannel_task_def
proof (rule fine_look)
  fix srv' :: server
  have created: "fine P J srv0 srv' (draw (\<lambda>u. on_channels (channels_create P u t n)) (\<lambda>created. case created of
      Inl e \<Rightarrow> Returned (unexpected e)
    | Inr ch \<Rightarrow> and_then (publishChannelCreated_task ch) (\<lambda>_. Returned (Inr (chan_id ch)))))"
    if "ChannelName_create x = Some n" for x n
  proof (rule fine_draw)
    fix srv1 u a srv2
    assume inv: "undisturbed P J srv0 srv1" and fresh: "fresh_uuid P u srv1"
      and f: "on_channels (channels_create P u t n) srv1 = (a, srv2)"
    have "valid_channel_name (channel_name_value n)" using that by (auto simp: ChannelName_create_iff)
    from moves_create [OF inv fresh this, of t] f
    show "goes_on srv1 srv2 \<and> undisturbed P J srv0 srv2 \<and> fine P J srv0 srv2 (case a of
        Inl e \<Rightarrow> Returned (unexpected e)
      | Inr ch \<Rightarrow> and_then (publishChannelCreated_task ch) (\<lambda>_. Returned (Inr (chan_id ch))))"
      by (auto simp: on_channels_def split: prod.splits sum.split intro!: fine_then)
  qed
  show "fine P J srv0 srv' (case clients_findById i (srv_clients srv') of
       Inl e \<Rightarrow> Returned (unexpected e)
     | Inr s \<Rightarrow>
         (case ChannelName_create (trim name) of
            None \<Rightarrow> Returned (unexpected InvalidChannelName)
          | Some n \<Rightarrow> draw (\<lambda>u. on_channels (channels_create P u t n)) (\<lambda>created. case created of
                Inl e \<Rightarrow> Returned (unexpected e)
              | Inr ch \<Rightarrow> and_then (publishChannelCreated_task ch) (\<lambda>_. Returned (Inr (chan_id ch))))))"
    using created by (simp split: sum.split option.split)
qed

lemma fine_send_validated:
  "fine P J srv0 srv (draw (\<lambda>u srv.
      let m = \<lparr>msg_id = strong_id_generate P u, msg_sender_id = i, msg_channel_id = c, msg_content = v, msg_sent_at = t\<rparr>
      in case on_messages (messages_save m) srv of (saved, srv') \<Rightarrow> ((saved, m), srv'))
    (\<lambda>(saved, m). case saved of
       Inl e \<Rightarrow> Returned (unexpected e)
     | Inr _ \<Rightarrow> and_then (for_each (publish_task P m) (recipientsFor ch m policy)) (\<lambda>_. Returned (Inr (msg_id m)))))"
proof (rule fine_draw)
  fix srv1 u a srv2
  let ?m = "\<lparr>msg_id = strong_id_generate P u, msg_sender_id = i, msg_channel_id = c, msg_content = v, msg_sent_at = t\<rparr>"
  assume inv: "undisturbed P J srv0 srv1" and fresh: "fresh_uuid P u srv1"
    and "(let m = ?m in case on_messages (messages_save m) srv1 of (saved, srv') \<Rightarrow> ((saved, m), srv')) = (a, srv2)"
  then obtain saved where a: "a = (saved, ?m)" "srv2 = srv1\<lparr>srv_messages := snd (messages_save ?m (srv_messages srv1))\<rparr>"
    by (auto simp: on_messages_def Let_def split: prod.splits)
  have moved: "moves P J srv0 srv1 srv2"
    using moves_post [OF inv fresh, of ?m] by (simp add: a)
  have "fine P J srv0 srv2 (case saved of
       Inl e \<Rightarrow> Returned (unexpected e)
     | Inr _ \<Rightarrow> and_then (for_each (publish_task P ?m) (recipientsFor ch ?m policy)) (\<lambda>_. Returned (Inr (msg_id ?m))))"
    using moved by (auto split: sum.split intro!: fine_then fine_for_each)
  then show "goes_on srv1 srv2 \<and> undisturbed P J srv0 srv2 \<and> fine P J srv0 srv2 (case a of (saved, m) \<Rightarrow> (case saved of
       Inl e \<Rightarrow> Returned (unexpected e)
     | Inr _ \<Rightarrow> and_then (for_each (publish_task P m) (recipientsFor ch m policy)) (\<lambda>_. Returned (Inr (msg_id m)))))"
    using moved by (simp add: a(1))
qed

lemma fine_SendMessage: "fine P J srv0 srv (SendMessage_task P t i c content policy)"
  unfolding SendMessage_task_def
  by (auto split: sum.split intro!: fine_look fine_send_validated)

lemma fine_ListMessages: "fine P J srv0 srv (ListMessages_task i c before limit)"
  unfolding ListMessages_task_def Let_def
  by (auto split: sum.split intro!: fine_look)

lemma fine_expire:
  assumes i: "sess_id s \<in> J" and inv: "undisturbed P J srv0 srv"
  shows "fine P J srv0 srv (expire_task P s)"
proof -
  have "fine P J srv0 srv (expire_channels_task P s cs)" for cs
    using inv
  proof (induction cs arbitrary: srv)
    case (Cons c cs)
    then show ?case using i by (auto intro!: fine_then fine_removeMember)
  qed simp
  then show ?thesis
    unfolding expire_task_def using i inv by (auto intro!: fine_then fine_sessions fine_unregister)
qed

lemma fine_Expire:
  assumes expired: "\<And>j s. session_at (srv_clients srv0) (id_value j) = Some s \<Longrightarrow> isExpired deadline s \<Longrightarrow> j \<in> J"
  shows "fine P J srv0 srv (ExpireInactiveClients_task P deadline)"
  unfolding ExpireInactiveClients_task_def
proof (rule fine_look)
  fix srv' assume inv: "undisturbed P J srv0 srv'"
  have "sess_id s \<in> J" if "s \<in> set (clients_collectExpired deadline (srv_clients srv'))" for s
  proof (rule ccontr)
    assume "sess_id s \<notin> J"
    then have "session_at (srv_clients srv0) (id_value (sess_id s)) = Some s" "isExpired deadline s"
      using that inv set_collectExpired [OF undisturbedD(4) [OF inv]] by (auto simp: undisturbed_def)
    then show False using expired \<open>sess_id s \<notin> J\<close> by blast
  qed
  then show "fine P J srv0 srv' (and_then (for_each (expire_task P) (clients_collectExpired deadline (srv_clients srv')))
      (\<lambda>_. Returned (length (clients_collectExpired deadline (srv_clients srv')))))"
    using inv by (auto intro!: fine_then fine_for_each fine_expire)
qed

end
