(* ===== verification/Concurrent_Service.thy ===== *)
theory Concurrent_Service
  imports Concurrent_Handlers
begin

text \<open>
  The procedures of the service as tasks that keep to the rules, and the theorem about all of them
  together: whatever calls, streams and sweeps run at the same time, the indices of the stores stay
  well-formed and the clients nobody calls for are left alone.
\<close>

subsection \<open>The procedures\<close>

text \<open>The client a call is for, where it names one.\<close>

definition client_in :: "'u platform \<Rightarrow> client_id set \<Rightarrow> string \<Rightarrow> bool" where
  "client_in P J request_client_id \<longleftrightarrow>
     (case strong_id_parse P (trim request_client_id) of None \<Rightarrow> True | Some i \<Rightarrow> i \<in> J)"

fun for_clients :: "'u platform \<Rightarrow> client_id set \<Rightarrow> server \<Rightarrow> request \<Rightarrow> bool" where
  "for_clients P J srv (DisconnectCall ci) \<longleftrightarrow> client_in P J ci"
| "for_clients P J srv (JoinCall ci ch) \<longleftrightarrow> client_in P J ci"
| "for_clients P J srv (LeaveCall ci ch) \<longleftrightarrow> client_in P J ci"
| "for_clients P J srv (HeartbeatCall t ci) \<longleftrightarrow> client_in P J ci"
| "for_clients P J srv (SubscribeCall ci ch w) \<longleftrightarrow> client_in P J ci"
| "for_clients P J srv (StreamEnds i) \<longleftrightarrow> i \<in> J"
| "for_clients P J srv (SubscribeListCall ci w) \<longleftrightarrow> client_in P J ci"
| "for_clients P J srv (ListStreamEnds i) \<longleftrightarrow> i \<in> J"
| "for_clients P J srv (Sweep now timeout) \<longleftrightarrow>
     (\<forall>s \<in> set (clients_collectExpired (now - timeout) (srv_clients srv)). sess_id s \<in> J)"
| "for_clients P J srv _ \<longleftrightarrow> True"

lemma client_inD: "client_in P J ci \<Longrightarrow> strong_id_parse P (trim ci) = Some i \<Longrightarrow> i \<in> J"
  by (simp add: client_in_def)

lemma fine_status [intro]:
  "fine P J srv0 srv t \<Longrightarrow> undisturbed P J srv0 srv \<Longrightarrow> fine P J srv0 srv (status_task t)"
  "fine P J srv0 srv t' \<Longrightarrow> undisturbed P J srv0 srv \<Longrightarrow> fine P J srv0 srv (reply wrap t')"
  unfolding status_task_def reply_def by (auto split: sum.split intro!: fine_then)

lemma fine_Connect: "fine P J srv0 srv (Connect_task P t t' name)"
proof (cases "Username_create (trim name)")
  case (Some n)
  have n: "valid_username (username_value n)" using Some by (auto simp: Username_create_iff)
  have "fine P J srv0 srv (draw (\<lambda>u. on_clients (clients_registerClient P u t t' n)) (\<lambda>registered. case registered of
      Inl e \<Rightarrow> Returned (errorToStatus e, []) | Inr s \<Rightarrow> Returned (status_ok, id_value (sess_id s))))"
  proof (rule fine_draw)
    fix srv1 u a srv2
    assume inv: "undisturbed P J srv0 srv1" and fresh: "fresh_uuid P u srv1"
      and f: "on_clients (clients_registerClient P u t t' n) srv1 = (a, srv2)"
    show "goes_on srv1 srv2 \<and> undisturbed P J srv0 srv2 \<and> fine P J srv0 srv2 (case a of
      Inl e \<Rightarrow> Returned (errorToStatus e, []) | Inr s \<Rightarrow> Returned (status_ok, id_value (sess_id s)))"
      using moves_connect [OF inv fresh n, of t t'] f by (auto simp: on_clients_def split: prod.splits sum.split)
  qed
  then show ?thesis by (simp add: Connect_task_def Some)
qed (simp add: Connect_task_def)

lemma fine_Disconnect:
  assumes "client_in P J ci"
  shows "fine P J srv0 srv (Disconnect_task P ci)"
proof (cases "strong_id_parse P (trim ci) :: client_id option")
  case (Some i)
  have i: "i \<in> J" by (rule client_inD [OF assms Some])
  show ?thesis
    unfolding Disconnect_task_def Some option.case
    using i by (auto split: sum.split intro!: fine_look fine_then fine_for_each fine_LeaveChannel fine_sessions fine_unregister)
qed (simp add: Disconnect_task_def)

lemma fine_moves_for:
  assumes "client_in P J ci" and "undisturbed P J srv0 srv"
  shows "fine P J srv0 srv (JoinChannel_call P ci ch)" and "fine P J srv0 srv (LeaveChannel_call P ci ch)"
    and "fine P J srv0 srv (Heartbeat_task P t ci)"
  unfolding JoinChannel_call_def LeaveChannel_call_def Heartbeat_task_def Let_def
  using assms by (auto split: option.split dest!: client_inD
      intro!: fine_status fine_JoinChannel fine_LeaveChannel fine_sessions)

lemma fine_listed: "fine P J srv0 srv (listed_task P ms events)"
  by (induction ms arbitrary: events srv) (auto intro!: fine_look)

lemma fine_calls:
  assumes "undisturbed P J srv0 srv"
  shows "fine P J srv0 srv (CreateChannel_call P t ci name)" and "fine P J srv0 srv (SendMessage_call P t ci ch content)"
    and "fine P J srv0 srv (ListMessages_call P ci ch before limit)"
  unfolding CreateChannel_call_def SendMessage_call_def ListMessages_call_def Let_def
  using assms by (auto split: option.split sum.split
      intro!: fine_then fine_CreateChannel fine_SendMessage fine_ListMessages fine_listed)

lemma fine_Subscribe:
  assumes contract: "uuid_contract P" and ci: "client_in P J ci"
  shows "fine P J srv0 srv (Subscribe_task P ci ch w)" and "fine P J srv0 srv (SubscribeList_task P ci w)"
proof -
  have registers: "moves P J srv0 srv' (snd (on_publisher (publisher_registerSubscriber i (Some w)) srv'))"
      "moves P J srv0 srv' (snd (on_list_publisher (list_registerSubscriberWithSnapshot (srv_channels srv') i (Some w)) srv'))"
    if "undisturbed P J srv0 srv'" "strong_id_parse P (trim ci) = Some i" for srv' i
    using moves_register [OF that(1) client_inD [OF ci that(2)] parsed_key [OF contract that(2)]]
    by (simp_all add: on_publisher_def on_list_publisher_def)
  show "fine P J srv0 srv (Subscribe_task P ci ch w)"
    unfolding Subscribe_task_def
    using registers(1) ci by (auto split: option.split sum.split dest: client_inD intro!: fine_step fine_look fine_then fine_unregister)
  show "fine P J srv0 srv (SubscribeList_task P ci w)"
    unfolding SubscribeList_task_def
    using registers(2) by (auto split: option.split sum.split intro!: fine_look fine_step [where k = "\<lambda>_. Returned None"])
qed

lemma fine_handle:
  assumes contract: "uuid_contract P" and wf: "clients_wf (srv_clients srv0)"
    and who: "for_clients P J srv0 req" and inv: "undisturbed P J srv0 srv"
  shows "fine P J srv0 srv (handle P req)"
proof (cases req)
  case (Sweep now timeout)
  have "j \<in> J" if "session_at (srv_clients srv0) (id_value j) = Some s" "isExpired (now - timeout) s" for j s
  proof -
    have "sess_id s = j" using that(1) clients_wf_entity [OF wf that(1)] by (auto simp: strong_id_eq_iff)
    then show ?thesis using that who set_collectExpired [OF wf, of s] by (auto simp: Sweep)
  qed
  then show ?thesis using inv by (auto simp: Sweep intro!: fine_status fine_Expire)
qed (use who inv fine_moves_for fine_calls fine_Subscribe [OF contract] in
    \<open>auto intro!: fine_status fine_look fine_Connect fine_Disconnect fine_unregister\<close>)

subsection \<open>All of them together\<close>

text \<open>A moment of the server: the handlers that have started, each where it stands, and the state.\<close>

definition served :: "'u platform \<Rightarrow> (request \<Rightarrow> bool) \<Rightarrow> server \<Rightarrow> ('u, reply) handler list \<times> server \<Rightarrow> bool" where
  "served P requests srv0 = rtranclp (tasks_step (fresh_uuid P) (handle P ` Collect requests)) ([], srv0)"

lemma undisturbed_start:
  assumes inv: "server_inv P srv0" and users: "A \<subseteq> dom (user (abs_chat srv0))"
  shows "undisturbed P (- A) srv0 srv0"
proof -
  have "session_at (srv_clients srv0) (id_value j) \<noteq> None" if "j \<in> A" for j
    using subsetD [OF users that] by (simp add: dom_def)
  then show ?thesis
    using inv channels_wf_entity [OF server_invD(3) [OF inv]]
    by (auto simp: undisturbed_def server_inv_def repos_wf_def tame_def)
qed

lemma served_undisturbed:
  assumes "uuid_contract P" and inv: "server_inv P srv0" and users: "A \<subseteq> dom (user (abs_chat srv0))"
    and "served P (for_clients P (- A) srv0) srv0 (ts, srv)"
  shows "undisturbed P (- A) srv0 srv" and "goes_on srv0 srv"
  using server_calls.together [OF assms(4) [unfolded served_def] undisturbed_start [OF inv users], of "\<lambda>_ _ _. True"]
    fine_handle [OF assms(1) server_invD(4) [OF inv]] by auto

lemma undisturbed_member:
  assumes inv: "server_inv P srv0" and "undisturbed P (- A) srv0 srv"
    and "channel_at (srv_channels srv) (id_value c) = Some ch" and j: "j \<in> A"
  shows "hasMember j ch \<longleftrightarrow> place (abs_chat srv0) j = Some c"
proof -
  have id: "id_value (chan_id ch) = id_value c"
    using channels_wf_entity [OF undisturbedD(3) [OF assms(2)] assms(3)] by simp
  have tame: "tame (- A) (srv_channels srv0) ch"
    using assms(2,3) unfolding undisturbed_def by blast
  show ?thesis
  proof (cases "channel_at (srv_channels srv0) (id_value c)")
    case None
    then have "j \<notin> set (chan_members ch)" using tame id j by (auto simp: tame_def)
    then show ?thesis
      using None membership_room [OF server_invD(6) [OF inv], of j c] by (auto simp: hasMember_def)
  next
    case (Some ch0)
    then have "set (chan_members ch) - - A = set (chan_members ch0) - - A" using tame id by (simp add: tame_def)
    then have "hasMember j ch \<longleftrightarrow> hasMember j ch0" using j by (auto simp: hasMember_def)
    then show ?thesis using membership_members [OF server_invD(6) [OF inv] Some] by simp
  qed
qed

text \<open>
  C16: whatever handlers run at the same time, of every kind and in any number, and however their
  accesses to the stores, the tables and the writer entries interleave, the indices of the
  repositories and the tables of the publishers are well-formed at every moment, a channel keeps its
  name, no name given to a client is forgotten and nothing that was written to a stream is lost. A
  client that no call, stream or sweep is for keeps its session, its channel and its live streams, and
  it is a member of the channel it is in and of no other.
\<close>

theorem bystanders_unaffected:
  assumes "uuid_contract P" and "server_inv P srv0" and "A \<subseteq> dom (user (abs_chat srv0))"
    and "served P (for_clients P (- A) srv0) srv0 (ts, srv)"
  shows "tables_wf P srv \<and> repos_wf srv \<and> room (abs_chat srv0) \<subseteq>\<^sub>m room (abs_chat srv) \<and>
    username_history (srv_clients srv0) \<subseteq>\<^sub>m username_history (srv_clients srv) \<and>
    prefix (written (srv_publisher srv0)) (written (srv_publisher srv)) \<and>
    prefix (written (srv_list_publisher srv0)) (written (srv_list_publisher srv)) \<and>
    (\<forall>j\<in>A. user (abs_chat srv) j = user (abs_chat srv0) j \<and> place (abs_chat srv) j = place (abs_chat srv0) j \<and>
       live (srv_publisher srv) (id_value j) = live (srv_publisher srv0) (id_value j) \<and>
       live (srv_list_publisher srv) (id_value j) = live (srv_list_publisher srv0) (id_value j) \<and>
       (\<forall>c ch. channel_at (srv_channels srv) (id_value c) = Some ch \<longrightarrow>
          (hasMember j ch \<longleftrightarrow> place (abs_chat srv) j = Some c)))"
proof (intro conjI ballI)
  note kept = served_undisturbed [OF assms]
  show "tables_wf P srv" "repos_wf srv" using kept(1) by (simp_all add: undisturbed_def)
  show "room (abs_chat srv0) \<subseteq>\<^sub>m room (abs_chat srv)"
  proof (unfold map_le_def, intro ballI)
    fix c assume "c \<in> dom (room (abs_chat srv0))"
    then obtain n where n: "room (abs_chat srv0) c = Some n" by blast
    then obtain ch where "channel_at (srv_channels srv0) (id_value c) = Some ch" "chan_name ch = n" by auto
    then have "room (abs_chat srv) c = Some n" using kept(2) unfolding goes_on_def by fastforce
    with n show "room (abs_chat srv0) c = room (abs_chat srv) c" by (simp only:)
  qed
  show "username_history (srv_clients srv0) \<subseteq>\<^sub>m username_history (srv_clients srv)"
    using kept(2) by (auto simp: goes_on_def map_le_def)
  show "prefix (written (srv_publisher srv0)) (written (srv_publisher srv))"
    "prefix (written (srv_list_publisher srv0)) (written (srv_list_publisher srv))"
    using kept(2) by (simp_all add: goes_on_def entries_kept_def)
  fix j assume j: "j \<in> A"
  show place: "place (abs_chat srv) j = place (abs_chat srv0) j"
    using kept(1) j by (simp add: undisturbed_def place_of_def)
  show "user (abs_chat srv) j = user (abs_chat srv0) j"
    "live (srv_publisher srv) (id_value j) = live (srv_publisher srv0) (id_value j)"
    "live (srv_list_publisher srv) (id_value j) = live (srv_list_publisher srv0) (id_value j)"
    using kept(1) j by (simp_all add: undisturbed_def)
  show "\<forall>c ch. channel_at (srv_channels srv) (id_value c) = Some ch \<longrightarrow>
      (hasMember j ch \<longleftrightarrow> place (abs_chat srv) j = Some c)"
    using undisturbed_member [OF assms(2) kept(1) _ j] place by simp
qed

lemma served_alone:
  assumes "requests req" and "drawless (handle P req)" and "run_alone u (handle P req) srv0 = (r, srv)"
  shows "served P requests srv0 ([Returned r], srv)"
proof -
  have "tasks_step (fresh_uuid P) (handle P ` Collect requests) ([], srv0) ([handle P req], srv0)"
    using assms(1) arrives [of "handle P req" _ _ "[]"] by simp
  moreover note run_to_end [OF assms(2) _ assms(3), of 0 "[handle P req]"]
  ultimately show ?thesis
    unfolding served_def by (auto intro: converse_rtranclp_into_rtranclp)
qed

text \<open>Alice is in the room while Bob joins it: once Bob is inside, she is where she was.\<close>

theorem bystanders_unaffected_witness:
  "\<exists>ts srv. served demo_platform (for_clients demo_platform (- {demo_alice}) (with_bob demo_server)) (with_bob demo_server) (ts, srv) \<and>
     ts = [Returned (Status_Reply status_ok)] \<and> place (abs_chat srv) demo_bob = Some demo_room \<and>
     place (abs_chat srv) demo_alice = Some demo_room"
proof -
  let ?req = "JoinCall (demo_text U3) (demo_text U1)" and ?srv0 = "with_bob demo_server"
  let ?requests = "for_clients demo_platform (- {demo_alice}) ?srv0"
  have ids: "strong_id_parse demo_platform (trim (demo_text U3)) = Some demo_bob"
    "strong_id_parse demo_platform (trim (demo_text U1)) = Some demo_room" by simp_all
  have req: "?requests ?req" using ids by (simp add: client_in_def)
  note bob = with_bob_inv [OF demo_server_inv(1) demo_server_fresh]
  have joined: "map_prod id abs_chat (JoinChannel_execute demo_platform demo_bob demo_room ?srv0) =
      (Inr (), (abs_chat ?srv0)\<lparr>place := (place (abs_chat ?srv0))(demo_bob \<mapsto> demo_room)\<rparr>)"
    unfolding JoinChannel_refines(2) [OF demo_one_inside(1)]
    by (simp add: chat_join_def bob(2) demo_server_inv(2) user_taken_def del: abs_chat_sel)
  obtain srv where srv: "JoinChannel_execute demo_platform demo_bob demo_room ?srv0 = (Inr (), srv)"
    "abs_chat srv = (abs_chat ?srv0)\<lparr>place := (place (abs_chat ?srv0))(demo_bob \<mapsto> demo_room)\<rparr>"
    using joined by (cases "JoinChannel_execute demo_platform demo_bob demo_room ?srv0") (simp del: abs_chat_sel)
  have "run_alone U1 (handle demo_platform ?req) ?srv0 = (Status_Reply status_ok, srv)"
    using ids srv(1) by (simp add: JoinChannel_call_def Let_def)
  then have run: "served demo_platform ?requests ?srv0 ([Returned (Status_Reply status_ok)], srv)"
    by (intro served_alone [where req = ?req and u = U1] req) (simp_all add: drawless_calls)
  have "{demo_alice} \<subseteq> dom (user (abs_chat ?srv0))"
    by (simp add: bob(2) demo_server_inv(2) user_taken_def del: abs_chat_sel)
  from bystanders_unaffected [OF demo_contract demo_one_inside(1) this run]
  have "place (abs_chat srv) demo_alice = place (abs_chat ?srv0) demo_alice" by (simp only: ball_simps)
  then show ?thesis using run srv(2) demo_one_inside(2) by (auto simp del: abs_chat_sel)
qed

end
