(* ===== verification/Races.thy ===== *)
theory Races
  imports Concurrent_Service
begin

text \<open>
  What the locks do not order: three runs of handlers that overlap, each made of the code's own
  accesses, that no order of the calls one after the other gives.
\<close>

definition overlapping ::
  "'u platform \<Rightarrow> ('u, reply) handler list \<times> server \<Rightarrow> ('u, reply) handler list \<times> server \<Rightarrow> bool" where
  "overlapping P = rtranclp (tasks_step (fresh_uuid P) {})"

lemma overlapping_trans: "overlapping P a b \<Longrightarrow> overlapping P b c \<Longrightarrow> overlapping P a c"
  by (simp add: overlapping_def)

lemma overlapping_finish:
  "drawless t \<Longrightarrow> k < length ts \<Longrightarrow> ts ! k = t \<Longrightarrow> run_alone u t srv = (r, srv') \<Longrightarrow>
   overlapping P (ts, srv) (ts[k := Returned r], srv')"
  unfolding overlapping_def using run_to_end [of t k ts u srv r srv'] by (metis list_update_id)

lemma overlapping_access:
  "k < length ts \<Longrightarrow> ts ! k = access f g \<Longrightarrow> f srv = (a, srv') \<Longrightarrow> overlapping P (ts, srv) (ts[k := g a], srv')"
  unfolding overlapping_def by (rule r_into_rtranclp) (rule step_access)

lemma overlapping_draw:
  assumes "k < length ts" and "ts ! k = draw f g" and "fresh_uuid P u srv" and "f u srv = (a, srv')"
  shows "overlapping P (ts, srv) (ts[k := g a], srv')"
  unfolding overlapping_def by (rule r_into_rtranclp) (rule step_draw [where fresh = "fresh_uuid P", OF assms])

subsection \<open>A message between its save and its delivery\<close>

text \<open>What is left of a call of \<open>SendMessage\<close> once the message is saved.\<close>

definition delivering :: "'u platform \<Rightarrow> message \<Rightarrow> client_id list \<Rightarrow> ('u, reply) handler" where
  "delivering P m recipients =
     and_then (for_each (publish_task P m) recipients) (\<lambda>_. Returned (Send_Reply (status_ok, id_value (msg_id m))))"

definition saved_in :: "message \<Rightarrow> server \<Rightarrow> server" where
  "saved_in m srv = srv\<lparr>srv_messages := snd (messages_save m (srv_messages srv))\<rparr>"

lemma deliver:
  assumes "k < length ts" and "ts ! k = delivering P m rs"
  shows "overlapping P (ts, srv) (ts[k := Returned (Send_Reply (status_ok, id_value (msg_id m)))], publish_each P m rs srv)"
  by (rule overlapping_finish [OF _ assms]) (auto simp: delivering_def intro!: drawless_rules drawless_broadcast)

lemma send_saves:
  assumes inv: "server_inv P srv" and k: "k < length ts" "ts ! k = handle P (SendCall t ci chn x)"
    and ids: "strong_id_parse P (trim ci) = Some i" "strong_id_parse P (trim chn) = Some c"
    and inside: "place (abs_chat srv) i = Some c" and at: "channel_at (srv_channels srv) (id_value c) = Some ch"
    and content: "valid_content x" and fresh: "fresh_uuid P u srv"
  shows "overlapping P (ts, srv)
    (ts[k := delivering P (sent_message P u t i c (MessageContent x)) (chan_members ch)], saved_in (sent_message P u t i c (MessageContent x)) srv)"
proof -
  let ?m = "sent_message P u t i c (MessageContent x)"
  obtain s where s: "session_at (srv_clients srv) (id_value i) = Some s"
    using inside place_of_session [of "srv_clients srv" i c] by auto
  have member: "hasMember i ch"
    using membership_members [OF server_invD(6) [OF inv] at] inside by simp
  have trim: "trim x = x"
    using content by (intro trim_trimmed_id) (simp add: valid_content_def)
  then have create: "MessageContent_create x = Inr (MessageContent x)"
    using content by (auto simp: MessageContent_create_def content_trim_eq valid_content_def Let_def)
  define after_draw where "after_draw = (\<lambda>ch (saved :: unit result, m). case saved of
      Inl e \<Rightarrow> Returned (Send_Reply (errorToStatus e, []))
    | Inr _ \<Rightarrow> delivering P m (recipientsFor ch m IncludeSender))"
  define saving where "saving = (\<lambda>u srv. let m = \<lparr>msg_id = strong_id_generate P u, msg_sender_id = i,
      msg_channel_id = c, msg_content = MessageContent x, msg_sent_at = t\<rparr>
      in case on_messages (messages_save m) srv of (saved, srv') \<Rightarrow> ((saved, m), srv'))"
  define on_channel where "on_channel = (\<lambda>found. case found of
      Inl e \<Rightarrow> Returned (Send_Reply (errorToStatus e, []))
    | Inr ch \<Rightarrow> if \<not> hasMember i ch then Returned (Send_Reply (errorToStatus NotAMember, [])) else draw saving (after_draw ch))"
  define find_channel where "find_channel = (look (\<lambda>srv. channels_findById c (srv_channels srv)))"
  define on_sender where "on_sender = (\<lambda>sender :: session result. case sender of
      Inl e \<Rightarrow> Returned (Send_Reply (errorToStatus e, [])) | Inr _ \<Rightarrow> access find_channel on_channel)"
  have "handle P (SendCall t ci chn x) = access (look (\<lambda>srv. clients_findById i (srv_clients srv))) on_sender"
    by (simp add: ids trim create SendMessage_call_def SendMessage_task_def reply_def and_then_access and_then_draw
        and_then_assoc sum.case_distrib [of "\<lambda>t. and_then t g" for g] if_distrib [of "\<lambda>t. and_then t g" for g]
        prod.case_distrib [of "\<lambda>t. and_then t g" for g] after_draw_def saving_def delivering_def
        on_channel_def on_sender_def find_channel_def cong: sum.case_cong if_cong)
  then have one: "overlapping P (ts, srv) (ts[k := access find_channel on_channel], srv)"
    using overlapping_access [of k ts _ on_sender srv "Inr s" srv P] k s by (simp add: look_def clients_findById_eq on_sender_def)
  have "find_channel srv = (Inr ch, srv)" using at by (simp add: find_channel_def look_def channels_findById_eq)
  then have two: "overlapping P (ts[k := access find_channel on_channel], srv) (ts[k := draw saving (after_draw ch)], srv)"
    using overlapping_access [of k "ts[k := access find_channel on_channel]" find_channel on_channel srv "Inr ch" srv P]
      k(1) member by (simp add: on_channel_def)
  have "saving u srv = ((Inr (), ?m), saved_in ?m srv)"
    by (simp add: saving_def sent_message_def on_messages_def saved_in_def messages_save_def Let_def)
  then have three: "overlapping P (ts[k := draw saving (after_draw ch)], srv) (ts[k := delivering P ?m (chan_members ch)], saved_in ?m srv)"
    using overlapping_draw [of k "ts[k := draw saving (after_draw ch)]" saving "after_draw ch" P u srv] k(1) fresh
    by (simp add: after_draw_def)
  show ?thesis by (rule overlapping_trans [OF one overlapping_trans [OF two three]])
qed

lemma saved_in_inv:
  assumes inv: "server_inv P srv" and inside: "place (abs_chat srv) i = Some c"
    and content: "valid_content x" and fresh: "fresh_uuid P u srv" and m: "m = sent_message P u t i c (MessageContent x)"
  shows "server_inv P (saved_in m srv)" and "abs_chat (saved_in m srv) = chat_post (unat (repo_cap (srv_messages srv))) m (abs_chat srv)"
proof -
  have "saved_in m srv = publish_each P m [] (srv\<lparr>srv_messages := snd (messages_save m (srv_messages srv))\<rparr>)"
    by (simp add: saved_in_def)
  from post_effect [OF inv fresh _ _ m this] inside content
  show "server_inv P (saved_in m srv)" "abs_chat (saved_in m srv) = chat_post (unat (repo_cap (srv_messages srv))) m (abs_chat srv)"
    by simp_all
qed

lemma saved_in_fields [simp]:
  "srv_channels (saved_in m srv) = srv_channels srv" "srv_clients (saved_in m srv) = srv_clients srv"
  "srv_publisher (saved_in m srv) = srv_publisher srv" "repo_cap (srv_messages (saved_in m srv)) = repo_cap (srv_messages srv)"
  by (simp_all add: saved_in_def)

lemma saved_in_fresh:
  assumes "fresh_uuid P v srv" and "msg_id m = strong_id_generate P u" and "uuid_to_string P u \<noteq> uuid_to_string P v"
  shows "fresh_uuid P v (saved_in m srv)"
  using assms by (auto simp: fresh_uuid_def saved_in_def history_save strong_id_generate_def dest!: in_set_dropD)

text \<open>The streams a message to a channel goes to.\<close>

definition channel_writers :: "server \<Rightarrow> channel_id \<Rightarrow> writer list" where
  "channel_writers srv c = (case channel_at (srv_channels srv) (id_value c) of None \<Rightarrow> []
     | Some ch \<Rightarrow> List.map_filter (\<lambda>r. live (srv_publisher srv) (id_value r)) (chan_members ch))"

subsection \<open>Two clients in a channel\<close>

text \<open>Alice, with her stream, and Bob in the room.\<close>

definition demo_pair :: server where
  "demo_pair = snd (JoinChannel_execute demo_platform demo_bob demo_room (with_bob demo_stream_server))"

lemma fresh_from_abs:
  assumes "room (abs_chat srv) (strong_id_generate P u) = None" and "names srv (uuid_to_string P u) = None"
    and "server_inv P srv" and "\<not> uuid_is_nil P u" and "\<And>c. posts (abs_chat srv) c = []"
  shows "fresh_uuid P u srv"
proof -
  have "history (srv_messages srv) k = []" for k using assms(5) [of "StrongId k"] by simp
  moreover have "session_at (srv_clients srv) (uuid_to_string P u) = None"
    using assms(2) clients_wf_history [OF server_invD(4) [OF assms(3)], of "uuid_to_string P u"]
    by (cases "session_at (srv_clients srv) (uuid_to_string P u)") (auto simp: names_def)
  ultimately show ?thesis
    using assms(1,2,4) by (simp add: fresh_uuid_def names_def strong_id_generate_def)
qed

lemma demo_pair_facts:
  "server_inv demo_platform demo_pair"
  "abs_chat demo_pair = \<lparr>room = [demo_room \<mapsto> ChannelName ''general''], user = [demo_alice \<mapsto> Username ''alice'', demo_bob \<mapsto> Username ''bob''],
     place = [demo_alice \<mapsto> demo_room, demo_bob \<mapsto> demo_room], posts = (\<lambda>c. [])\<rparr>"
  "live (srv_publisher demo_pair) (id_value demo_alice) = Some 5"
  "fresh_uuid demo_platform U4 demo_pair" "fresh_uuid demo_platform U5 demo_pair"
proof -
  have free: "\<not> user_taken (Username ''bob'') (abs_chat demo_stream_server)"
    by (simp add: demo_stream_abs demo_server_inv(2) user_taken_def del: abs_chat_sel)
  note bob = with_bob_inv [OF demo_stream_inv demo_stream_fresh free]
  show inv: "server_inv demo_platform demo_pair"
    unfolding demo_pair_def by (rule JoinChannel_refines(1) [OF bob(1)])
  have "map_prod id abs_chat (JoinChannel_execute demo_platform demo_bob demo_room (with_bob demo_stream_server)) =
      (Inr (), (abs_chat (with_bob demo_stream_server))\<lparr>place := (place (abs_chat (with_bob demo_stream_server)))(demo_bob \<mapsto> demo_room)\<rparr>)"
    unfolding JoinChannel_refines(2) [OF bob(1)]
    by (simp add: chat_join_def bob(2) demo_stream_abs demo_server_inv(2) del: abs_chat_sel)
  from arg_cong [OF this, where f = snd] show abs: "abs_chat demo_pair = \<lparr>room = [demo_room \<mapsto> ChannelName ''general''],
      user = [demo_alice \<mapsto> Username ''alice'', demo_bob \<mapsto> Username ''bob''],
      place = [demo_alice \<mapsto> demo_room, demo_bob \<mapsto> demo_room], posts = (\<lambda>c. [])\<rparr>"
    by (simp add: demo_pair_def bob(2) demo_stream_abs demo_server_inv(2) del: abs_chat_sel)
  have "live (srv_publisher demo_pair) = live (srv_publisher (with_bob demo_stream_server))"
    using same_tables_Join(1) [of "with_bob demo_stream_server" demo_platform demo_bob demo_room]
    by (intro live_cong) (simp_all add: same_tables_def demo_pair_def)
  then show "live (srv_publisher demo_pair) (id_value demo_alice) = Some 5"
    using demo_stream_live by (simp add: with_bob_def)
  have unknown: "username_index (srv_clients demo_stream_server) (username_value (Username ''bob'')) = None"
    using free username_index_taken [OF demo_stream_inv, of "Username ''bob''"] by blast
  have "names demo_pair (demo_text u) = names (with_bob demo_stream_server) (demo_text u)" for u
    by (simp add: demo_pair_def)
  moreover have "names (with_bob demo_stream_server) (demo_text u) = None" if "u \<in> {U4, U5}" for u
    using that username_history_register [OF unknown, of demo_platform U3 0 0 "demo_text u"]
    by (auto simp: names_def with_bob_def demo_stream_server_def demo_names [unfolded names_def])
  ultimately have "fresh_uuid demo_platform u demo_pair" if "u \<in> {U4, U5}" for u
    using that by (intro fresh_from_abs inv) (auto simp: abs simp del: abs_chat_sel)
  then show "fresh_uuid demo_platform U4 demo_pair" "fresh_uuid demo_platform U5 demo_pair" by simp_all
qed

subsection \<open>Delivery\<close>

text \<open>
  C21: the order of the history is not the order of delivery. Two messages are sent to a
  channel at the same time and both calls succeed; the history has the first message before the
  second, but every stream of the channel is written the second message before the first, since no
  lock is held between the save and the delivery.
\<close>

theorem delivered_out_of_order:
  assumes inv: "server_inv P srv"
    and ids: "strong_id_parse P (trim ci) = Some i" "strong_id_parse P (trim cj) = Some j" "strong_id_parse P (trim chn) = Some c"
    and inside: "place (abs_chat srv) i = Some c" "place (abs_chat srv) j = Some c"
    and content: "valid_content x" "valid_content y"
    and fresh: "fresh_uuid P u srv" "fresh_uuid P v srv" "uuid_to_string P u \<noteq> uuid_to_string P v"
    and first_def: "first = sent_message P u t i c (MessageContent x)"
    and second_def: "second = sent_message P v t' j c (MessageContent y)"
  shows "\<exists>srv'. overlapping P ([handle P (SendCall t ci chn x), handle P (SendCall t' cj chn y)], srv)
      ([Returned (Send_Reply (status_ok, uuid_to_string P u)), Returned (Send_Reply (status_ok, uuid_to_string P v))], srv') \<and>
    abs_chat srv' = (let cap = unat (repo_cap (srv_messages srv)) in chat_post cap second (chat_post cap first (abs_chat srv))) \<and>
    written (srv_publisher srv') = written (srv_publisher srv) @
      map (\<lambda>w. (w, message_to_event P (Some (srv_clients srv)) second)) (channel_writers srv c) @
      map (\<lambda>w. (w, message_to_event P (Some (srv_clients srv)) first)) (channel_writers srv c)"
proof -
  obtain ch where at: "channel_at (srv_channels srv) (id_value c) = Some ch"
    using membership_room [OF server_invD(6) [OF inv]] inside by auto
  let ?A = "handle P (SendCall t ci chn x)" and ?B = "handle P (SendCall t' cj chn y)" and ?to = "chan_members ch"
  let ?srv1 = "saved_in first srv" let ?srv2 = "saved_in second ?srv1"
  let ?srv3 = "publish_each P second ?to ?srv2" let ?srv4 = "publish_each P first ?to ?srv3"
  note one = saved_in_inv [OF inv inside(1) content(1) fresh(1) first_def]
  have inside1: "place (abs_chat ?srv1) j = Some c"
    using inside(2) by simp
  have fresh1: "fresh_uuid P v ?srv1"
    by (rule saved_in_fresh [OF fresh(2) _ fresh(3)]) (simp add: first_def sent_message_def)
  note two = saved_in_inv [OF one(1) inside1 content(2) fresh1 second_def]
  have "overlapping P ([?A, ?B], srv) ([delivering P first ?to, ?B], ?srv1)"
    using send_saves [OF inv _ _ ids(1,3) inside(1) at content(1) fresh(1), of 0 "[?A, ?B]"] by (simp add: first_def)
  moreover have "overlapping P ([delivering P first ?to, ?B], ?srv1) ([delivering P first ?to, delivering P second ?to], ?srv2)"
    using send_saves [OF one(1) _ _ ids(2,3) inside1 _ content(2) fresh1, of 1 "[delivering P first ?to, ?B]"] at
    by (simp add: second_def)
  moreover have "overlapping P ([delivering P first ?to, delivering P second ?to], ?srv2)
      ([delivering P first ?to, Returned (Send_Reply (status_ok, uuid_to_string P v))], ?srv3)"
    using deliver [of 1 "[delivering P first ?to, delivering P second ?to]" P second ?to ?srv2]
    by (simp add: second_def sent_message_def strong_id_generate_def)
  moreover have "overlapping P ([delivering P first ?to, Returned (Send_Reply (status_ok, uuid_to_string P v))], ?srv3)
      ([Returned (Send_Reply (status_ok, uuid_to_string P u)), Returned (Send_Reply (status_ok, uuid_to_string P v))], ?srv4)"
    using deliver [of 0 "[delivering P first ?to, Returned (Send_Reply (status_ok, uuid_to_string P v))]" P first ?to ?srv3]
    by (simp add: first_def sent_message_def strong_id_generate_def)
  ultimately have "overlapping P ([?A, ?B], srv)
      ([Returned (Send_Reply (status_ok, uuid_to_string P u)), Returned (Send_Reply (status_ok, uuid_to_string P v))], ?srv4)"
    by (meson overlapping_trans)
  moreover have "abs_chat ?srv4 = abs_chat ?srv2" by (simp add: abs_chat_def)
  moreover have "abs_chat ?srv2 = (let cap = unat (repo_cap (srv_messages srv)) in chat_post cap second (chat_post cap first (abs_chat srv)))"
    using one(2) two(2) by (simp add: Let_def del: abs_chat_sel)
  moreover have "channel_writers srv c = List.map_filter (\<lambda>r. live (srv_publisher srv) (id_value r)) ?to"
    by (simp add: channel_writers_def at)
  then have "written (srv_publisher ?srv4) = written (srv_publisher srv) @
      map (\<lambda>w. (w, message_to_event P (Some (srv_clients srv)) second)) (channel_writers srv c) @
      map (\<lambda>w. (w, message_to_event P (Some (srv_clients srv)) first)) (channel_writers srv c)"
    by (simp add: written_publish_each)
  ultimately show ?thesis by metis
qed

theorem delivered_out_of_order_witness:
  "\<exists>srv' first second. overlapping demo_platform
      ([handle demo_platform (SendCall 0 (demo_text U2) (demo_text U1) ''hi''),
        handle demo_platform (SendCall 0 (demo_text U3) (demo_text U1) ''yo'')], demo_pair)
      ([Returned (Send_Reply (status_ok, demo_text U4)), Returned (Send_Reply (status_ok, demo_text U5))], srv') \<and>
    written (srv_publisher srv') = written (srv_publisher demo_pair) @ second @ first \<and>
    (\<exists>ev. (5, MessageEv ev) \<in> set second \<and> ev_content ev = ''yo'') \<and>
    (\<exists>ev. (5, MessageEv ev) \<in> set first \<and> ev_content ev = ''hi'')"
proof -
  have ids: "strong_id_parse demo_platform (trim (demo_text U2)) = Some demo_alice"
    "strong_id_parse demo_platform (trim (demo_text U3)) = Some demo_bob"
    "strong_id_parse demo_platform (trim (demo_text U1)) = Some demo_room" by simp_all
  have inside: "place (abs_chat demo_pair) demo_alice = Some demo_room" "place (abs_chat demo_pair) demo_bob = Some demo_room"
    by (simp_all add: demo_pair_facts(2) del: abs_chat_sel)
  have content: "valid_content ''hi''" "valid_content ''yo''" by (simp_all add: valid_content_def trimmed_def is_ascii_space_def)
  let ?A = "handle demo_platform (SendCall 0 (demo_text U2) (demo_text U1) ''hi'')"
    and ?B = "handle demo_platform (SendCall 0 (demo_text U3) (demo_text U1) ''yo'')"
  let ?sent = "\<lambda>m. map (\<lambda>w. (w, message_to_event demo_platform (Some (srv_clients demo_pair)) m)) (channel_writers demo_pair demo_room)"
  let ?first = "?sent (sent_message demo_platform U4 0 demo_alice demo_room (MessageContent ''hi''))"
    and ?second = "?sent (sent_message demo_platform U5 0 demo_bob demo_room (MessageContent ''yo''))"
  obtain ch where at: "channel_at (srv_channels demo_pair) (id_value demo_room) = Some ch"
    using membership_room [OF server_invD(6) [OF demo_pair_facts(1)], of demo_alice demo_room] inside(1) by auto
  then have "demo_alice \<in> set (chan_members ch)"
    using membership_members [OF server_invD(6) [OF demo_pair_facts(1)] at, of demo_alice] inside(1) by (simp add: hasMember_def)
  then have "5 \<in> set (channel_writers demo_pair demo_room)"
    using at demo_pair_facts(3) by (force simp: channel_writers_def List.map_filter_def image_iff)
  moreover obtain ev1 ev2 where
    "message_to_event demo_platform (Some (srv_clients demo_pair)) (sent_message demo_platform U4 0 demo_alice demo_room (MessageContent ''hi'')) = MessageEv ev1"
    "message_to_event demo_platform (Some (srv_clients demo_pair)) (sent_message demo_platform U5 0 demo_bob demo_room (MessageContent ''yo'')) = MessageEv ev2"
    "ev_content ev1 = ''hi''" "ev_content ev2 = ''yo''"
    by (simp add: message_to_event_def sent_message_def)
  ultimately have events: "(5, MessageEv ev1) \<in> set ?first" "(5, MessageEv ev2) \<in> set ?second"
    by (force simp: image_iff)+
  have "\<exists>srv'. overlapping demo_platform ([?A, ?B], demo_pair)
      ([Returned (Send_Reply (status_ok, demo_text U4)), Returned (Send_Reply (status_ok, demo_text U5))], srv') \<and>
      written (srv_publisher srv') = written (srv_publisher demo_pair) @ ?second @ ?first"
    using delivered_out_of_order [OF demo_pair_facts(1) ids inside content demo_pair_facts(4,5) _ refl refl, of 0 0]
    by (simp only: demo_to_string demo_text_inj demo_uuid.distinct simp_thms) blast
  then show ?thesis using events \<open>ev_content ev1 = ''hi''\<close> \<open>ev_content ev2 = ''yo''\<close> by blast
qed

text \<open>
  C22: leaving a channel does not end what comes from it. While a message is on its way a member leaves
  the channel: its call returns success, it is a member no longer and its session records no
  channel, and after that the message is still written to its stream.
\<close>

theorem delivered_after_leaving:
  assumes inv: "server_inv P srv" and neq: "i \<noteq> j"
    and ids: "strong_id_parse P (trim ci) = Some i" "strong_id_parse P (trim cj) = Some j" "strong_id_parse P (trim chn) = Some c"
    and inside: "place (abs_chat srv) i = Some c" "place (abs_chat srv) j = Some c"
    and stream: "live (srv_publisher srv) (id_value j) = Some w"
    and content: "valid_content x" and fresh: "fresh_uuid P u srv"
  shows "\<exists>sending srv1 srv2 new event.
    overlapping P ([handle P (SendCall t ci chn x), handle P (LeaveCall cj chn)], srv)
      ([sending, Returned (Status_Reply status_ok)], srv1) \<and>
    server_inv P srv1 \<and> place (abs_chat srv1) j = None \<and>
    overlapping P ([sending, Returned (Status_Reply status_ok)], srv1)
      ([Returned (Send_Reply (status_ok, uuid_to_string P u)), Returned (Status_Reply status_ok)], srv2) \<and>
    written (srv_publisher srv2) = written (srv_publisher srv1) @ new \<and>
    (w, MessageEv event) \<in> set new \<and> ev_sender_id event = id_value i \<and> ev_content event = x"
proof -
  obtain ch where at: "channel_at (srv_channels srv) (id_value c) = Some ch"
    using membership_room [OF server_invD(6) [OF inv]] inside by auto
  let ?m = "sent_message P u t i c (MessageContent x)" and ?to = "chan_members ch"
  let ?A = "handle P (SendCall t ci chn x)" and ?B = "handle P (LeaveCall cj chn)"
  let ?saved = "saved_in ?m srv" and ?left = "snd (LeaveChannel_execute P j c (saved_in ?m srv))"
  note saved = saved_in_inv [OF inv inside(1) content fresh refl]
  have ready: "user (abs_chat ?saved) j \<noteq> None" "room (abs_chat ?saved) c \<noteq> None" "place (abs_chat ?saved) j = Some c"
    using inside(2) at place_of_session [of "srv_clients srv" j c] by auto
  then have "chat_leave j c (abs_chat ?saved) = (Inr (), (abs_chat ?saved)\<lparr>place := (place (abs_chat ?saved))(j := None)\<rparr>)"
    by (simp only: chat_leave_def if_False if_True simp_thms)
  with LeaveChannel_refines(2) [OF saved(1), of j c]
  have "map_prod id abs_chat (LeaveChannel_execute P j c ?saved) =
      (Inr (), (abs_chat ?saved)\<lparr>place := (place (abs_chat ?saved))(j := None)\<rparr>)" by (rule trans)
  then have leave: "fst (LeaveChannel_execute P j c ?saved) = Inr ()"
    "abs_chat ?left = (abs_chat ?saved)\<lparr>place := (place (abs_chat ?saved))(j := None)\<rparr>"
    by (metis fst_map_prod id_apply fst_conv, metis snd_map_prod snd_conv)
  have live: "live (srv_publisher ?left) = live (srv_publisher srv)"
    using same_tables_Leave [of ?saved P j c] by (intro live_cong) (simp_all add: same_tables_def)
  have "overlapping P ([?A, ?B], srv) ([delivering P ?m ?to, ?B], ?saved)"
    using send_saves [OF inv _ _ ids(1,3) inside(1) at content fresh, of 0 "[?A, ?B]"] by simp
  moreover have "run_alone u ?B ?saved = (Status_Reply status_ok, ?left)"
    using leave(1) ids by (cases "LeaveChannel_execute P j c ?saved") (simp add: LeaveChannel_call_def)
  then have "overlapping P ([delivering P ?m ?to, ?B], ?saved) ([delivering P ?m ?to, Returned (Status_Reply status_ok)], ?left)"
    using overlapping_finish [of ?B 1 "[delivering P ?m ?to, ?B]"] by (simp add: drawless_calls)
  ultimately have one: "overlapping P ([?A, ?B], srv) ([delivering P ?m ?to, Returned (Status_Reply status_ok)], ?left)"
    by (rule overlapping_trans)
  have two: "overlapping P ([delivering P ?m ?to, Returned (Status_Reply status_ok)], ?left)
      ([Returned (Send_Reply (status_ok, uuid_to_string P u)), Returned (Status_Reply status_ok)], publish_each P ?m ?to ?left)"
    using deliver [of 0 "[delivering P ?m ?to, Returned (Status_Reply status_ok)]" P ?m ?to ?left]
    by (simp add: sent_message_def strong_id_generate_def)
  have "j \<in> set ?to"
    using membership_members [OF server_invD(6) [OF inv] at, of j] inside(2) by (simp add: hasMember_def)
  then have "w \<in> set (List.map_filter (\<lambda>r. live (srv_publisher ?left) (id_value r)) ?to)"
    using stream live by (force simp: List.map_filter_def image_iff)
  moreover obtain event where event: "message_to_event P (Some (srv_clients ?left)) ?m = MessageEv event"
    "ev_sender_id event = id_value i" "ev_content event = x"
    by (simp add: message_to_event_def sent_message_def)
  ultimately have "\<exists>new. written (srv_publisher (publish_each P ?m ?to ?left)) = written (srv_publisher ?left) @ new \<and>
      (w, MessageEv event) \<in> set new"
    by (auto simp: written_publish_each)
  moreover have "place (abs_chat ?left) j = None" by (simp add: leave(2) del: abs_chat_sel)
  ultimately show ?thesis
    using one two event(2,3) LeaveChannel_refines(1) [OF saved(1), of j c] by blast
qed

text \<open>Bob says something, Alice leaves: she is out of the room when what he said is written to her stream.\<close>

theorem delivered_after_leaving_witness:
  "\<exists>sending srv1 srv2 new event.
    overlapping demo_platform ([handle demo_platform (SendCall 0 (demo_text U3) (demo_text U1) ''hi''),
        handle demo_platform (LeaveCall (demo_text U2) (demo_text U1))], demo_pair)
      ([sending, Returned (Status_Reply status_ok)], srv1) \<and>
    place (abs_chat srv1) demo_alice = None \<and>
    overlapping demo_platform ([sending, Returned (Status_Reply status_ok)], srv1)
      ([Returned (Send_Reply (status_ok, demo_text U4)), Returned (Status_Reply status_ok)], srv2) \<and>
    written (srv_publisher srv2) = written (srv_publisher srv1) @ new \<and> (5, MessageEv event) \<in> set new \<and> ev_content event = ''hi''"
proof -
  have ids: "strong_id_parse demo_platform (trim (demo_text U3)) = Some demo_bob"
    "strong_id_parse demo_platform (trim (demo_text U2)) = Some demo_alice"
    "strong_id_parse demo_platform (trim (demo_text U1)) = Some demo_room" by simp_all
  have inside: "place (abs_chat demo_pair) demo_bob = Some demo_room" "place (abs_chat demo_pair) demo_alice = Some demo_room"
    by (simp_all add: demo_pair_facts(2) del: abs_chat_sel)
  have "valid_content ''hi''" by (simp add: valid_content_def trimmed_def is_ascii_space_def)
  from delivered_after_leaving [OF demo_pair_facts(1) _ ids inside demo_pair_facts(3) this demo_pair_facts(4), of 0]
  show ?thesis by (simp del: abs_chat_sel handle.simps) metis
qed

subsection \<open>A sweep that has already looked\<close>

lemma sessions_expire:
  "session_at (srv_clients (snd (run_alone u (for_each (expire_task P) ss) srv))) k =
     (if k \<in> (\<lambda>s. id_value (sess_id s)) ` set ss then None else session_at (srv_clients srv) k)"
proof (induction ss arbitrary: srv)
  case (Cons s ss)
  have "srv_clients (expire_channels P s cs srv) = srv_clients srv" for cs srv
    by (induction cs arbitrary: srv) (simp_all add: removeMemberAndBroadcast_def split: sum.split prod.split)
  then show ?case
    using Cons.IH by (auto simp: expire_task_def on_clients_def case_prod_unfold)
qed simp

text \<open>
  C23: an acknowledged heartbeat need not save the session. The sweeper has copied the
  expired sessions when the heartbeat of one of them arrives: it is acknowledged, however recent the
  time it records, and the sweep then removes the client all the same, since it does not look at
  the session again.
\<close>

theorem heartbeat_acknowledged_then_swept:
  assumes inv: "server_inv P srv" and ids: "strong_id_parse P (trim ci) = Some i"
    and s: "session_at (srv_clients srv) (id_value i) = Some s" and expired: "isExpired (now - timeout) s"
  shows "\<exists>sweeping n srv1 srv2.
    overlapping P ([handle P (Sweep now timeout), handle P (HeartbeatCall t' ci)], srv)
      ([sweeping, Returned (Status_Reply status_ok)], srv1) \<and>
    clients_findById i (srv_clients srv1) = Inr (touch t' s) \<and>
    overlapping P ([sweeping, Returned (Status_Reply status_ok)], srv1)
      ([Returned (Sweep_Reply n), Returned (Status_Reply status_ok)], srv2) \<and>
    user (abs_chat srv2) i = None"
proof -
  let ?ss = "clients_collectExpired (now - timeout) (srv_clients srv)"
  let ?A = "handle P (Sweep now timeout)" and ?B = "handle P (HeartbeatCall t' ci)"
  let ?srv1 = "srv\<lparr>srv_clients := snd (clients_touchHeartbeat t' i (srv_clients srv))\<rparr>"
  define sweeping where "sweeping = and_then (for_each (expire_task P) ?ss) (\<lambda>_. Returned (Sweep_Reply (length ?ss)))"
  define swept where "swept = (\<lambda>expired :: session list. and_then (for_each (expire_task P) expired) (\<lambda>_. Returned (Sweep_Reply (length expired))))"
  have "?A = access (look (\<lambda>srv. clients_collectExpired (now - timeout) (srv_clients srv))) swept"
    by (simp add: ExpireInactiveClients_task_def reply_def and_then_access and_then_assoc swept_def)
  then have "overlapping P ([?A, ?B], srv) ([sweeping, ?B], srv)"
    using overlapping_access [of 0 "[?A, ?B]" _ swept srv ?ss srv P] by (simp add: look_def sweeping_def swept_def)
  moreover have "run_alone undefined ?B srv = (Status_Reply status_ok, ?srv1)"
    using ids s by (simp add: Heartbeat_task_def on_clients_def in_place_eq)
  then have "overlapping P ([sweeping, ?B], srv) ([sweeping, Returned (Status_Reply status_ok)], ?srv1)"
    using overlapping_finish [of ?B 1 "[sweeping, ?B]"] by (simp add: drawless_calls)
  ultimately have one: "overlapping P ([?A, ?B], srv) ([sweeping, Returned (Status_Reply status_ok)], ?srv1)"
    by (rule overlapping_trans)
  let ?srv2 = "snd (run_alone undefined (for_each (expire_task P) ?ss) ?srv1)"
  have "drawless sweeping"
    unfolding sweeping_def by (intro drawless_rules drawless_Expire)
  then have two: "overlapping P ([sweeping, Returned (Status_Reply status_ok)], ?srv1)
      ([Returned (Sweep_Reply (length ?ss)), Returned (Status_Reply status_ok)], ?srv2)"
    using overlapping_finish [of sweeping 0 "[sweeping, Returned (Status_Reply status_ok)]" undefined ?srv1]
    by (simp add: sweeping_def split: prod.split)
  have "sess_id s = i" using clients_wf_entity [OF server_invD(4) [OF inv] s] by (auto simp: strong_id_eq_iff)
  then have "s \<in> set ?ss"
    using set_collectExpired [OF server_invD(4) [OF inv]] s expired by simp
  then have "user (abs_chat ?srv2) i = None"
    using \<open>sess_id s = i\<close> by (auto simp: sessions_expire)
  moreover have "clients_findById i (srv_clients ?srv1) = Inr (touch t' s)"
    using s by (simp add: clients_findById_eq in_place_eq)
  ultimately show ?thesis using one two by blast
qed

theorem heartbeat_acknowledged_then_swept_witness:
  "\<exists>sweeping n srv1 srv2.
    overlapping demo_platform ([handle demo_platform (Sweep 100 10), handle demo_platform (HeartbeatCall 99 (demo_text U2))], demo_server1)
      ([sweeping, Returned (Status_Reply status_ok)], srv1) \<and>
    overlapping demo_platform ([sweeping, Returned (Status_Reply status_ok)], srv1)
      ([Returned (Sweep_Reply n), Returned (Status_Reply status_ok)], srv2) \<and>
    user (abs_chat srv2) demo_alice = None"
proof -
  have id: "strong_id_parse demo_platform (trim (demo_text U2)) = Some demo_alice" by simp
  have s: "session_at (srv_clients demo_server1) (id_value demo_alice) = Some (new_session demo_alice (Username ''alice'') 0 0)"
    by (simp add: demo_server1_def session_at_register)
  have "isExpired (100 - 10) (new_session demo_alice (Username ''alice'') 0 0)"
    by (simp add: isExpired_def new_session_def)
  from heartbeat_acknowledged_then_swept [OF demo_server1_inv(1) id s this, of 99] show ?thesis by blast
qed

end
