(* ===== verification/Concurrent_Delivery.thy ===== *)
theory Concurrent_Delivery
  imports Races
begin

text \<open>
  What does hold of delivery although nothing orders it: a call of \<open>SendMessage\<close> that has returned
  success has written its message to the stream of every member that nobody disturbs.
\<close>

subsection \<open>One recipient\<close>

text \<open>An event of the message was written to \<open>w\<close> since the start.\<close>

definition delivered :: "server \<Rightarrow> writer \<Rightarrow> message \<Rightarrow> server \<Rightarrow> bool" where
  "delivered srv0 w m srv \<longleftrightarrow>
     (\<exists>ev. (w, MessageEv ev) \<in> set (drop (length (written (srv_publisher srv0))) (written (srv_publisher srv))) \<and>
        ev_message_id ev = id_value (msg_id m) \<and> ev_channel_id ev = id_value (msg_channel_id m) \<and>
        ev_sender_id ev = id_value (msg_sender_id m) \<and> ev_content ev = content_value (msg_content m))"

lemma delivered_later: "delivered srv0 w m srv \<Longrightarrow> goes_on srv srv' \<Longrightarrow> delivered srv0 w m srv'"
  unfolding delivered_def goes_on_def entries_kept_def prefix_def by (auto simp: drop_append)

text \<open>The entry of a client nobody calls for stays in the table and keeps its stream.\<close>

lemma entry_stays:
  assumes "undisturbed P (- A) srv0 srv" and "j \<in> A" and "live (srv_publisher srv0) (id_value j) = Some w"
  obtains e where "publish_lookup j (srv_publisher srv) = Some e"
    "\<And>srv'. undisturbed P (- A) srv0 srv' \<Longrightarrow> entry_writer (srv_publisher srv') e = Some w"
proof -
  obtain e where e: "umap_find (writers (srv_publisher srv0)) (id_value j) = Some (Some e)"
    using assms(3) by (auto simp: live_def split: option.splits)
  have "umap_find (writers (srv_publisher srv')) (id_value j) = Some (Some e) \<and> entry_writer (srv_publisher srv') e = Some w"
    if "undisturbed P (- A) srv0 srv'" for srv'
  proof -
    have "umap_find (writers (srv_publisher srv')) (id_value j) = Some (Some e)"
      "live (srv_publisher srv') (id_value j) = Some w"
      using that assms(2,3) e by (auto simp: undisturbed_def)
    then show ?thesis by (simp add: live_def)
  qed
  then show thesis using assms(1) that [of e] by (simp add: publish_lookup_def)
qed

lemma publish_delivers:
  assumes j: "j \<in> A" and live: "live (srv_publisher srv0) (id_value j) = Some w" and later: "goes_on srv0 srv"
  shows "server_calls.good P (- A) srv0 srv (publish_task P m j) (\<lambda>_. delivered srv0 w m)"
  unfolding publish_task_def
proof (rule server_calls.good_access)
  fix srv1 entry srv2
  assume rel: "goes_on srv srv1" and inv: "undisturbed P (- A) srv0 srv1"
    and "look (\<lambda>srv. publish_lookup j (srv_publisher srv)) srv1 = (entry, srv2)"
  then have look: "srv2 = srv1" "entry = publish_lookup j (srv_publisher srv1)" by (auto simp: look_def)
  obtain e where e: "entry = Some e" "\<And>srv'. undisturbed P (- A) srv0 srv' \<Longrightarrow> entry_writer (srv_publisher srv') e = Some w"
    using entry_stays [OF inv j live] look(2) by metis
  have "server_calls.good P (- A) srv0 srv1
      (access (\<lambda>srv. on_publisher (publish_write P (Some (srv_clients srv)) m (Some e)) srv) Returned) (\<lambda>_. delivered srv0 w m)"
  proof (rule server_calls.good_access)
    fix srv3 a srv4
    assume rel3: "goes_on srv1 srv3" and inv3: "undisturbed P (- A) srv0 srv3"
      and f: "on_publisher (publish_write P (Some (srv_clients srv3)) m (Some e)) srv3 = (a, srv4)"
    have srv4: "srv4 = srv3\<lparr>srv_publisher := write_entry (message_to_event P (Some (srv_clients srv3)) m) e (srv_publisher srv3)\<rparr>"
      using f by (simp add: on_publisher_def publish_write_def)
    have "prefix (written (srv_publisher srv0)) (written (srv_publisher srv3))"
      using goes_on_trans [OF goes_on_trans [OF later rel] rel3] by (simp add: goes_on_def entries_kept_def)
    then have "delivered srv0 w m srv4"
      using e(2) [OF inv3] by (auto simp: delivered_def srv4 message_to_event_def prefix_def)
    then show "goes_on srv3 srv4 \<and> undisturbed P (- A) srv0 srv4 \<and>
        server_calls.good P (- A) srv0 srv4 (Returned a) (\<lambda>_. delivered srv0 w m)"
      using moves_write(1) [OF inv3] delivered_later by (auto simp: srv4 intro!: server_calls.good_Returned)
  qed
  then show "goes_on srv1 srv2 \<and> undisturbed P (- A) srv0 srv2 \<and>
      server_calls.good P (- A) srv0 srv2 (case entry of None \<Rightarrow> Returned ()
        | Some e \<Rightarrow> access (\<lambda>srv. on_publisher (publish_write P (Some (srv_clients srv)) m (Some e)) srv) Returned) (\<lambda>_. delivered srv0 w m)"
    using inv by (simp add: look(1) e(1) goes_on_def)
qed

subsection \<open>The call\<close>

text \<open>The outcome of a call: success only with the message delivered.\<close>

definition accepted_delivers ::
  "server \<Rightarrow> writer \<Rightarrow> client_id \<Rightarrow> channel_id \<Rightarrow> string \<Rightarrow> message_id \<Rightarrow> server \<Rightarrow> bool" where
  "accepted_delivers srv0 w i c content mid srv \<longleftrightarrow>
     (\<exists>m. msg_id m = mid \<and> msg_sender_id m = i \<and> msg_channel_id m = c \<and>
        content_value (msg_content m) = trim content \<and> delivered srv0 w m srv)"

lemma send_delivers:
  assumes inv0: "server_inv P srv0" and j: "j \<in> A" "place (abs_chat srv0) j = Some c"
    and live: "live (srv_publisher srv0) (id_value j) = Some w" and later: "goes_on srv0 srv"
  shows "server_calls.good P (- A) srv0 srv (SendMessage_task P t i c content IncludeSender)
    (\<lambda>r srv. case r of Inl e \<Rightarrow> True | Inr mid \<Rightarrow> accepted_delivers srv0 w i c content mid srv)" (is "server_calls.good P (- A) srv0 srv _ ?Q")
proof -
  define Q where "Q = ?Q"
  have failed [simp]: "server_calls.good P (- A) srv0 srv (Returned (unexpected e)) Q" for srv e
    by (rule server_calls.good_Returned) (simp add: Q_def)
  have finish: "server_calls.good P (- A) srv0 srv2
      (and_then (for_each (publish_task P m) (recipientsFor ch m IncludeSender)) (\<lambda>_. Returned (Inr (msg_id m)))) Q"
    if "undisturbed P (- A) srv0 srv2" "goes_on srv0 srv2" "hasMember j ch"
      "msg_sender_id m = i" "msg_channel_id m = c" "content_value (msg_content m) = trim content" for m ch srv2
  proof (rule server_calls.good_and_then [where Q = "\<lambda>_. delivered srv0 w m"])
    show "server_calls.good P (- A) srv0 srv2 (for_each (publish_task P m) (recipientsFor ch m IncludeSender)) (\<lambda>_. delivered srv0 w m)"
      by (rule server_calls.good_for_each_does [where x = j])
        (use that live j goes_on_trans [OF that(2)] delivered_later in
          \<open>auto simp: hasMember_def intro!: publish_delivers\<close>)
    show "server_calls.good P (- A) srv0 srv' (Returned (Inr (msg_id m))) Q" if "delivered srv0 w m srv'" for srv'
      using that delivered_later \<open>msg_sender_id m = i\<close> \<open>msg_channel_id m = c\<close> \<open>content_value (msg_content m) = trim content\<close>
      by (intro server_calls.good_Returned) (auto simp: accepted_delivers_def Q_def)
  qed (rule that(1))
  have validated: "content_value v = trim content" if "MessageContent_create content = Inr v" for v
    using that by (auto simp: MessageContent_create_def content_trim_eq Let_def split: if_splits)
  have posts: "server_calls.good P (- A) srv0 srv1 (draw (\<lambda>u srv.
      let m = \<lparr>msg_id = strong_id_generate P u, msg_sender_id = i, msg_channel_id = c, msg_content = v, msg_sent_at = t\<rparr>
      in case on_messages (messages_save m) srv of (saved, srv') \<Rightarrow> ((saved, m), srv'))
    (\<lambda>(saved, m). case saved of
       Inl e \<Rightarrow> Returned (unexpected e)
     | Inr _ \<Rightarrow> and_then (for_each (publish_task P m) (recipientsFor ch m IncludeSender)) (\<lambda>_. Returned (Inr (msg_id m))))) Q"
    if "goes_on srv0 srv1" "hasMember j ch" "MessageContent_create content = Inr v" for v ch srv1
  proof (rule server_calls.good_draw)
    fix srv2 u a srv3
    let ?m = "\<lparr>msg_id = strong_id_generate P u, msg_sender_id = i, msg_channel_id = c, msg_content = v, msg_sent_at = t\<rparr>"
    assume rel: "goes_on srv1 srv2" and inv: "undisturbed P (- A) srv0 srv2" and fresh: "fresh_uuid P u srv2"
      and "(let m = ?m in case on_messages (messages_save m) srv2 of (saved, srv') \<Rightarrow> ((saved, m), srv')) = (a, srv3)"
    then have a: "a = (Inr (), ?m)" "srv3 = srv2\<lparr>srv_messages := snd (messages_save ?m (srv_messages srv2))\<rparr>"
      by (auto simp: on_messages_def messages_save_def Let_def)
    have moved: "moves P (- A) srv0 srv2 srv3"
      using moves_post [OF inv fresh, of ?m] by (simp add: a)
    then have "goes_on srv0 srv3" using goes_on_trans [OF that(1) goes_on_trans [OF rel]] by blast
    then show "goes_on srv2 srv3 \<and> undisturbed P (- A) srv0 srv3 \<and> server_calls.good P (- A) srv0 srv3 (case a of (saved, m) \<Rightarrow> (case saved of
        Inl e \<Rightarrow> Returned (unexpected e)
      | Inr _ \<Rightarrow> and_then (for_each (publish_task P m) (recipientsFor ch m IncludeSender)) (\<lambda>_. Returned (Inr (msg_id m))))) Q"
      using moved finish [of srv3 ch ?m] that(2) validated [OF that(3)] by (simp add: a(1))
  qed
  have member: "hasMember j ch" if "undisturbed P (- A) srv0 srv1" "channels_findById c (srv_channels srv1) = Inr ch" for srv1 ch
    using undisturbed_member [OF inv0 that(1) _ j(1)] that(2) j(2) by (simp add: channels_findById_Inr)
  have "server_calls.good P (- A) srv0 srv (SendMessage_task P t i c content IncludeSender) Q"
    unfolding SendMessage_task_def
    by (rule server_calls.good_access)
      (auto simp: look_def server_calls.rel_refl split: sum.split intro!: server_calls.good_access posts member
        intro: goes_on_trans [OF goes_on_trans [OF later]])
  then show ?thesis by (simp only: Q_def)
qed

lemma send_call_delivers:
  assumes inv0: "server_inv P srv0" and j: "j \<in> A" "place (abs_chat srv0) j = Some c"
    and live: "live (srv_publisher srv0) (id_value j) = Some w" and inv: "undisturbed P (- A) srv0 srv0"
    and ids: "strong_id_parse P (trim ci) = Some i" "strong_id_parse P (trim chn) = Some c"
  shows "server_calls.good P (- A) srv0 srv0 (handle P (SendCall t ci chn x)) (\<lambda>r srv.
    \<forall>mid. r = Send_Reply (status_ok, id_value mid) \<longrightarrow> accepted_delivers srv0 w i c (trim x) mid srv)"
proof -
  have err: "errorToStatus e \<noteq> status_ok" for e
    by (metis error_code status_ok_code)
  let ?sent = "SendMessage_task P t i c (trim x) IncludeSender"
  let ?answer = "\<lambda>sent :: message_id result. case sent of Inl e \<Rightarrow> Returned (Send_Reply (errorToStatus e, []))
      | Inr mid \<Rightarrow> Returned (Send_Reply (status_ok, id_value mid))"
  have "handle P (SendCall t ci chn x) = and_then ?sent ?answer"
    by (simp add: ids SendMessage_call_def reply_def and_then_assoc sum.case_distrib [of "\<lambda>t. and_then t g" for g] cong: sum.case_cong)
  moreover have "server_calls.good P (- A) srv0 srv0 (and_then ?sent ?answer) (\<lambda>r srv.
      \<forall>mid. r = Send_Reply (status_ok, id_value mid) \<longrightarrow> accepted_delivers srv0 w i c (trim x) mid srv)"
  proof (rule server_calls.good_and_then [OF send_delivers [OF inv0 j live server_calls.rel_refl]])
    fix r :: "message_id result" and srv
    assume Q: "case r of Inl e \<Rightarrow> True | Inr mid \<Rightarrow> accepted_delivers srv0 w i c (trim x) mid srv"
    show "server_calls.good P (- A) srv0 srv (?answer r) (\<lambda>r srv.
        \<forall>mid. r = Send_Reply (status_ok, id_value mid) \<longrightarrow> accepted_delivers srv0 w i c (trim x) mid srv)"
    proof (cases r)
      case (Inr mid)
      then have "accepted_delivers srv0 w i c (trim x) mid srv'" if "goes_on srv srv'" for srv'
        using Q delivered_later [OF _ that] by (auto simp: accepted_delivers_def)
      moreover have "mid' = mid" if "id_value mid = id_value mid'" for mid' using that by (simp add: strong_id_eq_iff)
      ultimately show ?thesis using Inr by (auto intro!: server_calls.good_Returned)
    qed (auto simp: err intro!: server_calls.good_Returned)
  qed (rule inv)
  ultimately show ?thesis by simp
qed

text \<open>
  C17: an acknowledged message has been delivered, whatever runs at the same time. While a call of
  \<open>SendMessage\<close> is on its way any other calls, streams and sweeps may run, with their accesses in any
  order; when it has returned success, a client that is a member of the channel, with an open
  stream, and that none of the calls is for, has been written the message with its identifier, its
  sender and its trimmed content.
\<close>

theorem acknowledged_message_delivered:
  fixes i :: client_id and mid :: message_id
  assumes "uuid_contract P" and "server_inv P srv0" and "A \<subseteq> dom (user (abs_chat srv0))"
    and "strong_id_parse P (trim ci) = Some i" "strong_id_parse P (trim chn) = Some c"
    and "j \<in> A" "place (abs_chat srv0) j = Some c" "live (srv_publisher srv0) (id_value j) = Some w"
    and "rtranclp (tasks_step (fresh_uuid P) (handle P ` Collect (for_clients P (- A) srv0)))
      ([handle P (SendCall t ci chn x)], srv0) (ts, srv)"
    and "ts ! 0 = Returned (Send_Reply (status_ok, id_value mid))"
  shows "\<exists>ev. (w, MessageEv ev) \<in> set (drop (length (written (srv_publisher srv0))) (written (srv_publisher srv))) \<and>
    ev_message_id ev = id_value mid \<and> ev_channel_id ev = id_value c \<and> ev_sender_id ev = id_value i \<and> ev_content ev = trim x"
proof -
  note start = undisturbed_start [OF assms(2,3)]
  let ?Q = "\<lambda>k r srv. k = (0 :: nat) \<longrightarrow>
    (\<forall>mid. r = Send_Reply (status_ok, id_value mid) \<longrightarrow> accepted_delivers srv0 w i c (trim x) mid srv)"
  let ?call = "handle P (SendCall t ci chn x)"
  have first: "server_calls.good P (- A) srv0 srv0 ([?call] ! k) (?Q k)" if "k < length [?call]" for k
    using send_call_delivers [OF assms(2,6,7,8) start assms(4,5), of t x] that by simp
  have rest: "server_calls.good P (- A) srv0 s h (?Q k)"
    if "h \<in> handle P ` Collect (for_clients P (- A) srv0)" "undisturbed P (- A) srv0 s" "length [?call] \<le> k" for s h k
  proof -
    have "?Q k = (\<lambda>_ _. True)" using that(3) by (simp add: fun_eq_iff)
    moreover have "fine P (- A) srv0 s h"
      using that(1,2) fine_handle [OF assms(1) server_invD(4) [OF assms(2)]] by blast
    ultimately show ?thesis by simp
  qed
  have all: "undisturbed P (- A) srv0 srv \<and> goes_on srv0 srv \<and> length [?call] \<le> length ts \<and>
      (\<forall>k<length ts. server_calls.good P (- A) srv0 srv (ts ! k) (?Q k))"
    by (rule server_calls.together [OF assms(9) start first rest])
  then have "server_calls.good P (- A) srv0 srv (ts ! 0) (?Q 0)"
  proof -
    have "length [?call] \<le> length ts" using all by (elim conjE)
    then have "0 < length ts" by (cases ts) simp_all
    then show ?thesis using all by (elim conjE allE [of _ 0]) (rule mp)
  qed
  then have "server_calls.good P (- A) srv0 srv (Returned (Send_Reply (status_ok, id_value mid))) (?Q 0)"
    by (simp only: assms(10))
  moreover have "undisturbed P (- A) srv0 srv" using all by simp
  ultimately have "?Q 0 (Send_Reply (status_ok, id_value mid)) srv"
    by (rule server_calls.good_returned)
  then have "accepted_delivers srv0 w i c (trim x) mid srv" by simp
  then show ?thesis by (auto simp: accepted_delivers_def delivered_def)
qed

lemma overlapping_among: "overlapping P a b \<Longrightarrow> rtranclp (tasks_step (fresh_uuid P) allowed) a b"
  unfolding overlapping_def
proof (erule rtranclp_mono [THEN predicate2D, rotated], intro predicate2I)
  show "tasks_step (fresh_uuid P) allowed x y" if "tasks_step (fresh_uuid P) {} x y" for x y
    using that by cases (auto intro: tasks_step.intros)
qed

text \<open>Bob says something in the room while Alice listens.\<close>

theorem acknowledged_message_delivered_witness:
  "\<exists>srv ev. rtranclp (tasks_step (fresh_uuid demo_platform) (handle demo_platform ` Collect (for_clients demo_platform (- {demo_alice}) demo_pair)))
       ([handle demo_platform (SendCall 0 (demo_text U3) (demo_text U1) ''hi'')], demo_pair)
       ([Returned (Send_Reply (status_ok, demo_text U4))], srv) \<and>
     (5, MessageEv ev) \<in> set (written (srv_publisher srv)) \<and> ev_sender_id ev = demo_text U3 \<and> ev_content ev = trim ''hi''"
proof -
  let ?A = "{demo_alice}" and ?call = "handle demo_platform (SendCall 0 (demo_text U3) (demo_text U1) ''hi'')"
  let ?m = "sent_message demo_platform U4 0 demo_bob demo_room (MessageContent ''hi'')"
  have ids: "strong_id_parse demo_platform (trim (demo_text U3)) = Some demo_bob"
    "strong_id_parse demo_platform (trim (demo_text U1)) = Some demo_room" by simp_all
  have inside: "place (abs_chat demo_pair) demo_bob = Some demo_room" "place (abs_chat demo_pair) demo_alice = Some demo_room"
    by (simp_all add: demo_pair_facts(2) del: abs_chat_sel)
  have content: "valid_content ''hi''" by (simp add: valid_content_def trimmed_def is_ascii_space_def)
  obtain ch where at: "channel_at (srv_channels demo_pair) (id_value demo_room) = Some ch"
    using membership_room [OF server_invD(6) [OF demo_pair_facts(1)], of demo_alice demo_room] inside(2) by auto
  have "overlapping demo_platform ([?call], demo_pair) ([delivering demo_platform ?m (chan_members ch)], saved_in ?m demo_pair)"
    using send_saves [OF demo_pair_facts(1) _ _ ids inside(1) at content demo_pair_facts(4), of 0 "[?call]"] by simp
  moreover have "overlapping demo_platform ([delivering demo_platform ?m (chan_members ch)], saved_in ?m demo_pair)
      ([Returned (Send_Reply (status_ok, demo_text U4))], publish_each demo_platform ?m (chan_members ch) (saved_in ?m demo_pair))"
    using deliver [of 0 "[delivering demo_platform ?m (chan_members ch)]" demo_platform ?m "chan_members ch" "saved_in ?m demo_pair"]
    by (simp add: sent_message_def)
  ultimately obtain srv where "overlapping demo_platform ([?call], demo_pair) ([Returned (Send_Reply (status_ok, demo_text U4))], srv)"
    by (blast intro: overlapping_trans)
  then have run: "rtranclp (tasks_step (fresh_uuid demo_platform) (handle demo_platform ` Collect (for_clients demo_platform (- ?A) demo_pair)))
       ([?call], demo_pair) ([Returned (Send_Reply (status_ok, id_value (StrongId (demo_text U4) :: message_id)))], srv)"
    by (intro overlapping_among) simp
  have users: "?A \<subseteq> dom (user (abs_chat demo_pair))" by (simp add: demo_pair_facts(2) del: abs_chat_sel)
  have returned: "[Returned (Send_Reply (status_ok, id_value (StrongId (demo_text U4) :: message_id)))] ! 0 =
      (Returned (Send_Reply (status_ok, id_value (StrongId (demo_text U4) :: message_id))) :: (demo_uuid, reply) handler)" by simp
  from acknowledged_message_delivered [OF demo_contract demo_pair_facts(1) users ids _ inside(2) demo_pair_facts(3) run returned]
  obtain ev where "(5, MessageEv ev) \<in> set (drop (length (written (srv_publisher demo_pair))) (written (srv_publisher srv)))"
    "ev_sender_id ev = demo_text U3" "ev_content ev = trim ''hi''" by auto
  then show ?thesis using run in_set_dropD [of "(5, MessageEv ev)"] by auto
qed

end
