(* ===== verification/Client_Commands.thy ===== *)
theory Client_Commands
  imports Domain Rpc_Status
begin

text \<open>
  The command line of the terminal client (\<open>adapter/cli/command_parser.hpp\<close>): what a submitted
  line means, and what the server's validation will say to the lines that are sent as messages.
\<close>

datatype CommandType = Join | Create | Leave | List | Quit | Unknown | NoCommand

record ParsedCommand =
  cmd_type :: CommandType
  cmd_arg :: string

definition parsed_command :: ParsedCommand where
  "parsed_command = \<lparr>cmd_type = NoCommand, cmd_arg = []\<rparr>"

definition join_prefix :: string where "join_prefix = ''/join ''"
definition create_prefix :: string where "create_prefix = ''/create ''"

definition parseCommand :: "string \<Rightarrow> ParsedCommand" where
  "parseCommand input =
     (let trimmed_input = trim input in
      if starts_with trimmed_input join_prefix
      then \<lparr>cmd_type = Join, cmd_arg = trim_copy (drop (length join_prefix) trimmed_input)\<rparr>
      else if starts_with trimmed_input create_prefix
      then \<lparr>cmd_type = Create, cmd_arg = trim_copy (drop (length create_prefix) trimmed_input)\<rparr>
      else if trimmed_input = ''/leave'' then \<lparr>cmd_type = Leave, cmd_arg = []\<rparr>
      else if trimmed_input = ''/list'' then \<lparr>cmd_type = List, cmd_arg = []\<rparr>
      else if trimmed_input = ''/quit'' then \<lparr>cmd_type = Quit, cmd_arg = []\<rparr>
      else if starts_with trimmed_input ''/'' then \<lparr>cmd_type = Unknown, cmd_arg = trimmed_input\<rparr>
      else parsed_command)"

subsection \<open>Prefixes of trimmed lines\<close>

lemma starts_with_slash: "starts_with t ''/'' \<longleftrightarrow> t \<noteq> [] \<and> hd t = CHR ''/''"
  by (cases t) (simp_all add: starts_with_def)

lemma starts_with_cons: "starts_with t (c # p) \<Longrightarrow> t \<noteq> [] \<and> hd t = c"
  by (cases t) (simp_all add: starts_with_def)

text \<open>A trimmed line does not end in the space of the prefix, so a word follows it.\<close>

lemma trimmed_after_prefix:
  assumes "trimmed t" and pre: "starts_with t p" and p: "p \<noteq> []" "is_ascii_space (last p)"
  shows "trim (drop (length p) t) \<noteq> []" and "trimmed (trim (drop (length p) t))"
proof -
  obtain r where t: "t = p @ r"
    using pre by (metis prefixE starts_with_prefix)
  have "t \<noteq> []" using t p by simp
  then have "\<not> is_ascii_space (last t)"
    using \<open>trimmed t\<close> by (simp add: trimmed_def)
  with p have r: "r \<noteq> []" "\<not> is_ascii_space (last r)"
    using t by (auto simp: last_append split: if_splits)
  show "trim (drop (length p) t) \<noteq> []"
  proof
    assume "trim (drop (length p) t) = []"
    then obtain a where "r = a" "\<forall>c\<in>set a. is_ascii_space c"
      using trim_split [of r] t by auto
    with r show False by simp
  qed
  show "trimmed (trim (drop (length p) t))" by simp
qed

lemma prefix_spaces:
  "join_prefix \<noteq> []" "create_prefix \<noteq> []" "is_ascii_space (last join_prefix)" "is_ascii_space (last create_prefix)"
  "hd join_prefix = CHR ''/''" "hd create_prefix = CHR ''/''" "\<not> starts_with (join_prefix @ s) create_prefix"
  by (simp_all add: join_prefix_def create_prefix_def is_ascii_space_def starts_with_def)

lemma starts_with_hd: "starts_with t p \<Longrightarrow> p \<noteq> [] \<Longrightarrow> t \<noteq> [] \<and> hd t = hd p"
  using starts_with_cons [of t "hd p" "tl p"] by simp

lemma parse_NoCommand_iff:
  "cmd_type (parseCommand input) = NoCommand \<longleftrightarrow> (trim input = [] \<or> hd (trim input) \<noteq> CHR ''/'')"
  using starts_with_hd [of "trim input" join_prefix] starts_with_hd [of "trim input" create_prefix]
  by (auto simp: parseCommand_def Let_def parsed_command_def prefix_spaces starts_with_slash)

lemma parse_arg:
  "cmd_type (parseCommand input) \<in> {Join, Create} \<Longrightarrow>
     cmd_arg (parseCommand input) \<noteq> [] \<and> trimmed (cmd_arg (parseCommand input))"
  using trimmed_after_prefix [of "trim input" join_prefix] trimmed_after_prefix [of "trim input" create_prefix]
  by (auto simp: parseCommand_def Let_def parsed_command_def prefix_spaces split: if_splits)

lemma trimmed_prefix_append:
  assumes "trimmed p' " and "trimmed n" "n \<noteq> []" "p' \<noteq> []" "p = p' @ s"
  shows "trimmed (p @ n)"
  using assms by (auto simp: trimmed_def)

lemma trimmed_commands: "trimmed ''/join''" "trimmed ''/create''"
  by (simp_all add: trimmed_def is_ascii_space_def)

lemma parse_join:
  assumes "trimmed n" "n \<noteq> []"
  shows "parseCommand (join_prefix @ n) = \<lparr>cmd_type = Join, cmd_arg = n\<rparr>"
    and "parseCommand (create_prefix @ n) = \<lparr>cmd_type = Create, cmd_arg = n\<rparr>"
proof -
  have "trim (join_prefix @ n) = join_prefix @ n" "trim (create_prefix @ n) = create_prefix @ n"
    using trimmed_prefix_append [of "''/join''" n join_prefix "'' ''"]
      trimmed_prefix_append [of "''/create''" n create_prefix "'' ''"] assms trimmed_commands
    by (simp_all add: trim_trimmed_id join_prefix_def create_prefix_def)
  then show "parseCommand (join_prefix @ n) = \<lparr>cmd_type = Join, cmd_arg = n\<rparr>"
    "parseCommand (create_prefix @ n) = \<lparr>cmd_type = Create, cmd_arg = n\<rparr>"
    using trim_trimmed_id [OF assms(1)] by (simp_all add: parseCommand_def)
      (simp_all add: join_prefix_def create_prefix_def starts_with_def)
qed

subsection \<open>Properties\<close>

text \<open>
  C40: the command line is unambiguous. Typing \<open>/join\<close> or \<open>/create\<close> and any channel name the server
  accepts is read as that command with exactly that name, whatever white space surrounds it;
  a join or create command always carries a non-empty name without surrounding white space; a line
  is a message exactly when it does not start with a slash after trimming, and then the server's
  validation can reject it only for being empty or too long.
\<close>

theorem parseCommand_spec:
  "(valid_channel_name n \<longrightarrow> trim line = join_prefix @ n \<longrightarrow> parseCommand line = \<lparr>cmd_type = Join, cmd_arg = n\<rparr>) \<and>
   (valid_channel_name n \<longrightarrow> trim line = create_prefix @ n \<longrightarrow> parseCommand line = \<lparr>cmd_type = Create, cmd_arg = n\<rparr>) \<and>
   (cmd_type (parseCommand line) \<in> {Join, Create} \<longrightarrow>
      cmd_arg (parseCommand line) \<noteq> [] \<and> trim (cmd_arg (parseCommand line)) = cmd_arg (parseCommand line)) \<and>
   (cmd_type (parseCommand line) = NoCommand \<longleftrightarrow> (trim line = [] \<or> hd (trim line) \<noteq> CHR ''/'')) \<and>
   (cmd_type (parseCommand line) = NoCommand \<longrightarrow>
      MessageContent_create line =
        (if trim line = [] then Inl MessageEmpty
         else if length (trim line) > 4096 then Inl MessageTooLong
         else Inr (MessageContent (trim line))))"
proof -
  have parse_trim: "parseCommand line = parseCommand (trim line)"
    by (simp add: parseCommand_def)
  have name: "trimmed n \<and> n \<noteq> []" if "valid_channel_name n"
    using that trim_valid_channel_name [OF that] trimmed_trim [of n] by (auto simp: valid_channel_name_def)
  show ?thesis
    using parse_trim name parse_join [of n] parse_arg [of line] parse_NoCommand_iff [of line]
    by (auto simp: MessageContent_create_def content_trim_eq trim_trimmed_id)
qed

theorem parseCommand_spec_witness:
  "parseCommand ''/join general'' = \<lparr>cmd_type = Join, cmd_arg = ''general''\<rparr> \<and>
   cmd_type (parseCommand ''/join'') \<noteq> NoCommand"
proof -
  have "trim ''/join general'' = join_prefix @ ''general''" and t: "trim ''/join'' = ''/join''"
    by (simp_all add: trim_def trim_back.simps is_ascii_space_def join_prefix_def)
  moreover have "valid_channel_name ''general''"
    by (simp add: valid_channel_name_def channel_name_allowed_char_def is_alnum_def)
  ultimately have "parseCommand ''/join general'' = \<lparr>cmd_type = Join, cmd_arg = ''general''\<rparr>"
    using parseCommand_spec [of "''general''" "''/join general''"] by blast
  moreover have "cmd_type (parseCommand ''/join'') \<noteq> NoCommand"
    using parseCommand_spec [of "''general''" "''/join''"] t by auto
  ultimately show ?thesis by blast
qed

end
