(* ===== verification/Client_Inbox.thy ===== *)
theory Client_Inbox
  imports Prelude
begin

text \<open>
  The inbox of the terminal client (\<open>adapter/tui/inbox_queue.cpp\<close>): a queue between the threads
  that receive events and the thread that draws. Each operation runs under the queue's lock.
  The contract of a queue is a locale; what the client's screen relies on is proved in it.
\<close>

record inbox_message =
  in_message_id :: string
  in_channel_id :: string
  in_sender_name :: string
  in_content :: string
  in_sent_at_ms :: int
  in_is_history :: bool

definition inbox_message_default :: inbox_message where
  "inbox_message_default = \<lparr>in_message_id = [], in_channel_id = [], in_sender_name = [], in_content = [],
     in_sent_at_ms = 0, in_is_history = False\<rparr>"

type_synonym inbox = "inbox_message list"

definition inbox_push :: "inbox_message \<Rightarrow> inbox \<Rightarrow> inbox" where
  "inbox_push message messages = messages @ [message]"

definition inbox_tryPop :: "inbox_message \<Rightarrow> inbox \<Rightarrow> bool \<times> inbox_message \<times> inbox" where
  "inbox_tryPop out messages =
     (case messages of [] \<Rightarrow> (False, out, messages) | front # rest \<Rightarrow> (True, front, rest))"

fun drain_loop :: "nat \<Rightarrow> nat \<Rightarrow> inbox_message list \<Rightarrow> inbox \<Rightarrow> inbox_message list \<times> inbox" where
  "drain_loop cnt max_count out [] = (out, [])"
| "drain_loop cnt max_count out (front # rest) =
     (if cnt < max_count then drain_loop (cnt + 1) max_count (out @ [front]) rest else (out, front # rest))"

definition inbox_drainTo :: "inbox_message list \<Rightarrow> nat \<Rightarrow> inbox \<Rightarrow> inbox_message list \<times> inbox" where
  "inbox_drainTo out max_count messages = drain_loop 0 max_count out messages"

definition drain_default :: nat where
  "drain_default = 50"

definition inbox_clear :: "inbox \<Rightarrow> inbox" where
  "inbox_clear messages = []"

subsection \<open>The contract of a queue\<close>

locale message_queue =
  fixes contents :: "'q \<Rightarrow> 'a list"
    and put :: "'a \<Rightarrow> 'q \<Rightarrow> 'q"
    and drain :: "'a list \<Rightarrow> nat \<Rightarrow> 'q \<Rightarrow> 'a list \<times> 'q"
    and reset :: "'q \<Rightarrow> 'q"
  assumes contents_put: "contents (put x q) = contents q @ [x]"
    and contents_reset: "contents (reset q) = []"
    and drain_out: "fst (drain out n q) = out @ take n (contents q)"
    and drain_rest: "contents (snd (drain out n q)) = drop n (contents q)"
begin

text \<open>What has been drained followed by what waits is what was put, in order.\<close>

lemma drain_keeps: "fst (drain out n q) @ contents (snd (drain out n q)) = out @ contents q"
  by (simp add: drain_out drain_rest)

lemma drain_all: "length (contents q) \<le> n \<Longrightarrow> fst (drain out n q) = out @ contents q \<and> contents (snd (drain out n q)) = []"
  by (simp add: drain_out drain_rest)

lemma drain_bounded: "length (fst (drain out n q)) \<le> length out + n"
  by (simp add: drain_out)

fun drain_times :: "nat \<Rightarrow> nat \<Rightarrow> 'a list \<times> 'q \<Rightarrow> 'a list \<times> 'q" where
  "drain_times 0 n s = s"
| "drain_times (Suc k) n (out, q) = drain_times k n (drain out n q)"

lemma drain_times_contents:
  "fst (drain_times k n s) = fst s @ take (k * n) (contents (snd s)) \<and>
   contents (snd (drain_times k n s)) = drop (k * n) (contents (snd s))"
proof (induction k arbitrary: s)
  case (Suc k)
  obtain out q where s: "s = (out, q)" by (cases s)
  show ?case
    using Suc [of "drain out n q"] by (simp add: s drain_out drain_rest take_add add.commute)
qed simp

text \<open>Repeated draining empties the queue: enough rounds move everything over.\<close>

lemma drain_times_all:
  assumes "length (contents q) \<le> k * n"
  shows "drain_times k n (out, q) = (out @ contents q, snd (drain_times k n (out, q)))"
    and "contents (snd (drain_times k n (out, q))) = []"
  using drain_times_contents [of k n "(out, q)"] assms by (simp_all add: prod_eq_iff)

end

lemma drain_loop_eq:
  "drain_loop cnt max_count out messages =
     (out @ take (max_count - cnt) messages, drop (max_count - cnt) messages)"
proof (induction cnt max_count out messages rule: drain_loop.induct)
  case (2 cnt max_count out front rest)
  then show ?case by (cases "max_count - cnt") (auto simp: diff_Suc split: nat.splits)
qed simp

lemma inbox_drainTo_eq: "inbox_drainTo out n messages = (out @ take n messages, drop n messages)"
  by (simp add: inbox_drainTo_def drain_loop_eq)

interpretation inbox_queue: message_queue "\<lambda>q. q" inbox_push inbox_drainTo inbox_clear
  by unfold_locales (simp_all add: inbox_push_def inbox_clear_def inbox_drainTo_eq)

lemma inbox_tryPop_drain:
  "inbox_tryPop out messages =
     (case inbox_drainTo [] 1 messages of (popped, rest) \<Rightarrow>
        (popped \<noteq> [], (if popped = [] then out else hd popped), rest))"
  by (simp add: inbox_tryPop_def inbox_drainTo_eq split: list.splits)

end
