(* ===== verification/Client_View.thy ===== *)
theory Client_View
  imports Client_Inbox
begin

text \<open>
  What the message pane shows (\<open>adapter/tui/components/message_view.hpp\<close>): the window of messages
  for a scroll position, and the place of the separator between history and live messages.
  \<open>int\<close> is 32 bits wide; an overflow of it would be undefined, so the arithmetic is written over the
  integers and shown to stay in the range of \<open>int\<close>.
\<close>

definition in_int32 :: "int \<Rightarrow> bool" where
  "in_int32 x \<longleftrightarrow> - (2 ^ 31) \<le> x \<and> x < 2 ^ 31"

definition int_of_size :: "nat \<Rightarrow> int" where
  "int_of_size n = sint (word_of_nat n :: 32 word)"

lemma int_of_size_small: "n < 2 ^ 31 \<Longrightarrow> int_of_size n = int n"
  by (simp add: int_of_size_def signed_of_nat signed_take_bit_int_eq_self)

definition clamp :: "int \<Rightarrow> int \<Rightarrow> int \<Rightarrow> int" where
  "clamp v lo hi = (if v < lo then lo else if hi < v then hi else v)"

lemma clamp_bounds: "lo \<le> hi \<Longrightarrow> lo \<le> clamp v lo hi \<and> clamp v lo hi \<le> hi"
  by (simp add: clamp_def)

lemma clamp_id: "lo \<le> v \<Longrightarrow> v \<le> hi \<Longrightarrow> clamp v lo hi = v"
  by (simp add: clamp_def)

record ScrollWindow =
  win_first :: int
  win_last :: int

definition computeScrollWindow :: "int \<Rightarrow> int \<Rightarrow> int \<Rightarrow> ScrollWindow" where
  "computeScrollWindow message_count scroll_offset viewport_height =
     (let clamped_message_count = max message_count 0
      in if viewport_height \<le> 0 then \<lparr>win_first = 0, win_last = clamped_message_count\<rparr>
         else
           let max_scroll_offset = max (clamped_message_count - viewport_height) 0;
               clamped_scroll_offset = clamp scroll_offset 0 max_scroll_offset;
               first = max (clamped_message_count - viewport_height - clamped_scroll_offset) 0;
               end_row = min (first + viewport_height) clamped_message_count
           in \<lparr>win_first = first, win_last = end_row\<rparr>)"

definition shouldRenderLiveSeparator :: "int \<Rightarrow> int \<Rightarrow> int \<Rightarrow> int \<Rightarrow> bool" where
  "shouldRenderLiveSeparator message_count history_count scroll_offset viewport_height =
     (let show_separator = history_count > 0 \<and> history_count < message_count
      in if \<not> show_separator then False
         else if viewport_height \<le> 0 then True
         else
           let window = computeScrollWindow message_count scroll_offset viewport_height
           in win_first window < history_count \<and> history_count < win_last window)"

text \<open>
  The rows of the pane. The time of day in the local time zone, \<open>localtime_r\<close> and \<open>strftime\<close> with
  \<open>%H:%M\<close>, is the parameter \<open>local_hhmm\<close> (empty when nothing was written).
\<close>

definition formatTimestamp :: "(int \<Rightarrow> string) \<Rightarrow> int \<Rightarrow> string" where
  "formatTimestamp local_hhmm epoch_ms =
     (if epoch_ms \<le> 0 then ''--:--''
      else let written = local_hhmm epoch_ms in if written = [] then ''--:--'' else written)"

datatype view_row = LiveSeparator | MessageRow string string string | NoMessages

fun view_rows ::
  "(int \<Rightarrow> string) \<Rightarrow> inbox_message list \<Rightarrow> int \<Rightarrow> bool \<Rightarrow> nat \<Rightarrow> int \<Rightarrow> view_row list" where
  "view_rows local_hhmm [] history_count show_separator idx limit = []"
| "view_rows local_hhmm (message # rest) history_count show_separator idx limit =
     (if int idx < limit
      then (if show_separator \<and> int idx = history_count then [LiveSeparator] else []) @
        MessageRow (formatTimestamp local_hhmm (in_sent_at_ms message))
          (if in_sender_name message = [] then ''unknown'' else in_sender_name message) (in_content message) #
        view_rows local_hhmm rest history_count show_separator (idx + 1) limit
      else [])"

definition RenderMessageView ::
  "(int \<Rightarrow> string) \<Rightarrow> inbox_message list \<Rightarrow> int \<Rightarrow> int \<Rightarrow> int \<Rightarrow> view_row list" where
  "RenderMessageView local_hhmm messages history_count scroll_offset viewport_height =
     (let window = computeScrollWindow (int_of_size (length messages)) scroll_offset viewport_height;
          use_window = viewport_height > 0;
          show_window_separator = shouldRenderLiveSeparator (int_of_size (length messages)) history_count
            scroll_offset viewport_height;
          first = (if use_window then win_first window else 0);
          limit = (if use_window then win_last window else int_of_size (length messages));
          rows = view_rows local_hhmm (drop (nat first) messages) history_count show_window_separator
            (nat first) limit
      in if rows = [] then [NoMessages] else rows)"

subsection \<open>The window\<close>

lemma window_bounds:
  assumes "0 \<le> n"
  shows "0 \<le> win_first (computeScrollWindow n off h)"
    and "win_first (computeScrollWindow n off h) \<le> win_last (computeScrollWindow n off h)"
    and "win_last (computeScrollWindow n off h) \<le> n"
  using assms by (auto simp: computeScrollWindow_def Let_def clamp_def)

lemma window_size:
  assumes "0 \<le> n" and "0 < h"
  shows "win_last (computeScrollWindow n off h) - win_first (computeScrollWindow n off h) = min h n"
  using assms by (auto simp: computeScrollWindow_def Let_def clamp_def)

lemma window_at:
  assumes "0 < h" and "0 \<le> off" and "off \<le> max (n - h) 0" and "0 \<le> n"
  shows "computeScrollWindow n off h = \<lparr>win_first = max (n - h - off) 0, win_last = min (max (n - h - off) 0 + h) n\<rparr>"
  using assms by (simp add: computeScrollWindow_def Let_def clamp_def)

text \<open>
  The scroll window is always a contiguous range of existing messages. With a viewport of
  positive height it shows as many messages as fit, the newest when the offset is zero or less, the
  oldest when the offset is at its maximum or beyond, and every message is in the window of some
  admissible offset. No intermediate value leaves the range of a 32-bit \<open>int\<close>.
\<close>

theorem computeScrollWindow_spec:
  assumes count: "0 \<le> n" "in_int32 n" and height: "0 < h" "in_int32 h"
  defines "m \<equiv> max (n - h) 0"
  shows "0 \<le> win_first (computeScrollWindow n off h) \<and>
    win_last (computeScrollWindow n off h) = win_first (computeScrollWindow n off h) + min h n \<and>
    win_last (computeScrollWindow n off h) \<le> n \<and>
    (off \<le> 0 \<longrightarrow> win_last (computeScrollWindow n off h) = n) \<and>
    (m \<le> off \<longrightarrow> win_first (computeScrollWindow n off h) = 0) \<and>
    (\<forall>i. 0 \<le> i \<longrightarrow> i < n \<longrightarrow> (\<exists>off'. 0 \<le> off' \<and> off' \<le> m \<and>
       win_first (computeScrollWindow n off' h) \<le> i \<and> i < win_last (computeScrollWindow n off' h))) \<and>
    in_int32 (n - h) \<and> in_int32 (n - h - clamp off 0 m) \<and>
    in_int32 (win_first (computeScrollWindow n off h) + h)"
proof -
  have newest: "off \<le> 0 \<longrightarrow> win_last (computeScrollWindow n off h) = n"
    and oldest: "m \<le> off \<longrightarrow> win_first (computeScrollWindow n off h) = 0"
    using count height by (auto simp: computeScrollWindow_def Let_def clamp_def m_def)
  have range: "in_int32 (n - h)" "in_int32 (n - h - clamp off 0 m)"
    "in_int32 (win_first (computeScrollWindow n off h) + h)"
    using count height by (auto simp: in_int32_def m_def computeScrollWindow_def Let_def clamp_def)
  have "\<exists>off'. 0 \<le> off' \<and> off' \<le> m \<and>
      win_first (computeScrollWindow n off' h) \<le> i \<and> i < win_last (computeScrollWindow n off' h)"
    if "0 \<le> i" "i < n" for i
    using that window_at [OF height(1), of "max (min (n - 1 - i) m) 0" n] count(1) height(1)
    by (intro exI [of _ "max (min (n - 1 - i) m) 0"]) (auto simp: m_def)
  then show ?thesis
    using window_bounds [OF count(1), of off h] window_size [OF count(1) height(1), of off] newest oldest range
    by (intro conjI allI impI) auto
qed

theorem computeScrollWindow_spec_witness: "computeScrollWindow 30 0 20 = \<lparr>win_first = 10, win_last = 30\<rparr>"
proof -
  have "win_last (computeScrollWindow 30 0 20) = 30 \<and>
      win_last (computeScrollWindow 30 0 20) = win_first (computeScrollWindow 30 0 20) + min 20 30"
    using computeScrollWindow_spec [of 30 20 0] by (simp add: in_int32_def)
  then show ?thesis
    by (cases "computeScrollWindow 30 0 20") simp
qed

subsection \<open>The rows\<close>

definition message_row :: "(int \<Rightarrow> string) \<Rightarrow> inbox_message \<Rightarrow> view_row" where
  "message_row local_hhmm m = MessageRow (formatTimestamp local_hhmm (in_sent_at_ms m))
     (if in_sender_name m = [] then ''unknown'' else in_sender_name m) (in_content m)"

lemma view_rows_Cons:
  "view_rows f (m # rest) k sep idx limit =
     (if int idx < limit
      then (if sep \<and> int idx = k then [LiveSeparator] else []) @ message_row f m # view_rows f rest k sep (idx + 1) limit
      else [])"
  by (simp add: message_row_def)

declare view_rows.simps(2) [simp del]

lemma nat_step: "int i < n \<Longrightarrow> nat (n - int i) = Suc (nat (n - int (i + 1)))"
  by linarith

lemma view_rows_before:
  "int (idx + length ms) \<le> k \<or> limit \<le> k \<or> \<not> sep \<or> k < int idx \<Longrightarrow>
   view_rows f ms k sep idx limit = map (message_row f) (take (nat (limit - int idx)) ms)"
proof (induction ms arbitrary: idx)
  case (Cons m rest)
  then have "view_rows f rest k sep (idx + 1) limit = map (message_row f) (take (nat (limit - int (idx + 1))) rest)"
    by (intro Cons.IH) auto
  with Cons.prems show ?case
    by (cases "int idx < limit") (auto simp: view_rows_Cons nat_step)
qed simp

lemma view_rows_separator:
  assumes "sep" and "int idx \<le> k" and "k < limit" and "k < int (idx + length ms)"
  shows "view_rows f ms k sep idx limit =
    map (message_row f) (take (nat (k - int idx)) ms) @ LiveSeparator #
    map (message_row f) (drop (nat (k - int idx)) (take (nat (limit - int idx)) ms))"
  using assms(2-)
proof (induction ms arbitrary: idx)
  case (Cons m rest)
  show ?case
  proof (cases "int idx = k")
    case True
    then have "nat (limit - k) = Suc (nat (limit - (1 + k)))"
      using Cons.prems by linarith
    then show ?thesis
      using True Cons.prems assms(1) view_rows_before [of "idx + 1" rest k limit sep f]
      by (simp add: view_rows_Cons)
  next
    case False
    then have lt: "int idx < k" "int idx < limit"
      using Cons.prems by simp_all
    then show ?thesis
      using Cons.prems Cons.IH [of "idx + 1"] by (simp add: view_rows_Cons nat_step [OF lt(1)] nat_step [OF lt(2)])
  qed
qed simp

definition shown_messages :: "inbox_message list \<Rightarrow> int \<Rightarrow> int \<Rightarrow> inbox_message list" where
  "shown_messages messages off h =
     (let w = computeScrollWindow (int (length messages)) off h
      in take (nat (win_last w - win_first w)) (drop (nat (win_first w)) messages))"

lemma window_newest:
  "0 < h \<Longrightarrow> 0 \<le> n \<Longrightarrow> computeScrollWindow n 0 h = \<lparr>win_first = max (n - h) 0, win_last = n\<rparr>"
  by (auto simp: computeScrollWindow_def clamp_def Let_def)

lemma shown_newest: "0 < h \<Longrightarrow> shown_messages ms 0 h = drop (length ms - nat h) ms"
  by (auto simp: shown_messages_def window_newest Let_def nat_diff_distrib' max_def)

lemma separator_inside:
  assumes "shouldRenderLiveSeparator n k off h" and "0 \<le> n"
  shows "win_first (computeScrollWindow n off h) < k \<and> k < win_last (computeScrollWindow n off h)"
  using assms by (auto simp: shouldRenderLiveSeparator_def Let_def computeScrollWindow_def split: if_splits)

lemma RenderMessageView_rows:
  fixes messages :: "inbox_message list" and off h :: int
  assumes "length messages < 2 ^ 31"
  defines "first \<equiv> win_first (computeScrollWindow (int (length messages)) off h)"
    and "shown \<equiv> shown_messages messages off h"
  shows "RenderMessageView f messages k off h =
    (if messages = [] then [NoMessages]
     else if shouldRenderLiveSeparator (int (length messages)) k off h
     then map (message_row f) (take (nat (k - first)) shown) @ LiveSeparator #
       map (message_row f) (drop (nat (k - first)) shown)
     else map (message_row f) shown)"
proof -
  let ?n = "int (length messages)"
  let ?w = "computeScrollWindow ?n off h"
  note b = window_bounds [of ?n off h]
  have whole: "(if 0 < h then win_first ?w else 0) = first" "(if 0 < h then win_last ?w else ?n) = win_last ?w"
    by (auto simp: first_def computeScrollWindow_def)
  have rows: "RenderMessageView f messages k off h =
      (let rows = view_rows f (drop (nat first) messages) k (shouldRenderLiveSeparator ?n k off h)
         (nat first) (win_last ?w) in if rows = [] then [NoMessages] else rows)"
    by (simp only: RenderMessageView_def Let_def int_of_size_small [OF assms(1)] whole)
  have idx: "int (nat first) = first" "nat first + length (drop (nat first) messages) = length messages"
    using b by (auto simp: first_def)
  have size: "messages \<noteq> [] \<Longrightarrow> first < win_last ?w"
    by (auto simp: first_def computeScrollWindow_def Let_def clamp_def)
  have shown: "shown = take (nat (win_last ?w - first)) (drop (nat first) messages)"
    by (simp only: shown_def shown_messages_def Let_def first_def)
  show ?thesis
  proof (cases "shouldRenderLiveSeparator ?n k off h")
    case True
    then have k: "first < k" "k < win_last ?w" "k < ?n"
      using separator_inside [OF True] b by (auto simp: first_def)
    then have "messages \<noteq> []"
      using b(1) by (auto simp: first_def)
    have "nat (k - first) \<le> nat (win_last ?w - first)"
      using k by simp
    then have before: "take (nat (k - first)) shown = take (nat (k - first)) (drop (nat first) messages)"
      by (simp only: shown take_take min_absorb1)
    have "view_rows f (drop (nat first) messages) k True (nat first) (win_last ?w) =
        map (message_row f) (take (nat (k - first)) shown) @ LiveSeparator #
        map (message_row f) (drop (nat (k - first)) shown)"
      using view_rows_separator [of True "nat first" k "win_last ?w" "drop (nat first) messages" f] k idx
      unfolding before by (simp only: shown idx simp_thms)
    with True \<open>messages \<noteq> []\<close> show ?thesis
      by (simp only: rows Let_def if_True if_False append_is_Nil_conv list.distinct simp_thms)
  next
    case False
    have "view_rows f (drop (nat first) messages) k False (nat first) (win_last ?w) = map (message_row f) shown"
      using view_rows_before [of "nat first" "drop (nat first) messages" k "win_last ?w" False f]
      by (simp only: shown idx simp_thms)
    moreover have "shown = [] \<longleftrightarrow> messages = []"
    proof (cases "messages = []")
      case nonempty: False
      have "first < win_last ?w" "nat first < length messages"
        using size [OF nonempty] b by (simp_all add: first_def)
      then show ?thesis
        using nonempty by (simp add: shown)
    qed (simp add: shown)
    ultimately show ?thesis
      using False by (simp add: rows Let_def)
  qed
qed

text \<open>
  The message pane shows the messages of the scroll window, in order and once each, a text when
  there is no message at all, and the separator between history and live messages exactly when the
  first live message and the last history message are both in the window, right between them.
\<close>

theorem RenderMessageView_spec:
  fixes messages :: "inbox_message list" and off h :: int
  assumes "length messages < 2 ^ 31"
  defines "first \<equiv> win_first (computeScrollWindow (int (length messages)) off h)"
    and "shown \<equiv> shown_messages messages off h"
  shows "RenderMessageView f messages k off h =
    (if messages = [] then [NoMessages]
     else if shouldRenderLiveSeparator (int (length messages)) k off h
     then map (message_row f) (take (nat (k - first)) shown) @ LiveSeparator #
       map (message_row f) (drop (nat (k - first)) shown)
     else map (message_row f) shown)"
  using assms(1) unfolding first_def shown_def by (rule RenderMessageView_rows)

definition demo_inbox_message :: "string \<Rightarrow> bool \<Rightarrow> inbox_message" where
  "demo_inbox_message text hist = inbox_message_default\<lparr>in_content := text, in_is_history := hist\<rparr>"

theorem RenderMessageView_spec_witness:
  "RenderMessageView (\<lambda>t. []) [demo_inbox_message ''a'' True, demo_inbox_message ''b'' False] 1 0 20 =
     [MessageRow ''--:--'' ''unknown'' ''a'', LiveSeparator, MessageRow ''--:--'' ''unknown'' ''b'']"
proof -
  let ?ms = "[demo_inbox_message ''a'' True, demo_inbox_message ''b'' False]"
  have w: "computeScrollWindow 2 0 20 = \<lparr>win_first = 0, win_last = 2\<rparr>"
    by (simp add: computeScrollWindow_def clamp_def)
  have "shown_messages ?ms 0 20 = ?ms" and "shouldRenderLiveSeparator 2 1 0 20"
    by (simp_all add: shown_messages_def shouldRenderLiveSeparator_def w)
  then show ?thesis
    using RenderMessageView_spec [of ?ms "\<lambda>t. []" 1 0 20] w
    by (simp add: message_row_def demo_inbox_message_def inbox_message_default_def formatTimestamp_def)
qed

end
