(* ===== verification/Client_Presenter.thy ===== *)
theory Client_Presenter
  imports Client_Commands Client_View
begin

text \<open>
  The presenter of the terminal client (\<open>adapter/tui/ftxui_presenter.cpp\<close>): the state behind the
  screen and the functions that change it. The record can be extended, so that the session of the
  client is an extension of it and the actions a submitted line triggers are functions on the whole
  client. Posting an event to the screen and leaving its loop are requests to the user interface
  library; they are recorded in the last two fields.
\<close>

datatype ConnectionState = Connecting | Connected | NetworkFailure | Closed

record presenter =
  ui_inbox :: inbox
  ui_messages :: "inbox_message list"
  ui_channel_names :: "string list"
  ui_selected_channel_idx :: int
  ui_history_count :: int
  ui_connected :: bool
  ui_tls :: bool
  ui_connection_state :: ConnectionState
  ui_show_help :: bool
  ui_username :: string
  ui_error_toast :: string
  ui_info_toast :: string
  ui_input_text :: string
  ui_scroll_offset :: int
  ui_auto_scroll :: bool
  ui_viewport_height_hint :: int
  ui_posted :: nat
  ui_exited :: bool

definition presenter_init :: presenter where
  "presenter_init = \<lparr>ui_inbox = [], ui_messages = [], ui_channel_names = [], ui_selected_channel_idx = 0,
     ui_history_count = 0, ui_connected = False, ui_tls = False, ui_connection_state = Connecting,
     ui_show_help = False, ui_username = [], ui_error_toast = [], ui_info_toast = [], ui_input_text = [],
     ui_scroll_offset = 0, ui_auto_scroll = True, ui_viewport_height_hint = 20, ui_posted = 0,
     ui_exited = False\<rparr>"

definition post_custom :: "'a presenter_scheme \<Rightarrow> 'a presenter_scheme" where
  "post_custom p = p\<lparr>ui_posted := ui_posted p + 1\<rparr>"

subsection \<open>What the other threads tell the presenter\<close>

definition showMessage :: "inbox_message \<Rightarrow> 'a presenter_scheme \<Rightarrow> 'a presenter_scheme" where
  "showMessage message p =
     (let p1 = (if ui_auto_scroll p then p\<lparr>ui_scroll_offset := 0\<rparr> else p)
      in post_custom (p1\<lparr>ui_inbox := inbox_push message (ui_inbox p1)\<rparr>))"

definition showReplayComplete :: "string \<Rightarrow> 'a presenter_scheme \<Rightarrow> 'a presenter_scheme" where
  "showReplayComplete channel_id p = post_custom p"

definition showError :: "string \<Rightarrow> 'a presenter_scheme \<Rightarrow> 'a presenter_scheme" where
  "showError error_text p = post_custom (p\<lparr>ui_error_toast := error_text, ui_info_toast := []\<rparr>)"

definition showInfo :: "string \<Rightarrow> 'a presenter_scheme \<Rightarrow> 'a presenter_scheme" where
  "showInfo info_text p = post_custom (p\<lparr>ui_info_toast := info_text, ui_error_toast := []\<rparr>)"

definition updateConnectionStatus ::
  "bool \<Rightarrow> bool \<Rightarrow> string \<Rightarrow> 'a presenter_scheme \<Rightarrow> 'a presenter_scheme" where
  "updateConnectionStatus connected tls name p =
     post_custom (p\<lparr>ui_connected := connected, ui_tls := tls, ui_username := name\<rparr>)"

definition updateConnectionState :: "ConnectionState \<Rightarrow> 'a presenter_scheme \<Rightarrow> 'a presenter_scheme" where
  "updateConnectionState state p = post_custom (p\<lparr>ui_connection_state := state\<rparr>)"

definition showChannelList :: "string list \<Rightarrow> 'a presenter_scheme \<Rightarrow> 'a presenter_scheme" where
  "showChannelList names p =
     post_custom (p\<lparr>ui_channel_names := names,
       ui_selected_channel_idx := clamp (ui_selected_channel_idx p) 0 (max 0 (int_of_size (length names) - 1))\<rparr>)"

definition clearMessages :: "'a presenter_scheme \<Rightarrow> 'a presenter_scheme" where
  "clearMessages p =
     (let p1 = p\<lparr>ui_scroll_offset := 0, ui_auto_scroll := True, ui_messages := [], ui_history_count := 0\<rparr>
      in post_custom (p1\<lparr>ui_inbox := inbox_clear (ui_inbox p1)\<rparr>))"

subsection \<open>Scrolling\<close>

definition max_scroll :: "'a presenter_scheme \<Rightarrow> int" where
  "max_scroll p = max (int_of_size (length (ui_messages p)) - ui_viewport_height_hint p) 0"

definition clampScrollOffsetLocked :: "'a presenter_scheme \<Rightarrow> 'a presenter_scheme" where
  "clampScrollOffsetLocked p =
     (let p1 = p\<lparr>ui_scroll_offset := clamp (ui_scroll_offset p) 0 (max_scroll p)\<rparr>
      in p1\<lparr>ui_auto_scroll := (ui_scroll_offset p1 = 0)\<rparr>)"

definition scrollByLocked :: "int \<Rightarrow> 'a presenter_scheme \<Rightarrow> 'a presenter_scheme" where
  "scrollByLocked delta p =
     (let p1 = p\<lparr>ui_scroll_offset := clamp (ui_scroll_offset p + delta) 0 (max_scroll p)\<rparr>
      in p1\<lparr>ui_auto_scroll := (ui_scroll_offset p1 = 0)\<rparr>)"

definition scrollToTopLocked :: "'a presenter_scheme \<Rightarrow> 'a presenter_scheme" where
  "scrollToTopLocked p =
     (let p1 = p\<lparr>ui_scroll_offset := max_scroll p\<rparr>
      in p1\<lparr>ui_auto_scroll := (ui_scroll_offset p1 = 0)\<rparr>)"

definition scrollToBottomLocked :: "'a presenter_scheme \<Rightarrow> 'a presenter_scheme" where
  "scrollToBottomLocked p = p\<lparr>ui_scroll_offset := 0, ui_auto_scroll := True\<rparr>"

text \<open>The events of the user interface library that the code tells apart.\<close>

datatype mouse_button = WheelUp | WheelDown | OtherButton

datatype ui_event =
  Escape | Character char | PageUp | PageDown | Home | End | ArrowUp | ArrowDown
  | MouseEvent mouse_button | OtherEvent

definition is_mouse_wheel :: "ui_event \<Rightarrow> bool" where
  "is_mouse_wheel event \<longleftrightarrow> (case event of MouseEvent button \<Rightarrow> button = WheelUp \<or> button = WheelDown | _ \<Rightarrow> False)"

definition handleScrollEvent :: "ui_event \<Rightarrow> 'a presenter_scheme \<Rightarrow> bool \<times> 'a presenter_scheme" where
  "handleScrollEvent event p =
     (let is_scroll_event = event = PageUp \<or> event = PageDown \<or> event = Home \<or> event = End \<or>
        event = ArrowUp \<or> event = ArrowDown \<or> is_mouse_wheel event
      in if \<not> is_scroll_event then (False, p)
         else if ui_show_help p then (True, p)
         else if event = PageUp then (True, scrollByLocked (ui_viewport_height_hint p) p)
         else if event = PageDown then (True, scrollByLocked (- ui_viewport_height_hint p) p)
         else if event = ArrowUp then (True, scrollByLocked 1 p)
         else if event = ArrowDown then (True, scrollByLocked (-1) p)
         else if event = Home then (True, scrollToTopLocked p)
         else if event = End then (True, scrollToBottomLocked p)
         else if event = MouseEvent WheelUp then (True, scrollByLocked 3 p)
         else if event = MouseEvent WheelDown then (True, scrollByLocked (-3) p)
         else (False, p))"

text \<open>The handler that sees every event before the input line and the channel menu do.\<close>

definition catch_event :: "ui_event \<Rightarrow> 'a presenter_scheme \<Rightarrow> bool \<times> 'a presenter_scheme" where
  "catch_event event p =
     (if event = Escape then
        (let was_help_open = ui_show_help p;
             p1 = (if ui_show_help p then p\<lparr>ui_show_help := False\<rparr> else p)
         in (True, if was_help_open then post_custom p1 else p1))
      else if event = Character (CHR ''?'') then
        (True, post_custom (p\<lparr>ui_show_help := \<not> ui_show_help p\<rparr>))
      else (let (handled, p1) = handleScrollEvent event p in if handled then (True, p1) else (False, p1)))"

subsection \<open>Submitted lines and chosen channels\<close>

record 'w actions =
  act_send_message :: "(string \<Rightarrow> 'w \<Rightarrow> 'w) option"
  act_join_channel :: "(string \<Rightarrow> 'w \<Rightarrow> 'w) option"
  act_create_channel :: "(string \<Rightarrow> 'w \<Rightarrow> 'w) option"
  act_leave_channel :: "('w \<Rightarrow> 'w) option"
  act_list_channels :: "('w \<Rightarrow> 'w) option"

definition unknown_command :: "string \<Rightarrow> string" where
  "unknown_command text = ''unknown command: '' @ text @ '' - type ? for help''"

definition handleParsedCommandImpl ::
  "ParsedCommand \<Rightarrow> string \<Rightarrow> 'a presenter_scheme actions \<Rightarrow> 'a presenter_scheme \<Rightarrow> 'a presenter_scheme" where
  "handleParsedCommandImpl parsed input actions p =
     (if cmd_type parsed = NoCommand \<and> input \<noteq> [] \<and> starts_with input ''/''
      then showError (unknown_command input) p
      else case cmd_type parsed of
        Join \<Rightarrow> (case act_join_channel actions of None \<Rightarrow> p | Some f \<Rightarrow> f (cmd_arg parsed) p)
      | Create \<Rightarrow> (case act_create_channel actions of None \<Rightarrow> p | Some f \<Rightarrow> f (cmd_arg parsed) p)
      | Quit \<Rightarrow> p\<lparr>ui_exited := True\<rparr>
      | Leave \<Rightarrow> (case act_leave_channel actions of None \<Rightarrow> p | Some f \<Rightarrow> f p)
      | List \<Rightarrow> (case act_list_channels actions of None \<Rightarrow> p | Some f \<Rightarrow> f p)
      | Unknown \<Rightarrow> showError (unknown_command (cmd_arg parsed)) p
      | NoCommand \<Rightarrow>
          (if input \<noteq> [] then (case act_send_message actions of None \<Rightarrow> p | Some f \<Rightarrow> f input p) else p))"

definition handleSubmit :: "'a presenter_scheme actions \<Rightarrow> 'a presenter_scheme \<Rightarrow> 'a presenter_scheme" where
  "handleSubmit actions p =
     (let input = trim_copy (ui_input_text p);
          p1 = p\<lparr>ui_input_text := []\<rparr>
      in handleParsedCommandImpl (parseCommand input) input actions p1)"

definition onChannelEnter ::
  "'a presenter_scheme actions \<Rightarrow> int \<Rightarrow> 'a presenter_scheme \<Rightarrow> 'a presenter_scheme" where
  "onChannelEnter actions idx p =
     (if idx < 0 \<or> int_of_size (length (ui_channel_names p)) \<le> idx then p
      else (case act_join_channel actions of
              None \<Rightarrow> p | Some f \<Rightarrow> f (ui_channel_names p ! nat idx) p))"

text \<open>The menu of channels (\<open>components/channel_list.hpp\<close>) calls back for a valid selection only.\<close>

definition ChannelList_on_enter ::
  "string list option \<Rightarrow> int option \<Rightarrow> (int \<Rightarrow> 'w \<Rightarrow> 'w) option \<Rightarrow> 'w \<Rightarrow> 'w" where
  "ChannelList_on_enter channels selected_idx on_enter w =
     (case (channels, selected_idx) of
        (Some names, Some idx) \<Rightarrow>
          if idx < 0 \<or> int_of_size (length names) \<le> idx then w
          else (case on_enter of None \<Rightarrow> w | Some f \<Rightarrow> f idx w)
      | _ \<Rightarrow> w)"

definition menu_enter :: "'a presenter_scheme actions \<Rightarrow> 'a presenter_scheme \<Rightarrow> 'a presenter_scheme" where
  "menu_enter actions p =
     ChannelList_on_enter (Some (ui_channel_names p)) (Some (ui_selected_channel_idx p))
       (Some (onChannelEnter actions)) p"

subsection \<open>Drawing\<close>

text \<open>
  The line the user types into (\<open>components/input_bar.hpp\<close>): the library shows the placeholder while
  there is no text. Entering the line is \<open>handleSubmit\<close>.
\<close>

record input_bar =
  bar_text :: string
  bar_placeholder :: string

definition InputBar :: "string \<Rightarrow> input_bar" where
  "InputBar line = \<lparr>bar_text = line, bar_placeholder = ''Type a message or /command...''\<rparr>"

definition bar_shown :: "input_bar \<Rightarrow> string" where
  "bar_shown bar = (if bar_text bar = [] then bar_placeholder bar else bar_text bar)"

definition help_panel :: "string list" where
  "help_panel =
     [''Keyboard Shortcuts'',
      ''  Enter             send message to current channel'',
      ''  /create <name>    create a new channel'',
      ''  /join <name>      join an existing channel'',
      ''  /leave            leave the current channel'',
      ''  /list             list all channels'',
      ''  /quit             disconnect and exit'',
      ''  ?                 toggle this help'',
      ''  Esc               close this help'',
      ''Channel names: 1-64 chars of [a-zA-Z0-9-]'']"

text \<open>
  A frame: the entries of the menu of channels and the one selected, the rows of the message pane, the
  input line, the two status texts, and the lines of the help panel drawn over them when it is open.
\<close>

record frame =
  frame_channels :: "string list"
  frame_selected :: int
  frame_rows :: "view_row list"
  frame_input :: string
  frame_connection :: string
  frame_status :: string
  frame_help :: "string list"

fun connection_state_str :: "ConnectionState \<Rightarrow> string" where
  "connection_state_str Connecting = ''status: connecting''"
| "connection_state_str Connected = ''status: connected''"
| "connection_state_str NetworkFailure = ''status: network error''"
| "connection_state_str Closed = ''status: closed''"

definition render :: "(int \<Rightarrow> string) \<Rightarrow> 'a presenter_scheme \<Rightarrow> frame \<times> 'a presenter_scheme" where
  "render local_hhmm p =
     (let (messages, rest) = inbox_drainTo (ui_messages p) drain_default (ui_inbox p);
          p1 = p\<lparr>ui_inbox := rest, ui_messages := messages\<rparr>;
          p2 = p1\<lparr>ui_history_count := int_of_size (length (filter in_is_history (ui_messages p1)))\<rparr>;
          p3 = clampScrollOffsetLocked p2;
          tls_status = (if ui_tls p3 then ''TLS'' else ''insecure'');
          status = ''('' @ tls_status @ '') as '' @ ui_username p3;
          err = (if ui_error_toast p3 = [] then [] else '' | Error: '' @ ui_error_toast p3);
          info = (if ui_info_toast p3 = [] then [] else '' | '' @ ui_info_toast p3);
          hint = (if ui_show_help p3 then [] else '' | press ? for help'')
      in (\<lparr>frame_channels = ui_channel_names p3, frame_selected = ui_selected_channel_idx p3,
           frame_rows = RenderMessageView local_hhmm (ui_messages p3) (ui_history_count p3)
             (ui_scroll_offset p3) (ui_viewport_height_hint p3),
           frame_input = bar_shown (InputBar (ui_input_text p3)),
           frame_connection = connection_state_str (ui_connection_state p3),
           frame_status = status @ err @ info @ hint,
           frame_help = (if ui_show_help p3 then help_panel else [])\<rparr>, p3))"

end
