(* ===== verification/Client_Gateway.thy ===== *)
theory Client_Gateway
  imports Client_Presenter Publishers
begin

text \<open>
  The client's view of the server (\<open>adapter/grpc/grpc_server_gateway.cpp\<close>, \<open>detail/event_filter.cpp\<close>)
  and its use cases (\<open>application/usecase/\<close>). The generated gRPC stub is a parameter: a record of the
  calls it offers, each from the fields of the request and the state of the world behind the network
  to the status, the fields of the response and that world afterwards.
\<close>

record 'n stub =
  stub_Connect :: "string \<Rightarrow> 'n \<Rightarrow> (grpc_status \<times> string) \<times> 'n"
  stub_Disconnect :: "string \<Rightarrow> 'n \<Rightarrow> grpc_status \<times> 'n"
  stub_ListChannels :: "'n \<Rightarrow> (grpc_status \<times> channel_summary list) \<times> 'n"
  stub_CreateChannel :: "string \<Rightarrow> string \<Rightarrow> 'n \<Rightarrow> (grpc_status \<times> string \<times> string) \<times> 'n"
  stub_JoinChannel :: "string \<Rightarrow> string \<Rightarrow> 'n \<Rightarrow> grpc_status \<times> 'n"
  stub_LeaveChannel :: "string \<Rightarrow> string \<Rightarrow> 'n \<Rightarrow> grpc_status \<times> 'n"
  stub_SendMessage :: "string \<Rightarrow> string \<Rightarrow> string \<Rightarrow> 'n \<Rightarrow> (grpc_status \<times> string) \<times> 'n"
  stub_Heartbeat :: "string \<Rightarrow> 'n \<Rightarrow> grpc_status \<times> 'n"

definition status_is_ok :: "grpc_status \<Rightarrow> bool" where
  "status_is_ok status \<longleftrightarrow> status_code status = OK"

record channel_info =
  info_id :: string
  info_name :: string
  info_member_count :: "32 word"

subsection \<open>The unary calls\<close>

definition gateway_connect :: "'n stub \<Rightarrow> string \<Rightarrow> 'n \<Rightarrow> string result \<times> 'n" where
  "gateway_connect G name n =
     (case stub_Connect G (trim_copy name) n of
        ((status, client_id), n') \<Rightarrow>
          if \<not> status_is_ok status then (unexpected (statusToError status), n') else (Inr client_id, n'))"

definition gateway_disconnect :: "'n stub \<Rightarrow> string \<Rightarrow> 'n \<Rightarrow> unit result \<times> 'n" where
  "gateway_disconnect G client_id n =
     (case stub_Disconnect G (trim_copy client_id) n of
        (status, n') \<Rightarrow>
          if \<not> status_is_ok status then (unexpected (statusToError status), n') else (Inr (), n'))"

definition gateway_createChannel :: "'n stub \<Rightarrow> string \<Rightarrow> string \<Rightarrow> 'n \<Rightarrow> string result \<times> 'n" where
  "gateway_createChannel G client_id name n =
     (case stub_CreateChannel G (trim_copy client_id) (trim_copy name) n of
        ((status, channel_id, channel_name), n') \<Rightarrow>
          if \<not> status_is_ok status then (unexpected (statusToError status), n') else (Inr channel_id, n'))"

definition channel_info_of :: "channel_summary \<Rightarrow> channel_info" where
  "channel_info_of s = \<lparr>info_id = sum_id s, info_name = sum_name s, info_member_count = sum_member_count s\<rparr>"

definition gateway_listChannels :: "'n stub \<Rightarrow> 'n \<Rightarrow> channel_info list result \<times> 'n" where
  "gateway_listChannels G n =
     (case stub_ListChannels G n of
        ((status, summaries), n') \<Rightarrow>
          if \<not> status_is_ok status then (unexpected (statusToError status), n')
          else (Inr (map channel_info_of summaries), n'))"

definition gateway_joinChannel :: "'n stub \<Rightarrow> string \<Rightarrow> string \<Rightarrow> 'n \<Rightarrow> unit result \<times> 'n" where
  "gateway_joinChannel G client_id channel_id n =
     (case stub_JoinChannel G (trim_copy client_id) (trim_copy channel_id) n of
        (status, n') \<Rightarrow>
          if \<not> status_is_ok status then (unexpected (statusToError status), n') else (Inr (), n'))"

fun join_listed ::
  "'n stub \<Rightarrow> string \<Rightarrow> string \<Rightarrow> channel_info list \<Rightarrow> 'n \<Rightarrow> string result \<times> 'n" where
  "join_listed G client_id trimmed_name [] n = (unexpected ChannelNotFound, n)"
| "join_listed G client_id trimmed_name (channel # rest) n =
     (if info_name channel = trimmed_name
      then (case gateway_joinChannel G client_id (info_id channel) n of
              (Inl e, n') \<Rightarrow> (unexpected e, n')
            | (Inr _, n') \<Rightarrow> (Inr (info_id channel), n'))
      else join_listed G client_id trimmed_name rest n)"

definition gateway_joinChannelByName :: "'n stub \<Rightarrow> string \<Rightarrow> string \<Rightarrow> 'n \<Rightarrow> string result \<times> 'n" where
  "gateway_joinChannelByName G client_id name n =
     (let trimmed_name = trim name
      in case gateway_listChannels G n of
           (Inl e, n1) \<Rightarrow> (unexpected e, n1)
         | (Inr channels, n1) \<Rightarrow> join_listed G client_id trimmed_name channels n1)"

definition gateway_leaveChannel :: "'n stub \<Rightarrow> string \<Rightarrow> string \<Rightarrow> 'n \<Rightarrow> unit result \<times> 'n" where
  "gateway_leaveChannel G client_id channel_id n =
     (case stub_LeaveChannel G (trim_copy client_id) (trim_copy channel_id) n of
        (status, n') \<Rightarrow>
          if \<not> status_is_ok status then (unexpected (statusToError status), n') else (Inr (), n'))"

definition gateway_sendMessage :: "'n stub \<Rightarrow> string \<Rightarrow> string \<Rightarrow> string \<Rightarrow> 'n \<Rightarrow> string result \<times> 'n" where
  "gateway_sendMessage G client_id channel_id content n =
     (case stub_SendMessage G (trim_copy client_id) (trim_copy channel_id) (trim_copy content) n of
        ((status, message_id), n') \<Rightarrow>
          if \<not> status_is_ok status then (unexpected (statusToError status), n') else (Inr message_id, n'))"

definition gateway_sendHeartbeat :: "'n stub \<Rightarrow> string \<Rightarrow> 'n \<Rightarrow> unit result \<times> 'n" where
  "gateway_sendHeartbeat G client_id n =
     (case stub_Heartbeat G (trim_copy client_id) n of
        (status, n') \<Rightarrow>
          if \<not> status_is_ok status then (unexpected (statusToError status), n') else (Inr (), n'))"

subsection \<open>The event stream\<close>

definition shouldEmitEventForChannel :: "channel_event \<Rightarrow> string \<Rightarrow> bool" where
  "shouldEmitEventForChannel event subscribed_channel_id =
     (case event of
        MemberLeft channel_id client_id name \<Rightarrow> channel_id = subscribed_channel_id
      | MemberJoined channel_id client_id name \<Rightarrow> channel_id = subscribed_channel_id
      | _ \<Rightarrow> True)"

definition system_sender :: string where
  "system_sender = ''[system]''"

definition system_message :: "string \<Rightarrow> string \<Rightarrow> int \<Rightarrow> inbox_message" where
  "system_message channel_id content now_ms =
     inbox_message_default\<lparr>in_channel_id := channel_id, in_sender_name := system_sender, in_content := content,
       in_sent_at_ms := now_ms, in_is_history := False\<rparr>"

text \<open>One turn of the read loop, with the clock reading in milliseconds.\<close>

definition event_to_inbox :: "int \<Rightarrow> channel_event \<Rightarrow> inbox_message option" where
  "event_to_inbox now_ms event =
     (case event of
        MessageEv m \<Rightarrow>
          Some (inbox_message_default\<lparr>in_message_id := ev_message_id m, in_channel_id := ev_channel_id m,
            in_sender_name := ev_sender_name m, in_content := ev_content m, in_sent_at_ms := ev_sent_at_ms m,
            in_is_history := False\<rparr>)
      | MemberLeft channel_id client_id name \<Rightarrow> Some (system_message channel_id (name @ '' left channel'') now_ms)
      | MemberJoined channel_id client_id name \<Rightarrow> Some (system_message channel_id (name @ '' joined channel'') now_ms)
      | _ \<Rightarrow> None)"

definition on_event :: "string \<Rightarrow> channel_event \<Rightarrow> int \<Rightarrow> (inbox_message \<Rightarrow> 'w \<Rightarrow> 'w) \<Rightarrow> 'w \<Rightarrow> 'w" where
  "on_event trimmed_channel_id event now_ms callback w =
     (if \<not> shouldEmitEventForChannel event trimmed_channel_id then w
      else case event_to_inbox now_ms event of None \<Rightarrow> w | Some message \<Rightarrow> callback message w)"

fun read_loop ::
  "string \<Rightarrow> (channel_event \<times> int) list \<Rightarrow> (inbox_message \<Rightarrow> 'w \<Rightarrow> 'w) \<Rightarrow> 'w \<Rightarrow> 'w" where
  "read_loop trimmed_channel_id [] callback w = w"
| "read_loop trimmed_channel_id ((event, now_ms) # reads) callback w =
     read_loop trimmed_channel_id reads callback (on_event trimmed_channel_id event now_ms callback w)"

text \<open>
  The whole call, for the events the reader yields until it ends and the final status. The number
  of messages to replay is ignored by the code.
\<close>

definition gateway_subscribeToChannel ::
  "(channel_event \<times> int) list \<Rightarrow> grpc_status \<Rightarrow> string \<Rightarrow> string \<Rightarrow> 32 word \<Rightarrow>
   (inbox_message \<Rightarrow> 'w \<Rightarrow> 'w) \<Rightarrow> 'w \<Rightarrow> unit result \<times> 'w" where
  "gateway_subscribeToChannel reads status client_id channel_id replay_count callback w =
     (let trimmed_channel_id = trim_copy channel_id;
          w' = read_loop trimmed_channel_id reads callback w
      in (if \<not> status_is_ok status then unexpected (statusToError status) else Inr (), w'))"

subsection \<open>The use cases of the client\<close>

definition ConnectToServer_execute :: "'n stub \<Rightarrow> string \<Rightarrow> 'n \<Rightarrow> string result \<times> 'n" where
  "ConnectToServer_execute G name n = gateway_connect G name n"

definition CreateChannelCommand_execute :: "'n stub \<Rightarrow> string \<Rightarrow> string \<Rightarrow> 'n \<Rightarrow> string result \<times> 'n" where
  "CreateChannelCommand_execute G client_id name n = gateway_createChannel G client_id name n"

definition JoinChannelCommand_execute :: "'n stub \<Rightarrow> string \<Rightarrow> string \<Rightarrow> 'n \<Rightarrow> string result \<times> 'n" where
  "JoinChannelCommand_execute G client_id name n = gateway_joinChannelByName G client_id name n"

definition SendMessageCommand_execute ::
  "'n stub \<Rightarrow> string \<Rightarrow> string \<Rightarrow> string \<Rightarrow> 'n \<Rightarrow> string result \<times> 'n" where
  "SendMessageCommand_execute G client_id channel_id content n = gateway_sendMessage G client_id channel_id content n"

definition SendHeartbeatCommand_execute :: "'n stub \<Rightarrow> string \<Rightarrow> 'n \<Rightarrow> unit result \<times> 'n" where
  "SendHeartbeatCommand_execute G client_id n = gateway_sendHeartbeat G client_id n"

definition SubscribeCommand_execute ::
  "(channel_event \<times> int) list \<Rightarrow> grpc_status \<Rightarrow> string \<Rightarrow> string \<Rightarrow> 32 word \<Rightarrow>
   'a presenter_scheme \<Rightarrow> unit result \<times> 'a presenter_scheme" where
  "SubscribeCommand_execute reads status client_id channel_id replay_count p =
     (case gateway_subscribeToChannel reads status client_id channel_id replay_count showMessage p of
        (Inl e, p') \<Rightarrow> (Inl e, showError (error_message e) p')
      | (Inr r, p') \<Rightarrow> (Inr r, p'))"

subsection \<open>What a subscription puts on the screen\<close>

definition emitted :: "string \<Rightarrow> (channel_event \<times> int) list \<Rightarrow> inbox_message list" where
  "emitted channel_id reads =
     concat (map (\<lambda>(event, now_ms). if shouldEmitEventForChannel event channel_id
       then (case event_to_inbox now_ms event of None \<Rightarrow> [] | Some m \<Rightarrow> [m]) else []) reads)"

lemma on_event_emitted: "on_event channel_id event now_ms callback w = fold callback (emitted channel_id [(event, now_ms)]) w"
  by (cases "event_to_inbox now_ms event") (simp_all add: emitted_def on_event_def)

lemma emitted_Cons: "emitted channel_id (r # reads) = emitted channel_id [r] @ emitted channel_id reads"
  by (simp add: emitted_def)

lemma read_loop_emitted: "read_loop channel_id reads callback w = fold callback (emitted channel_id reads) w"
proof (induction reads arbitrary: w)
  case Nil
  show ?case by (simp add: emitted_def)
next
  case (Cons r reads)
  obtain event now_ms where r: "r = (event, now_ms)" by fastforce
  have "read_loop channel_id (r # reads) callback w =
      fold callback (emitted channel_id reads) (on_event channel_id event now_ms callback w)"
    unfolding r read_loop.simps by (rule Cons)
  also have "\<dots> = fold callback (emitted channel_id (r # reads)) w"
    by (simp add: on_event_emitted r emitted_Cons [of channel_id _ reads])
  finally show ?case .
qed

lemma showMessage_fields [simp]:
  "ui_inbox (showMessage m p) = ui_inbox p @ [m]" "ui_messages (showMessage m p) = ui_messages p"
  "ui_error_toast (showMessage m p) = ui_error_toast p" "ui_info_toast (showMessage m p) = ui_info_toast p"
  "ui_channel_names (showMessage m p) = ui_channel_names p"
  by (simp_all add: showMessage_def post_custom_def inbox_push_def Let_def)

lemma fold_showMessage_inbox: "ui_inbox (fold showMessage ms p) = ui_inbox p @ ms"
  by (induction ms arbitrary: p) simp_all

lemma fold_showMessage_messages: "ui_messages (fold showMessage ms p) = ui_messages p"
  by (induction ms arbitrary: p) simp_all

lemma fold_showMessage_error: "ui_error_toast (fold showMessage ms p) = ui_error_toast p"
  by (induction ms arbitrary: p) simp_all

lemmas fold_showMessage = fold_showMessage_inbox fold_showMessage_messages fold_showMessage_error

lemma event_to_inbox_live: "event_to_inbox now_ms event = Some m \<Longrightarrow> \<not> in_is_history m"
  by (cases event) (auto simp: event_to_inbox_def system_message_def)

lemma emitted_live: "m \<in> set (emitted c reads) \<Longrightarrow> \<not> in_is_history m"
proof (induction reads)
  case (Cons r reads)
  obtain event now_ms where r: "r = (event, now_ms)" by fastforce
  have "m \<in> set (emitted c [r]) \<Longrightarrow> event_to_inbox now_ms event = Some m"
    by (cases "event_to_inbox now_ms event"; cases "shouldEmitEventForChannel event c") (simp_all add: emitted_def r)
  then show ?case
    using Cons event_to_inbox_live [of now_ms event m] emitted_Cons [of c r reads] by auto
qed (simp add: emitted_def)

text \<open>
  C31: a subscription passes on every message of its stream and every arrival and departure in its own
  channel, in the order of the stream, and nothing else: arrivals and departures elsewhere, closed
  channels and empty events are dropped. None of it is ever marked as history, and the requested
  number of messages to replay has no influence. A failing end of the stream is reported as an error.
\<close>

theorem SubscribeCommand_spec:
  "ui_inbox (snd (SubscribeCommand_execute reads status i c replay p)) = ui_inbox p @ emitted (trim c) reads \<and>
   ui_messages (snd (SubscribeCommand_execute reads status i c replay p)) = ui_messages p \<and>
   (fst (SubscribeCommand_execute reads status i c replay p) = Inr () \<longleftrightarrow> status_code status = OK) \<and>
   ui_error_toast (snd (SubscribeCommand_execute reads status i c replay p)) =
     (if status_code status = OK then ui_error_toast p else error_message (statusToError status)) \<and>
   emitted (trim c) (reads @ reads') = emitted (trim c) reads @ emitted (trim c) reads' \<and>
   emitted (trim c) [(MessageEv m, t)] =
     [\<lparr>in_message_id = ev_message_id m, in_channel_id = ev_channel_id m, in_sender_name = ev_sender_name m,
       in_content = ev_content m, in_sent_at_ms = ev_sent_at_ms m, in_is_history = False\<rparr>] \<and>
   emitted (trim c) [(MemberJoined d j name, t)] = (if d = trim c then [system_message d (name @ '' joined channel'') t] else []) \<and>
   emitted (trim c) [(MemberLeft d j name, t)] = (if d = trim c then [system_message d (name @ '' left channel'') t] else []) \<and>
   emitted (trim c) [(ChannelClosed d reason, t), (EventNotSet, t')] = [] \<and>
   (\<forall>x. in_is_history x \<longrightarrow> x \<notin> set (emitted (trim c) reads)) \<and>
   SubscribeCommand_execute reads status i c replay p = SubscribeCommand_execute reads status i c replay' p"
proof -
  have execute: "SubscribeCommand_execute reads status i c r p =
      (if status_code status = OK then (Inr (), fold showMessage (emitted (trim c) reads) p)
       else (Inl (statusToError status), showError (error_message (statusToError status))
         (fold showMessage (emitted (trim c) reads) p)))" for r
    by (simp add: SubscribeCommand_execute_def gateway_subscribeToChannel_def read_loop_emitted status_is_ok_def Let_def)
  have err: "ui_inbox (showError s q) = ui_inbox q" "ui_messages (showError s q) = ui_messages q"
    "ui_error_toast (showError s q) = s" for s and q :: "'a presenter_scheme"
    by (simp_all add: showError_def post_custom_def)
  have emits: "emitted (trim c) (reads @ reads') = emitted (trim c) reads @ emitted (trim c) reads'"
    "emitted (trim c) [(MessageEv m, t)] =
     [\<lparr>in_message_id = ev_message_id m, in_channel_id = ev_channel_id m, in_sender_name = ev_sender_name m,
       in_content = ev_content m, in_sent_at_ms = ev_sent_at_ms m, in_is_history = False\<rparr>]"
    "emitted (trim c) [(MemberJoined d j name, t)] = (if d = trim c then [system_message d (name @ '' joined channel'') t] else [])"
    "emitted (trim c) [(MemberLeft d j name, t)] = (if d = trim c then [system_message d (name @ '' left channel'') t] else [])"
    "emitted (trim c) [(ChannelClosed d reason, t), (EventNotSet, t')] = []"
    by (simp_all add: emitted_def shouldEmitEventForChannel_def event_to_inbox_def inbox_message_default_def)
  have live: "\<forall>x. in_is_history x \<longrightarrow> x \<notin> set (emitted (trim c) reads)"
    using emitted_live by blast
  show ?thesis
    unfolding execute by (intro conjI emits live) (simp_all add: err fold_showMessage)
qed

theorem SubscribeCommand_spec_witness:
  "ui_inbox (snd (SubscribeCommand_execute
     [(MemberJoined ''c'' ''i'' ''bob'', 5), (MemberJoined ''d'' ''i'' ''eve'', 6)] status_ok ''me'' '' c'' 10 presenter_init)) =
   [system_message ''c'' ''bob joined channel'' 5]"
proof -
  have t: "trim '' c'' = ''c''"
    by (simp add: trim_def trim_back.simps is_ascii_space_def)
  have "emitted ''c'' [(MemberJoined ''c'' ''i'' ''bob'', 5), (MemberJoined ''d'' ''i'' ''eve'', 6)] =
      [system_message ''c'' ''bob joined channel'' 5]"
    by (simp add: emitted_def shouldEmitEventForChannel_def event_to_inbox_def)
  then show ?thesis
    using SubscribeCommand_spec [of "[(MemberJoined ''c'' ''i'' ''bob'', 5), (MemberJoined ''d'' ''i'' ''eve'', 6)]"
      status_ok "''me''" "'' c''" 10 presenter_init] t by (simp add: presenter_init_def)
qed

end
