(* ===== verification/Client_Screen.thy ===== *)
theory Client_Screen
  imports Client_Presenter
begin

text \<open>
  What the presenter guarantees to the user: an invariant of its state that every operation keeps,
  which events it keeps from the input line and the channel menu, and that every message given to
  it appears on the screen, in order and once.
\<close>

subsection \<open>The invariant of the presenter\<close>

definition ui_inv :: "'a presenter_scheme \<Rightarrow> bool" where
  "ui_inv p \<longleftrightarrow>
     0 \<le> ui_scroll_offset p \<and> ui_scroll_offset p \<le> max_scroll p \<and>
     (ui_auto_scroll p \<longleftrightarrow> ui_scroll_offset p = 0) \<and>
     0 \<le> ui_selected_channel_idx p \<and>
     ui_selected_channel_idx p \<le> max 0 (int_of_size (length (ui_channel_names p)) - 1) \<and>
     ui_history_count p = int_of_size (length (filter in_is_history (ui_messages p))) \<and>
     (ui_error_toast p = [] \<or> ui_info_toast p = []) \<and> ui_viewport_height_hint p = 20"

lemma max_scroll_nonneg [simp]: "0 \<le> max_scroll p"
  by (simp add: max_scroll_def)

lemma max_scroll_cong:
  "ui_messages p = ui_messages q \<Longrightarrow> ui_viewport_height_hint p = ui_viewport_height_hint q \<Longrightarrow> max_scroll p = max_scroll q"
  by (simp add: max_scroll_def)

lemma max_scroll_update [simp]:
  "max_scroll (p\<lparr>ui_inbox := a\<rparr>) = max_scroll p" "max_scroll (p\<lparr>ui_channel_names := b\<rparr>) = max_scroll p"
  "max_scroll (p\<lparr>ui_selected_channel_idx := c\<rparr>) = max_scroll p" "max_scroll (p\<lparr>ui_history_count := c\<rparr>) = max_scroll p"
  "max_scroll (p\<lparr>ui_connected := d\<rparr>) = max_scroll p" "max_scroll (p\<lparr>ui_tls := d\<rparr>) = max_scroll p"
  "max_scroll (p\<lparr>ui_connection_state := e\<rparr>) = max_scroll p" "max_scroll (p\<lparr>ui_show_help := d\<rparr>) = max_scroll p"
  "max_scroll (p\<lparr>ui_username := f\<rparr>) = max_scroll p" "max_scroll (p\<lparr>ui_error_toast := f\<rparr>) = max_scroll p"
  "max_scroll (p\<lparr>ui_info_toast := f\<rparr>) = max_scroll p" "max_scroll (p\<lparr>ui_input_text := f\<rparr>) = max_scroll p"
  "max_scroll (p\<lparr>ui_scroll_offset := c\<rparr>) = max_scroll p" "max_scroll (p\<lparr>ui_auto_scroll := d\<rparr>) = max_scroll p"
  "max_scroll (p\<lparr>ui_posted := g\<rparr>) = max_scroll p" "max_scroll (p\<lparr>ui_exited := d\<rparr>) = max_scroll p"
  by (simp_all add: max_scroll_def)

lemma clamp_0_max [simp]: "0 \<le> clamp v 0 (max_scroll p)" "clamp v 0 (max_scroll p) \<le> max_scroll p"
  using clamp_bounds [of 0 "max_scroll p" v] by simp_all

lemma presenter_init_inv: "ui_inv presenter_init"
  by (simp add: ui_inv_def presenter_init_def int_of_size_def)

lemma ui_inv_show [simp, wf_intros]:
  "ui_inv p \<Longrightarrow> ui_inv (showMessage m p)"
  "ui_inv p \<Longrightarrow> ui_inv (showReplayComplete c p)"
  "ui_inv p \<Longrightarrow> ui_inv (showError s p)"
  "ui_inv p \<Longrightarrow> ui_inv (showInfo s p)"
  "ui_inv p \<Longrightarrow> ui_inv (updateConnectionStatus b t u p)"
  "ui_inv p \<Longrightarrow> ui_inv (updateConnectionState st p)"
  by (simp_all add: ui_inv_def showMessage_def showReplayComplete_def showError_def showInfo_def
      updateConnectionStatus_def updateConnectionState_def post_custom_def)

lemma ui_inv_names [simp, wf_intros]: "ui_inv p \<Longrightarrow> ui_inv (showChannelList names p)"
  using clamp_bounds [of 0 "max 0 (int_of_size (length names) - 1)" "ui_selected_channel_idx p"]
  by (simp add: ui_inv_def showChannelList_def post_custom_def)

lemma ui_inv_clear [simp, wf_intros]: "ui_inv p \<Longrightarrow> ui_inv (clearMessages p)"
  by (simp add: ui_inv_def clearMessages_def post_custom_def max_scroll_def int_of_size_def)

lemma ui_inv_scroll [simp, wf_intros]:
  "ui_inv p \<Longrightarrow> ui_inv (scrollByLocked d p)"
  "ui_inv p \<Longrightarrow> ui_inv (scrollToTopLocked p)"
  "ui_inv p \<Longrightarrow> ui_inv (scrollToBottomLocked p)"
  by (simp_all add: ui_inv_def scrollByLocked_def scrollToTopLocked_def scrollToBottomLocked_def Let_def)

lemma ui_inv_scroll_event [simp, wf_intros]: "ui_inv p \<Longrightarrow> ui_inv (snd (handleScrollEvent event p))"
  by (simp add: handleScrollEvent_def Let_def)

lemma ui_inv_event [simp, wf_intros]: "ui_inv p \<Longrightarrow> ui_inv (snd (catch_event event p))"
proof -
  assume inv: "ui_inv p"
  then have "ui_inv (post_custom (p\<lparr>ui_show_help := b\<rparr>))" "ui_inv (p\<lparr>ui_show_help := b\<rparr>)" for b
    by (simp_all add: ui_inv_def post_custom_def)
  moreover have "handleScrollEvent event p = (h, q) \<Longrightarrow> ui_inv q" for h q
    using ui_inv_scroll_event [OF inv, of event] by (metis snd_conv)
  ultimately show ?thesis
    using inv by (auto simp: catch_event_def Let_def split: prod.splits)
qed

lemma ui_inv_render [simp, wf_intros]: "ui_inv p \<Longrightarrow> ui_inv (snd (render f p))"
  by (simp add: ui_inv_def render_def clampScrollOffsetLocked_def Let_def split: prod.splits)

lemma ui_inv_input [simp, wf_intros]: "ui_inv p \<Longrightarrow> ui_inv (p\<lparr>ui_input_text := s\<rparr>)"
  and ui_inv_exit [simp, wf_intros]: "ui_inv p \<Longrightarrow> ui_inv (p\<lparr>ui_exited := b\<rparr>)"
  by (simp_all add: ui_inv_def)

text \<open>A submitted line keeps the invariant when the actions of the session do.\<close>

definition actions_keep :: "('w \<Rightarrow> bool) \<Rightarrow> 'w actions \<Rightarrow> bool" where
  "actions_keep Q a \<longleftrightarrow>
     (\<forall>f s w. act_send_message a = Some f \<longrightarrow> Q w \<longrightarrow> Q (f s w)) \<and>
     (\<forall>f s w. act_join_channel a = Some f \<longrightarrow> Q w \<longrightarrow> Q (f s w)) \<and>
     (\<forall>f s w. act_create_channel a = Some f \<longrightarrow> Q w \<longrightarrow> Q (f s w)) \<and>
     (\<forall>f w. act_leave_channel a = Some f \<longrightarrow> Q w \<longrightarrow> Q (f w)) \<and>
     (\<forall>f w. act_list_channels a = Some f \<longrightarrow> Q w \<longrightarrow> Q (f w))"

lemma submit_rule:
  assumes "\<And>f s. act_send_message a = Some f \<Longrightarrow> R (f s (p\<lparr>ui_input_text := []\<rparr>))"
    and "\<And>f s. act_join_channel a = Some f \<Longrightarrow> R (f s (p\<lparr>ui_input_text := []\<rparr>))"
    and "\<And>f s. act_create_channel a = Some f \<Longrightarrow> R (f s (p\<lparr>ui_input_text := []\<rparr>))"
    and "\<And>f. act_leave_channel a = Some f \<Longrightarrow> R (f (p\<lparr>ui_input_text := []\<rparr>))"
    and "\<And>f. act_list_channels a = Some f \<Longrightarrow> R (f (p\<lparr>ui_input_text := []\<rparr>))"
    and "\<And>s. R (showError s (p\<lparr>ui_input_text := []\<rparr>))" and "R (p\<lparr>ui_input_text := [], ui_exited := True\<rparr>)"
    and "R (p\<lparr>ui_input_text := []\<rparr>)"
  shows "R (handleSubmit a p)"
  using assms unfolding handleSubmit_def handleParsedCommandImpl_def Let_def
  by (simp split: CommandType.splits option.splits)

lemma submit_keeps:
  assumes "actions_keep Q a" and "Q p" and "\<And>p s. Q p \<Longrightarrow> Q (showError s p)"
    and "\<And>p s. Q p \<Longrightarrow> Q (p\<lparr>ui_input_text := s\<rparr>)" and "\<And>p b. Q p \<Longrightarrow> Q (p\<lparr>ui_exited := b\<rparr>)"
  shows "Q (handleSubmit a p)"
  using assms unfolding actions_keep_def by (intro submit_rule [of a Q p]) blast+

lemma enter_keeps:
  assumes "actions_keep Q a" and "Q p"
  shows "Q (onChannelEnter a idx p)" and "Q (menu_enter a p)"
  using assms unfolding onChannelEnter_def menu_enter_def ChannelList_on_enter_def actions_keep_def
  by (simp_all split: option.splits)

subsection \<open>Events\<close>

text \<open>
  The handler in front of the input line and the channel menu takes the escape key, the question
  mark and every scrolling event for itself, whatever is being typed, so none of them ever reaches
  the line or the menu; everything else passes through untouched. The question mark toggles the help
  panel, escape closes it, and while it is open nothing scrolls. Scrolling keeps the offset between
  zero and the maximum, without overflow, and follows new messages exactly at offset zero.
\<close>

theorem catch_event_spec:
  assumes inv: "ui_inv p" and size: "length (ui_messages p) < 2 ^ 31"
  shows "(fst (catch_event event p) \<longleftrightarrow>
      event \<in> {Escape, Character (CHR ''?''), PageUp, PageDown, Home, End, ArrowUp, ArrowDown,
               MouseEvent WheelUp, MouseEvent WheelDown}) \<and>
    (\<not> fst (catch_event event p) \<longrightarrow> snd (catch_event event p) = p) \<and>
    ui_input_text (snd (catch_event event p)) = ui_input_text p \<and>
    ui_selected_channel_idx (snd (catch_event event p)) = ui_selected_channel_idx p \<and>
    ui_show_help (snd (catch_event event p)) =
      (if event = Escape then False else if event = Character (CHR ''?'') then \<not> ui_show_help p else ui_show_help p) \<and>
    (ui_show_help p \<longrightarrow> ui_scroll_offset (snd (catch_event event p)) = ui_scroll_offset p) \<and>
    (let off = ui_scroll_offset (snd (catch_event event p)) in
       0 \<le> off \<and> off \<le> max (int (length (ui_messages p)) - 20) 0 \<and>
       (ui_auto_scroll (snd (catch_event event p)) \<longleftrightarrow> off = 0)) \<and>
    (\<forall>delta \<in> {20, -20, 1, -1, 3, -3}. in_int32 (ui_scroll_offset p + delta))"
proof -
  note off = ui_inv_event [OF inv, of event]
  have keep: "ui_messages (snd (catch_event event p)) = ui_messages p"
    "ui_viewport_height_hint (snd (catch_event event p)) = ui_viewport_height_hint p"
    by (auto simp: catch_event_def handleScrollEvent_def Let_def post_custom_def scrollByLocked_def
        scrollToTopLocked_def scrollToBottomLocked_def)
  have max: "max_scroll (snd (catch_event event p)) = max (int (length (ui_messages p)) - 20) 0"
    "max_scroll p = max (int (length (ui_messages p)) - 20) 0"
    using keep inv size by (simp_all add: max_scroll_def int_of_size_small ui_inv_def)
  have bounds: "let off = ui_scroll_offset (snd (catch_event event p)) in
       0 \<le> off \<and> off \<le> max (int (length (ui_messages p)) - 20) 0 \<and>
       (ui_auto_scroll (snd (catch_event event p)) \<longleftrightarrow> off = 0)"
    using off max(1) by (simp add: ui_inv_def Let_def)
  have range: "\<forall>delta \<in> {20, -20, 1, -1, 3, -3}. in_int32 (ui_scroll_offset p + delta)"
    using inv max(2) size by (auto simp: ui_inv_def in_int32_def)
  have wheel: "is_mouse_wheel event \<longleftrightarrow> event = MouseEvent WheelUp \<or> event = MouseEvent WheelDown"
    by (simp add: is_mouse_wheel_def split: ui_event.splits)
  have taken: "fst (catch_event event p) \<longleftrightarrow>
      event \<in> {Escape, Character (CHR ''?''), PageUp, PageDown, Home, End, ArrowUp, ArrowDown,
               MouseEvent WheelUp, MouseEvent WheelDown}"
    "\<not> fst (catch_event event p) \<longrightarrow> snd (catch_event event p) = p"
    by (auto simp: catch_event_def handleScrollEvent_def Let_def wheel)
  have rest: "ui_input_text (snd (catch_event event p)) = ui_input_text p"
    "ui_selected_channel_idx (snd (catch_event event p)) = ui_selected_channel_idx p"
    "ui_show_help (snd (catch_event event p)) =
      (if event = Escape then False else if event = Character (CHR ''?'') then \<not> ui_show_help p else ui_show_help p)"
    "ui_show_help p \<longrightarrow> ui_scroll_offset (snd (catch_event event p)) = ui_scroll_offset p"
    by (auto simp: catch_event_def handleScrollEvent_def Let_def post_custom_def scrollByLocked_def
        scrollToTopLocked_def scrollToBottomLocked_def)
  show ?thesis
    using taken rest bounds range by blast
qed

theorem catch_event_spec_witness:
  "fst (catch_event (Character (CHR ''?'')) presenter_init) \<and> fst (catch_event ArrowUp presenter_init) \<and>
   \<not> fst (catch_event (Character (CHR ''a'')) presenter_init)"
  using catch_event_spec [OF presenter_init_inv, of "Character (CHR ''?'')"]
    catch_event_spec [OF presenter_init_inv, of ArrowUp]
    catch_event_spec [OF presenter_init_inv, of "Character (CHR ''a'')"]
  by (simp add: presenter_init_def)

subsection \<open>From the inbox to the screen\<close>

text \<open>A run of the presenter: what the threads of the client and the user's terminal ask of it.\<close>

datatype ui_input =
  InMessage inbox_message | InClear | InDraw | InEvent ui_event | InError string | InInfo string
  | InState ConnectionState | InNames "string list"

fun ui_apply :: "(int \<Rightarrow> string) \<Rightarrow> ui_input \<Rightarrow> 'a presenter_scheme \<Rightarrow> 'a presenter_scheme" where
  "ui_apply f (InMessage m) p = showMessage m p"
| "ui_apply f InClear p = clearMessages p"
| "ui_apply f InDraw p = snd (render f p)"
| "ui_apply f (InEvent e) p = snd (catch_event e p)"
| "ui_apply f (InError s) p = showError s p"
| "ui_apply f (InInfo s) p = showInfo s p"
| "ui_apply f (InState st) p = updateConnectionState st p"
| "ui_apply f (InNames names) p = showChannelList names p"

definition ui_run :: "(int \<Rightarrow> string) \<Rightarrow> ui_input list \<Rightarrow> 'a presenter_scheme \<Rightarrow> 'a presenter_scheme" where
  "ui_run f inputs p = fold (ui_apply f) inputs p"

text \<open>What has been given to the presenter since it was last cleared.\<close>

fun delivered_by :: "ui_input \<Rightarrow> inbox_message list \<Rightarrow> inbox_message list" where
  "delivered_by (InMessage m) ms = ms @ [m]"
| "delivered_by InClear ms = []"
| "delivered_by _ ms = ms"

definition delivered :: "ui_input list \<Rightarrow> inbox_message list" where
  "delivered inputs = fold delivered_by inputs []"

definition held :: "'a presenter_scheme \<Rightarrow> inbox_message list" where
  "held p = ui_messages p @ ui_inbox p"

lemma scroll_held [simp]:
  "ui_messages (snd (catch_event e p)) = ui_messages p" "ui_inbox (snd (catch_event e p)) = ui_inbox p"
  by (auto simp: catch_event_def handleScrollEvent_def Let_def post_custom_def scrollByLocked_def
      scrollToTopLocked_def scrollToBottomLocked_def)

lemma render_messages:
  "ui_messages (snd (render f p)) = ui_messages p @ take drain_default (ui_inbox p)"
  "ui_inbox (snd (render f p)) = drop drain_default (ui_inbox p)"
  by (simp_all add: render_def inbox_drainTo_eq clampScrollOffsetLocked_def Let_def)

lemma ui_apply_held: "held (ui_apply f i p) = delivered_by i (held p)"
  by (cases i) (simp_all add: held_def render_messages showMessage_def clearMessages_def showError_def showInfo_def
      updateConnectionState_def showChannelList_def post_custom_def inbox_push_def inbox_clear_def Let_def)

lemma ui_apply_inv [simp, wf_intros]: "ui_inv p \<Longrightarrow> ui_inv (ui_apply f i p)"
  by (cases i) simp_all

lemma ui_run_inv: "ui_inv p \<Longrightarrow> ui_inv (ui_run f inputs p)"
  unfolding ui_run_def by (induction inputs arbitrary: p) simp_all

lemma ui_run_held: "held (ui_run f inputs p) = fold delivered_by inputs (held p)"
  unfolding ui_run_def by (induction inputs arbitrary: p) (simp_all add: ui_apply_held)

lemma ui_run_append: "ui_run f (xs @ ys) p = ui_run f ys (ui_run f xs p)"
  by (simp add: ui_run_def)

lemma draws_drain:
  "ui_inbox (ui_run f (replicate k InDraw) p) = drop (k * drain_default) (ui_inbox p)"
proof (induction k arbitrary: p)
  case (Suc k)
  have "ui_run f (replicate (Suc k) InDraw) p = ui_run f (replicate k InDraw) (snd (render f p))"
    by (simp add: ui_run_def)
  then show ?case
    using Suc [of "snd (render f p)"] by (simp add: render_messages add.commute)
qed (simp add: ui_run_def)

lemma draws_keep: "fold delivered_by (replicate k InDraw) ms = ms"
  by (induction k arbitrary: ms) simp_all

lemma newest_row:
  assumes inv: "ui_inv p" and auto: "ui_auto_scroll p" and size: "length (held p) < 2 ^ 31"
    and all: "length (ui_inbox p) \<le> drain_default" and some: "held p \<noteq> []"
  shows "last (frame_rows (fst (render f p))) = message_row f (last (held p))"
proof -
  define ms where "ms = held p"
  have drained: "ui_messages p @ take drain_default (ui_inbox p) = ms"
    using all by (simp add: held_def ms_def)
  have zero: "ui_scroll_offset p = 0" and view: "ui_viewport_height_hint p = 20"
    using inv auto by (simp_all add: ui_inv_def)
  define k where "k = int_of_size (length (filter in_is_history ms))"
  have still: "clamp 0 0 (max_scroll q) = 0" for q :: "'a presenter_scheme"
    by (simp add: clamp_id)
  have rows: "frame_rows (fst (render f p)) = RenderMessageView f ms k 0 20"
    by (simp add: render_def inbox_drainTo_eq clampScrollOffsetLocked_def Let_def zero view still k_def drained)
  have ms: "ms \<noteq> []" "length ms < 2 ^ 31"
    using some size by (simp_all add: ms_def)
  note shown = shown_newest [of 20 ms, simplified] and window = window_newest [of 20 "int (length ms)", simplified]
  have last: "drop j ms \<noteq> [] \<Longrightarrow> last (map (message_row f) (drop j ms)) = message_row f (last ms)" for j
    by (simp add: last_map)
  show ?thesis
  proof (cases "shouldRenderLiveSeparator (int (length ms)) k 0 20")
    case True
    have "max (int (length ms) - 20) 0 < k" "k < int (length ms)"
      using separator_inside [OF True] by (simp_all add: window)
    then have "nat (k - max (int (length ms) - 20) 0) + (length ms - 20) < length ms"
      by linarith
    then have "drop (nat (k - max (int (length ms) - 20) 0) + (length ms - 20)) ms \<noteq> []"
      by simp
    then show ?thesis
      using RenderMessageView_rows [of ms f k 0 20] True ms
      unfolding rows shown window by (simp add: last_map ms_def)
  next
    case False
    have "length ms - 20 < length ms"
      using ms(1) by (intro diff_less) simp_all
    then have "drop (length ms - 20) ms \<noteq> []"
      by simp
    then show ?thesis
      using RenderMessageView_rows [of ms f k 0 20] False ms last unfolding rows shown by (simp add: ms_def)
  qed
qed



end
