(* ===== verification/Client_Session.thy ===== *)
theory Client_Session
  imports Client_Gateway Client_Screen
begin

text \<open>
  The program of the terminal client (\<open>client-cli/src/main.cpp\<close>): the session that routes the
  user's actions to the use cases, the start-up, and the threads that report liveness and the state
  of the connection. The client's state extends the presenter's by the session's fields and the
  world behind the network. A callback of the user interface, a turn of the polling loop, one
  heartbeat and one report of the connection's state are one step each.
\<close>

record 'n client = presenter +
  cl_client_id :: string
  cl_replay_count :: "32 word"
  cl_active_channel_id :: string
  cl_subscriptions :: "string list"
  cl_polling_stop :: bool
  cl_heartbeat_stop :: bool
  cl_net :: 'n

definition call :: "('n \<Rightarrow> 'r \<times> 'n) \<Rightarrow> 'n client \<Rightarrow> 'r \<times> 'n client" where
  "call f c = (case f (cl_net c) of (r, n) \<Rightarrow> (r, c\<lparr>cl_net := n\<rparr>))"

subsection \<open>The session\<close>

definition sendMessage :: "'n stub \<Rightarrow> string \<Rightarrow> 'n client \<Rightarrow> 'n client" where
  "sendMessage G content c =
     (let channel_id = cl_active_channel_id c
      in if channel_id = [] then showError ''join a channel before sending'' c
         else (case call (SendMessageCommand_execute G (cl_client_id c) channel_id content) c of
                 (Inl e, c') \<Rightarrow> showError (error_message e) c'
               | (Inr _, c') \<Rightarrow> c'))"

definition listChannels :: "'n stub \<Rightarrow> 'n client \<Rightarrow> 'n client" where
  "listChannels G c =
     (case call (gateway_listChannels G) c of
        (Inl e, c') \<Rightarrow> showError (error_message e) c'
      | (Inr channels, c') \<Rightarrow> showChannelList (map info_name channels) c')"

fun first_named :: "string \<Rightarrow> channel_info list \<Rightarrow> string result" where
  "first_named trimmed_name [] = unexpected ChannelNotFound"
| "first_named trimmed_name (channel # rest) =
     (if info_name channel = trimmed_name then Inr (info_id channel) else first_named trimmed_name rest)"

definition resolveChannelIdByName :: "'n stub \<Rightarrow> string \<Rightarrow> 'n client \<Rightarrow> string result \<times> 'n client" where
  "resolveChannelIdByName G name c =
     (let trimmed_name = trim name
      in case call (gateway_listChannels G) c of
           (Inl e, c') \<Rightarrow> (unexpected e, c')
         | (Inr channels, c') \<Rightarrow> (first_named trimmed_name channels, c'))"

text \<open>
  Joining: which channel was entered, if any; then, when the active channel changed, a line for the
  user and a thread that subscribes to the channel. \<open>now_ms\<close> is the system clock.
\<close>

definition enter_channel :: "'n stub \<Rightarrow> int \<Rightarrow> string \<Rightarrow> string \<Rightarrow> 'n client \<Rightarrow> 'n client" where
  "enter_channel G now_ms trimmed_name resolved_channel_id c =
     (let previous = cl_active_channel_id c;
          c1 = c\<lparr>cl_active_channel_id := resolved_channel_id\<rparr>
      in if previous = resolved_channel_id then listChannels G c1
         else
           let c2 = showMessage (system_message resolved_channel_id (''connected to channel '' @ trimmed_name) now_ms) c1;
               c3 = c2\<lparr>cl_subscriptions := cl_subscriptions c2 @ [resolved_channel_id]\<rparr>
           in listChannels G c3)"

definition joinChannel :: "'n stub \<Rightarrow> int \<Rightarrow> string \<Rightarrow> 'n client \<Rightarrow> 'n client" where
  "joinChannel G now_ms name c =
     (let trimmed_name = trim name
      in if trimmed_name = [] then showError ''usage: /join <channel>'' c
         else (case call (JoinChannelCommand_execute G (cl_client_id c) trimmed_name) c of
                 (Inr channel_id, c1) \<Rightarrow>
                   enter_channel G now_ms trimmed_name channel_id (showInfo (''joined channel: '' @ trimmed_name) c1)
               | (Inl e, c1) \<Rightarrow>
                   if e = AlreadyMember
                   then (case resolveChannelIdByName G trimmed_name c1 of
                           (Inl e', c2) \<Rightarrow> showError (error_message e') c2
                         | (Inr channel_id, c2) \<Rightarrow>
                             enter_channel G now_ms trimmed_name channel_id
                               (showInfo (''already in channel: '' @ trimmed_name) c2))
                   else showError (error_message e) c1))"

definition createChannel :: "'n stub \<Rightarrow> string \<Rightarrow> 'n client \<Rightarrow> 'n client" where
  "createChannel G name c =
     (let trimmed_name = trim name
      in if trimmed_name = [] then showError ''usage: /create <channel>'' c
         else (case call (CreateChannelCommand_execute G (cl_client_id c) trimmed_name) c of
                 (Inl e, c') \<Rightarrow> showError (error_message e) c'
               | (Inr _, c') \<Rightarrow>
                   showInfo (''channel created: '' @ trimmed_name @ '' (use /join to enter)'') (listChannels G c')))"

definition leaveChannel :: "'n stub \<Rightarrow> 'n client \<Rightarrow> 'n client" where
  "leaveChannel G c =
     (let channel_id = cl_active_channel_id c;
          c1 = c\<lparr>cl_active_channel_id := []\<rparr>
      in if channel_id = [] then showError ''no active channel'' c1
         else (case call (gateway_leaveChannel G (cl_client_id c1) channel_id) c1 of
                 (Inl e, c2) \<Rightarrow> showError (error_message e) c2
               | (Inr _, c2) \<Rightarrow> c2))"

definition disconnect :: "'n stub \<Rightarrow> 'n client \<Rightarrow> 'n client" where
  "disconnect G c =
     (let c1 = c\<lparr>cl_heartbeat_stop := True, cl_polling_stop := True\<rparr>;
          c2 = updateConnectionState Closed c1
      in snd (call (gateway_disconnect G (cl_client_id c2)) c2))"

definition runSubscription ::
  "(channel_event \<times> int) list \<Rightarrow> grpc_status \<Rightarrow> string \<Rightarrow> 'n client \<Rightarrow> 'n client" where
  "runSubscription reads status channel_id c =
     snd (SubscribeCommand_execute reads status (cl_client_id c) channel_id (cl_replay_count c) c)"

text \<open>
  One turn of the heartbeat thread after its pause; \<open>stop_before\<close> and \<open>stop_after\<close> say whether a stop
  was requested when it looked before and after the call.
\<close>

definition runHeartbeat :: "'n stub \<Rightarrow> bool \<Rightarrow> bool \<Rightarrow> 'n client \<Rightarrow> 'n client" where
  "runHeartbeat G stop_before stop_after c =
     (if stop_before then c
      else (case call (SendHeartbeatCommand_execute G (cl_client_id c)) c of
              (result, c1) \<Rightarrow>
                if stop_after then c1
                else (case result of
                        Inr _ \<Rightarrow> updateConnectionState Connected c1
                      | Inl _ \<Rightarrow> updateConnectionState NetworkFailure c1)))"

definition poll_channels :: "'n stub \<Rightarrow> 'n client \<Rightarrow> 'n client" where
  "poll_channels G c = (if cl_polling_stop c then c else listChannels G c)"

definition session_actions :: "'n stub \<Rightarrow> int \<Rightarrow> 'n client actions" where
  "session_actions G now_ms =
     \<lparr>act_send_message = Some (sendMessage G), act_join_channel = Some (joinChannel G now_ms),
      act_create_channel = Some (createChannel G), act_leave_channel = Some (leaveChannel G),
      act_list_channels = Some (listChannels G)\<rparr>"

subsection \<open>Start-up\<close>

definition client_log_level :: "bool \<Rightarrow> bool \<Rightarrow> LogLevel" where
  "client_log_level quiet verbose = (if quiet then Warn else if verbose then Debug else Info)"

datatype credentials = InsecureCredentials | SslCredentials string

text \<open>A file that cannot be opened reads as an empty one.\<close>

definition read_file :: "files \<Rightarrow> string \<Rightarrow> string" where
  "read_file files path = (case files path of None \<Rightarrow> [] | Some buffer \<Rightarrow> buffer)"

definition build_credentials :: "files \<Rightarrow> bool \<Rightarrow> string \<Rightarrow> credentials option" where
  "build_credentials files insecure ca_cert_path =
     (if insecure then Some InsecureCredentials
      else if ca_cert_path \<noteq> []
      then (let pem_root_certs = read_file files ca_cert_path
            in if pem_root_certs = [] then None else Some (SslCredentials pem_root_certs))
      else Some (SslCredentials []))"

record client_args =
  carg_server_address :: string
  carg_username :: string
  carg_ca_cert_path :: string
  carg_insecure :: bool
  carg_replay_count :: "32 word"
  carg_verbose :: bool
  carg_quiet :: bool

datatype 'n client_start =
    ClientExit int 'n
  | ClientRunning string credentials LogLevel "'n client"

definition new_client_session :: "presenter \<Rightarrow> string \<Rightarrow> 32 word \<Rightarrow> 'n \<Rightarrow> 'n client" where
  "new_client_session p client_id replay_count n =
     presenter.extend p
       \<lparr>cl_client_id = client_id, cl_replay_count = replay_count, cl_active_channel_id = [],
        cl_subscriptions = [], cl_polling_stop = False, cl_heartbeat_stop = False, cl_net = n\<rparr>"

definition client_run :: "'n stub \<Rightarrow> files \<Rightarrow> client_args \<Rightarrow> 'n \<Rightarrow> 'n client_start" where
  "client_run G files a n =
     (let server_address = trim_copy (carg_server_address a);
          name = trim_copy (carg_username a);
          ca_cert_path = trim_copy (carg_ca_cert_path a)
      in case build_credentials files (carg_insecure a) ca_cert_path of
           None \<Rightarrow> ClientExit 1 n
         | Some credentials \<Rightarrow>
             (case ConnectToServer_execute G name n of
                (Inl e, n1) \<Rightarrow> ClientExit 1 n1
              | (Inr client_id, n1) \<Rightarrow>
                  let p = updateConnectionStatus True (\<not> carg_insecure a) name presenter_init;
                      c = new_client_session p client_id (carg_replay_count a) n1
                  in ClientRunning server_address credentials
                       (client_log_level (carg_quiet a) (carg_verbose a)) (listChannels G c)))"

text \<open>The watcher of the channel's connectivity, for the states the gRPC library reports.\<close>

datatype grpc_channel_state = ChannelReady | ChannelConnecting | ChannelIdle | ChannelTransientFailure | ChannelShutdown

definition watcher_start :: "grpc_channel_state \<Rightarrow> 'a presenter_scheme \<Rightarrow> 'a presenter_scheme" where
  "watcher_start state p = (if state \<noteq> ChannelReady then updateConnectionState Connecting p else p)"

fun watcher_report :: "grpc_channel_state \<Rightarrow> 'a presenter_scheme \<Rightarrow> 'a presenter_scheme" where
  "watcher_report ChannelReady p = p"
| "watcher_report ChannelConnecting p = updateConnectionState Connecting p"
| "watcher_report ChannelIdle p = updateConnectionState Connecting p"
| "watcher_report ChannelTransientFailure p = updateConnectionState NetworkFailure p"
| "watcher_report ChannelShutdown p = updateConnectionState Closed p"

text \<open>One turn of its loop: \<open>changed\<close> is the answer of \<open>WaitForStateChange\<close>.\<close>

definition watcher_turn ::
  "bool \<Rightarrow> bool \<Rightarrow> grpc_channel_state \<Rightarrow> grpc_channel_state \<times> 'a presenter_scheme \<Rightarrow>
   grpc_channel_state \<times> 'a presenter_scheme" where
  "watcher_turn stop_requested changed new_state s =
     (case s of (state, p) \<Rightarrow>
        if stop_requested then (state, p)
        else if \<not> changed then (state, p)
        else (new_state, watcher_report new_state p))"

text \<open>\<open>FtxuiPresenter::run\<close> calls back once when its loop has ended.\<close>

definition presenter_quit :: "('w \<Rightarrow> 'w) option \<Rightarrow> 'w \<Rightarrow> int \<times> 'w" where
  "presenter_quit on_quit w = (0, case on_quit of None \<Rightarrow> w | Some f \<Rightarrow> f w)"

end
