(* ===== verification/Client_Contract.thy ===== *)
theory Client_Contract
  imports Client_Session
begin

text \<open>
  What the session of the client relies on in the server, as a locale: when the client is known and
  calls are answered, a join by name either enters the named channel or changes nothing, leaving the
  current channel succeeds, and creating and sending do not move the client. Under this contract the
  channel the session takes for active is the one the server has the client in.
\<close>

definition agrees :: "string \<Rightarrow> ('n \<Rightarrow> bool) \<Rightarrow> ('n \<Rightarrow> string option) \<Rightarrow> 'n client \<Rightarrow> bool" where
  "agrees me ok at c \<longleftrightarrow> ok (cl_net c) \<and> cl_client_id c = me \<and>
     cl_active_channel_id c = (case at (cl_net c) of None \<Rightarrow> [] | Some channel_id \<Rightarrow> channel_id)"

lemma session_fields_show [simp]:
  "cl_net (showError s c) = cl_net c" "cl_client_id (showError s c) = cl_client_id c"
  "cl_active_channel_id (showError s c) = cl_active_channel_id c"
  "cl_net (showInfo s c) = cl_net c" "cl_client_id (showInfo s c) = cl_client_id c"
  "cl_active_channel_id (showInfo s c) = cl_active_channel_id c"
  "cl_net (showChannelList names c) = cl_net c" "cl_client_id (showChannelList names c) = cl_client_id c"
  "cl_active_channel_id (showChannelList names c) = cl_active_channel_id c"
  "cl_net (showMessage m c) = cl_net c" "cl_client_id (showMessage m c) = cl_client_id c"
  "cl_active_channel_id (showMessage m c) = cl_active_channel_id c"
  "cl_subscriptions (showError s c) = cl_subscriptions c" "cl_subscriptions (showInfo s c) = cl_subscriptions c"
  "cl_subscriptions (showMessage m c) = cl_subscriptions c" "cl_subscriptions (showChannelList names c) = cl_subscriptions c"
  by (simp_all add: showError_def showInfo_def showChannelList_def showMessage_def post_custom_def Let_def)

locale chat_gateway =
  fixes G :: "'n stub" and me :: string and ok fresh :: "'n \<Rightarrow> bool" and at :: "'n \<Rightarrow> string option"
  assumes list_law: "ok n \<Longrightarrow> \<exists>infos. gateway_listChannels G n = (Inr infos, n)"
    and join_law: "ok n \<Longrightarrow> gateway_joinChannelByName G me name n = (r, n') \<Longrightarrow>
      ok n' \<and> at n' = (case r of Inl e \<Rightarrow> at n | Inr channel_id \<Rightarrow> Some channel_id) \<and> r \<noteq> Inl AlreadyMember"
    and leave_law: "ok n \<Longrightarrow> at n = Some channel_id \<Longrightarrow> gateway_leaveChannel G me channel_id n = (left, n') \<Longrightarrow>
      ok n' \<and> left = Inr () \<and> at n' = None"
    and create_law: "ok n \<Longrightarrow> fresh n \<Longrightarrow> gateway_createChannel G me name n = (r, n') \<Longrightarrow> ok n' \<and> at n' = at n"
    and send_law: "ok n \<Longrightarrow> fresh n \<Longrightarrow> gateway_sendMessage G me channel_id content n = (r, n') \<Longrightarrow>
      ok n' \<and> at n' = at n"
    and at_law: "ok n \<Longrightarrow> at n \<noteq> Some []"
begin

lemma agrees_show [simp]:
  "agrees me ok at (showError s c) = agrees me ok at c"
  "agrees me ok at (showInfo s c) = agrees me ok at c"
  "agrees me ok at (showChannelList names c) = agrees me ok at c"
  "agrees me ok at (showMessage m c) = agrees me ok at c"
  "agrees me ok at (c\<lparr>cl_subscriptions := ss\<rparr>) = agrees me ok at c"
  "agrees me ok at (c\<lparr>ui_input_text := s\<rparr>) = agrees me ok at c"
  "agrees me ok at (c\<lparr>ui_input_text := s, ui_exited := b\<rparr>) = agrees me ok at c"
  by (simp_all add: agrees_def)

lemma listed:
  assumes "ok (cl_net c)"
  shows "\<exists>names. listChannels G c = showChannelList names c"
proof -
  obtain infos where infos: "gateway_listChannels G (cl_net c) = (Inr infos, cl_net c)"
    using list_law [OF assms] by blast
  have "call (gateway_listChannels G) c = (Inr infos, c)"
    by (simp add: call_def infos)
  then have "listChannels G c = showChannelList (map info_name infos) c"
    by (simp add: listChannels_def)
  then show ?thesis ..
qed

lemma agrees_list: "agrees me ok at c \<Longrightarrow> agrees me ok at (listChannels G c)"
  using listed [of c] by (auto simp: agrees_def)

lemma agrees_enter:
  assumes "ok (cl_net c)" and "cl_client_id c = me" and "at (cl_net c) = Some channel_id"
  shows "agrees me ok at (enter_channel G t name channel_id c)"
proof -
  have "agrees me ok at (c\<lparr>cl_active_channel_id := channel_id\<rparr>)"
    using assms by (simp add: agrees_def)
  then show ?thesis
    by (simp add: enter_channel_def Let_def agrees_list)
qed

lemma agrees_join:
  assumes "agrees me ok at c"
  shows "agrees me ok at (joinChannel G t name c)"
proof -
  obtain r n' where join: "gateway_joinChannelByName G me (trim name) (cl_net c) = (r, n')" by fastforce
  have c: "ok (cl_net c)" "cl_client_id c = me"
    using assms by (simp_all add: agrees_def)
  note law = join_law [OF c(1) join]
  have step: "call (JoinChannelCommand_execute G me (trim name)) c = (r, c\<lparr>cl_net := n'\<rparr>)"
    by (simp add: call_def JoinChannelCommand_execute_def join)
  show ?thesis
  proof (cases r)
    case (Inl e)
    then show ?thesis
      using law assms by (simp add: joinChannel_def Let_def c(2) step) (simp add: agrees_def)
  next
    case (Inr channel_id)
    then show ?thesis
      using law assms c by (simp add: joinChannel_def Let_def step agrees_enter)
  qed
qed

lemma agrees_send:
  assumes "agrees me ok at c" and "fresh (cl_net c)"
  shows "agrees me ok at (sendMessage G content c)"
proof -
  obtain r n' where send: "gateway_sendMessage G me (cl_active_channel_id c) content (cl_net c) = (r, n')" by fastforce
  have c: "ok (cl_net c)" "cl_client_id c = me"
    using assms by (simp_all add: agrees_def)
  have "call (SendMessageCommand_execute G (cl_client_id c) (cl_active_channel_id c) content) c = (r, c\<lparr>cl_net := n'\<rparr>)"
    by (simp add: call_def SendMessageCommand_execute_def c send)
  then show ?thesis
    using send_law [OF c(1) assms(2) send] assms(1)
    by (cases r) (simp_all add: sendMessage_def Let_def, simp_all add: agrees_def)
qed

lemma agrees_create:
  assumes "agrees me ok at c" and "fresh (cl_net c)"
  shows "agrees me ok at (createChannel G name c)"
proof -
  obtain r n' where create: "gateway_createChannel G me (trim name) (cl_net c) = (r, n')" by fastforce
  have c: "ok (cl_net c)" "cl_client_id c = me"
    using assms by (simp_all add: agrees_def)
  have step: "call (CreateChannelCommand_execute G (cl_client_id c) (trim name)) c = (r, c\<lparr>cl_net := n'\<rparr>)"
    by (simp add: call_def CreateChannelCommand_execute_def c create)
  have "agrees me ok at (c\<lparr>cl_net := n'\<rparr>)"
    using create_law [OF c(1) assms(2) create] assms(1) by (simp add: agrees_def)
  then show ?thesis
    using assms(1) by (cases r) (simp_all add: createChannel_def Let_def step agrees_list)
qed

lemma agrees_leave:
  assumes "agrees me ok at c"
  shows "agrees me ok at (leaveChannel G c)"
proof (cases "at (cl_net c)")
  case None
  then show ?thesis
    using assms by (simp add: leaveChannel_def Let_def agrees_def)
next
  case (Some channel_id)
  obtain r n' where leave: "gateway_leaveChannel G me channel_id (cl_net c) = (r, n')" by fastforce
  have c: "ok (cl_net c)" "cl_client_id c = me" "cl_active_channel_id c = channel_id"
    using assms Some by (simp_all add: agrees_def)
  have "channel_id \<noteq> []"
    using at_law [OF c(1)] Some by auto
  then have "leaveChannel G c = c\<lparr>cl_active_channel_id := [], cl_net := n'\<rparr>"
    using leave_law [OF c(1) Some leave] leave c by (simp add: leaveChannel_def Let_def call_def)
  then show ?thesis
    using leave_law [OF c(1) Some leave] c by (simp add: agrees_def)
qed

lemma agrees_submit:
  assumes "agrees me ok at c" and "fresh (cl_net c)"
  shows "agrees me ok at (handleSubmit (session_actions G t) c)"
proof -
  let ?c = "c\<lparr>ui_input_text := []\<rparr>"
  have c: "agrees me ok at ?c" "fresh (cl_net ?c)"
    using assms by simp_all
  have "agrees me ok at (?c\<lparr>ui_exited := True\<rparr>)"
    using c(1) by (simp add: agrees_def)
  note results = this c(1) agrees_send [OF c] agrees_create [OF c] agrees_join [OF c(1)] agrees_leave [OF c(1)]
    agrees_list [OF c(1)]
  show ?thesis
    by (rule submit_rule [where R = "agrees me ok at"])
      (use results in \<open>auto simp: session_actions_def\<close>)
qed

end

end
