(* ===== verification/Client_System.thy ===== *)
theory Client_System
  imports Client_Session
begin

text \<open>
  The running terminal client as a transition system. A step is one callback of the user interface,
  one event of a subscription, one turn of a background thread, or an edit of the input line or the
  menu's selection by the user interface library. The world behind the network is arbitrary and may
  change between any two steps, so the invariant holds whatever the server does.
\<close>

inductive client_step :: "'n stub \<Rightarrow> 'n client \<Rightarrow> 'n client \<Rightarrow> bool" for G :: "'n stub" where
  typing: "client_step G c (c\<lparr>ui_input_text := text\<rparr>)"
| select: "0 \<le> idx \<Longrightarrow> idx \<le> max 0 (int_of_size (length (ui_channel_names c)) - 1) \<Longrightarrow>
    client_step G c (c\<lparr>ui_selected_channel_idx := idx\<rparr>)"
| key: "client_step G c (snd (catch_event event c))"
| submit: "client_step G c (handleSubmit (session_actions G now_ms) c)"
| enter: "client_step G c (menu_enter (session_actions G now_ms) c)"
| draw: "client_step G c (snd (render f c))"
| event: "channel_id \<in> set (cl_subscriptions c) \<Longrightarrow>
    client_step G c (on_event (trim_copy channel_id) event now_ms showMessage c)"
| stream_ends: "channel_id \<in> set (cl_subscriptions c) \<Longrightarrow> client_step G c (showError text c)"
| poll: "client_step G c (poll_channels G c)"
| heartbeat: "client_step G c (runHeartbeat G stop_before stop_after c)"
| watch: "client_step G c (watcher_report state c)"
| quit: "client_step G c (snd (presenter_quit (Some (disconnect G)) c))"
| world: "client_step G c (c\<lparr>cl_net := n\<rparr>)"

definition client_starts :: "'n stub \<Rightarrow> 'n client \<Rightarrow> bool" where
  "client_starts G c \<longleftrightarrow>
     (\<exists>files a n address creds level c0 state.
        client_run G files a n = ClientRunning address creds level c0 \<and> c = watcher_start state c0)"

definition no_history :: "'a presenter_scheme \<Rightarrow> bool" where
  "no_history p \<longleftrightarrow> (\<forall>m\<in>set (ui_messages p @ ui_inbox p). \<not> in_is_history m)"

definition client_inv :: "'n client \<Rightarrow> bool" where
  "client_inv c \<longleftrightarrow> ui_inv c \<and> no_history c \<and>
     (cl_active_channel_id c \<noteq> [] \<longrightarrow> cl_active_channel_id c \<in> set (cl_subscriptions c))"

subsection \<open>Each operation keeps the invariant\<close>

lemma ui_inv_session [simp]:
  "ui_inv ((c :: 'n client)\<lparr>cl_net := n\<rparr>) = ui_inv c" "ui_inv ((c :: 'n client)\<lparr>cl_active_channel_id := s\<rparr>) = ui_inv c"
  "ui_inv ((c :: 'n client)\<lparr>cl_subscriptions := ss\<rparr>) = ui_inv c" "ui_inv ((c :: 'n client)\<lparr>cl_polling_stop := b\<rparr>) = ui_inv c"
  "ui_inv ((c :: 'n client)\<lparr>cl_heartbeat_stop := b\<rparr>) = ui_inv c"
  by (simp_all add: ui_inv_def max_scroll_def)

lemmas show_defs = showError_def showInfo_def showMessage_def showChannelList_def updateConnectionState_def
  updateConnectionStatus_def post_custom_def inbox_push_def Let_def

lemma client_inv_show [simp, wf_intros]:
  "client_inv c \<Longrightarrow> client_inv (showError s c)"
  "client_inv c \<Longrightarrow> client_inv (showInfo s c)"
  "client_inv c \<Longrightarrow> client_inv (showChannelList names c)"
  "client_inv c \<Longrightarrow> client_inv (updateConnectionState st c)"
  unfolding client_inv_def no_history_def by (simp_all, simp_all add: show_defs)

lemma client_inv_message: "client_inv c \<Longrightarrow> \<not> in_is_history m \<Longrightarrow> client_inv (showMessage m c)"
  unfolding client_inv_def no_history_def by (simp, simp add: show_defs)

lemma client_inv_fields [simp, wf_intros]:
  "client_inv c \<Longrightarrow> client_inv (c\<lparr>cl_net := n\<rparr>)"
  "client_inv c \<Longrightarrow> client_inv (c\<lparr>cl_polling_stop := b\<rparr>)"
  "client_inv c \<Longrightarrow> client_inv (c\<lparr>cl_heartbeat_stop := b\<rparr>)"
  "client_inv c \<Longrightarrow> client_inv (c\<lparr>cl_active_channel_id := []\<rparr>)"
  "client_inv c \<Longrightarrow> client_inv (c\<lparr>ui_input_text := s\<rparr>)"
  "client_inv c \<Longrightarrow> client_inv (c\<lparr>ui_exited := b\<rparr>)"
  by (simp_all add: client_inv_def no_history_def)

lemma client_inv_call:
  "client_inv c \<Longrightarrow> (\<And>r c'. client_inv c' \<Longrightarrow> client_inv (g r c')) \<Longrightarrow> client_inv (case call f c of (r, c') \<Rightarrow> g r c')"
  by (cases "f (cl_net c)") (simp add: call_def)

lemma client_inv_result:
  "(\<And>e. client_inv (a e)) \<Longrightarrow> (\<And>x. client_inv (b x)) \<Longrightarrow> client_inv (case r of Inl e \<Rightarrow> a e | Inr x \<Rightarrow> b x)"
  by (cases r) simp_all

lemma client_inv_if: "(b \<Longrightarrow> client_inv c) \<Longrightarrow> (\<not> b \<Longrightarrow> client_inv d) \<Longrightarrow> client_inv (if b then c else d)"
  by simp

lemmas client_inv_cases = client_inv_call client_inv_result client_inv_if client_inv_show client_inv_fields

lemma system_message_live [simp]: "\<not> in_is_history (system_message channel_id text t)"
  by (simp add: system_message_def)

lemma client_inv_list: "client_inv c \<Longrightarrow> client_inv (listChannels G c)"
  unfolding listChannels_def by (intro client_inv_cases)

lemma client_inv_enter:
  assumes "client_inv c"
  shows "client_inv (enter_channel G t name channel_id c)"
proof (cases "cl_active_channel_id c = channel_id")
  case True
  then have "enter_channel G t name channel_id c = listChannels G c"
    by (simp add: enter_channel_def flip: True)
  then show ?thesis
    using assms by (simp add: client_inv_list)
next
  case False
  let ?m = "system_message channel_id (''connected to channel '' @ name) t"
  have "client_inv (showMessage ?m (c\<lparr>cl_active_channel_id := channel_id\<rparr>)
      \<lparr>cl_subscriptions := cl_subscriptions (showMessage ?m (c\<lparr>cl_active_channel_id := channel_id\<rparr>)) @ [channel_id]\<rparr>)"
  proof -
    have "ui_inv (showMessage ?m (c\<lparr>cl_active_channel_id := channel_id\<rparr>))"
      using assms by (simp add: client_inv_def)
    then show ?thesis
      using assms by (simp add: client_inv_def no_history_def) (simp add: show_defs)
  qed
  then show ?thesis
    using False by (simp add: enter_channel_def Let_def client_inv_list)
qed

lemma client_inv_resolve:
  assumes "client_inv c" and g: "\<And>r c'. client_inv c' \<Longrightarrow> client_inv (g r c')"
  shows "client_inv (case resolveChannelIdByName G s c of (r, c') \<Rightarrow> g r c')"
proof -
  have "client_inv (snd (resolveChannelIdByName G s c))"
    using assms(1) by (simp add: resolveChannelIdByName_def call_def Let_def split: prod.split sum.split)
  then show ?thesis
    by (cases "resolveChannelIdByName G s c") (simp add: g)
qed

lemma client_inv_actions: "actions_keep client_inv (session_actions G t)"
proof -
  have send: "client_inv c \<Longrightarrow> client_inv (sendMessage G s c)" for s c
    unfolding sendMessage_def Let_def by (intro client_inv_cases)
  have join: "client_inv c \<Longrightarrow> client_inv (joinChannel G t s c)" for s c
    unfolding joinChannel_def Let_def by (intro client_inv_cases client_inv_enter client_inv_resolve)
  have create: "client_inv c \<Longrightarrow> client_inv (createChannel G s c)" for s c
    unfolding createChannel_def Let_def by (intro client_inv_cases client_inv_list)
  have leave: "client_inv c \<Longrightarrow> client_inv (leaveChannel G c)" for c
    unfolding leaveChannel_def Let_def by (intro client_inv_cases)
  show ?thesis
    using send join create leave client_inv_list by (auto simp: actions_keep_def session_actions_def)
qed

lemma client_inv_render: "client_inv c \<Longrightarrow> client_inv (snd (render f c))"
proof -
  assume inv: "client_inv c"
  have "cl_active_channel_id (snd (render f c)) = cl_active_channel_id c"
    "cl_subscriptions (snd (render f c)) = cl_subscriptions c"
    by (simp_all add: render_def clampScrollOffsetLocked_def Let_def split: prod.splits)
  then show ?thesis
    using inv by (auto simp: client_inv_def no_history_def render_messages dest: in_set_takeD in_set_dropD)
qed

lemma client_inv_key: "client_inv c \<Longrightarrow> client_inv (snd (catch_event event c))"
proof -
  assume inv: "client_inv c"
  have "cl_active_channel_id (snd (catch_event event c)) = cl_active_channel_id c"
    "cl_subscriptions (snd (catch_event event c)) = cl_subscriptions c"
    by (auto simp: catch_event_def handleScrollEvent_def Let_def post_custom_def scrollByLocked_def
        scrollToTopLocked_def scrollToBottomLocked_def)
  then show ?thesis
    using inv by (simp add: client_inv_def no_history_def)
qed


lemma client_inv_event:
  assumes "client_inv c"
  shows "client_inv (on_event channel_id event now_ms showMessage c)"
  using assms client_inv_message [OF assms] event_to_inbox_live [of now_ms event]
  by (cases "event_to_inbox now_ms event") (simp_all add: on_event_def)

lemma client_inv_heartbeat: "client_inv c \<Longrightarrow> client_inv (runHeartbeat G b b' c)"
  unfolding runHeartbeat_def by (intro client_inv_cases)

lemma client_inv_disconnect: "client_inv c \<Longrightarrow> client_inv (disconnect G c)"
  by (simp add: disconnect_def Let_def call_def split: prod.split)

lemma client_inv_watch: "client_inv c \<Longrightarrow> client_inv (watcher_report state c)"
  by (cases state) simp_all

lemma client_inv_submit: "client_inv c \<Longrightarrow> client_inv (handleSubmit (session_actions G t) c)"
  by (rule submit_keeps [OF client_inv_actions]) simp_all


lemma client_inv_step:
  assumes "client_inv c" and "client_step G c d"
  shows "client_inv d"
  using assms(2,1)
proof cases
  case (select idx)
  then show ?thesis
    using assms(1) by (auto simp: client_inv_def no_history_def ui_inv_def)
next
  case (enter t)
  then show ?thesis
    using assms(1) by (simp add: enter_keeps(2) [OF client_inv_actions])
next
  case poll
  then show ?thesis
    using assms(1) by (simp add: poll_channels_def client_inv_list)
next
  case quit
  then show ?thesis
    using assms(1) by (simp add: presenter_quit_def client_inv_disconnect)
qed (use assms(1) in \<open>simp_all add: client_inv_key client_inv_submit client_inv_render client_inv_event
    client_inv_heartbeat client_inv_watch\<close>)

text \<open>A frame without history has no separator.\<close>

lemma no_separator: "LiveSeparator \<notin> set (RenderMessageView f ms 0 off h)"
proof -
  have "LiveSeparator \<notin> set (view_rows f xs 0 False idx limit)" for xs idx limit
    using view_rows_before [of idx xs 0 limit False f] by (simp add: message_row_def image_iff)
  then show ?thesis
    by (simp add: RenderMessageView_def shouldRenderLiveSeparator_def Let_def)
qed

lemma render_history:
  "frame_rows (fst (render f p)) =
     RenderMessageView f (ui_messages (snd (render f p)))
       (int_of_size (length (filter in_is_history (ui_messages (snd (render f p))))))
       (ui_scroll_offset (snd (render f p))) (ui_viewport_height_hint (snd (render f p)))"
  by (simp add: render_def clampScrollOffsetLocked_def Let_def split: prod.split)

lemma client_inv_start:
  assumes "client_starts G c"
  shows "client_inv c"
proof -
  obtain files a n address creds level c0 state
    where run: "client_run G files a n = ClientRunning address creds level c0" and c: "c = watcher_start state c0"
    using assms by (auto simp: client_starts_def)
  obtain i k b t u n' where c0: "c0 = listChannels G (new_client_session (updateConnectionStatus b t u presenter_init) i k n')"
    using run by (auto simp: client_run_def Let_def split: option.splits prod.splits sum.splits)
  have "client_inv (new_client_session (updateConnectionStatus b t u presenter_init) i k n')"
    by (simp add: client_inv_def no_history_def new_client_session_def updateConnectionStatus_def post_custom_def
        presenter.defs presenter_init_def ui_inv_def max_scroll_def int_of_size_def)
  then show ?thesis
    by (simp add: c c0 watcher_start_def client_inv_list)
qed

interpretation client_system: invariant_system "client_starts G" "client_step G" client_inv for G
  by unfold_locales (fact client_inv_start, rule client_inv_step)


text \<open>A world in which every call succeeds, with one channel.\<close>

definition demo_stub :: "unit stub" where
  "demo_stub = \<lparr>stub_Connect = (\<lambda>name n. ((status_ok, ''me''), n)), stub_Disconnect = (\<lambda>i n. (status_ok, n)),
     stub_ListChannels = (\<lambda>n. ((status_ok, [\<lparr>sum_id = ''c1'', sum_name = ''general'', sum_member_count = 0\<rparr>]), n)),
     stub_CreateChannel = (\<lambda>i name n. ((status_ok, ''c2'', name), n)), stub_JoinChannel = (\<lambda>i c n. (status_ok, n)),
     stub_LeaveChannel = (\<lambda>i c n. (status_ok, n)), stub_SendMessage = (\<lambda>i c s n. ((status_ok, ''m''), n)),
     stub_Heartbeat = (\<lambda>i n. (status_ok, n))\<rparr>"

definition demo_client_args :: client_args where
  "demo_client_args = \<lparr>carg_server_address = ''localhost:50051'', carg_username = ''alice'', carg_ca_cert_path = [],
     carg_insecure = True, carg_replay_count = 10, carg_verbose = False, carg_quiet = False\<rparr>"

definition demo_client0 :: "unit client" where
  "demo_client0 = listChannels demo_stub
     (new_client_session (updateConnectionStatus True False ''alice'' presenter_init) ''me'' 10 ())"

lemma demo_client_starts: "client_starts demo_stub demo_client0"
proof -
  have "client_run demo_stub (\<lambda>path. None) demo_client_args () =
      ClientRunning (trim ''localhost:50051'') InsecureCredentials Info demo_client0"
  proof -
    have t: "trim ''alice'' = ''alice''"
      by (simp add: trim_def trim_back.simps is_ascii_space_def)
    show ?thesis
      by (simp add: client_run_def demo_client_args_def build_credentials_def ConnectToServer_execute_def
          gateway_connect_def status_is_ok_def status_ok_def client_log_level_def demo_client0_def t)
        (simp add: demo_stub_def status_is_ok_def status_ok_def client_log_level_def)
  qed
  moreover have "demo_client0 = watcher_start ChannelReady demo_client0"
    by (simp add: watcher_start_def)
  ultimately show ?thesis
    unfolding client_starts_def by blast
qed


end
