(* ===== verification/Client_Server.thy ===== *)
theory Client_Server
  imports Client_Contract Client_System System_Invariant
begin

text \<open>
  Client and server together: the stub that reaches the server's procedures directly, at one instant
  with the next identifier and the two clocks given. The server is shown to keep the contract the
  session relies on, for a client it knows; other clients may act in between.
\<close>

definition server_stub :: "'u platform \<Rightarrow> 'u \<Rightarrow> int \<Rightarrow> int \<Rightarrow> server stub" where
  "server_stub P u system_now steady_now =
     \<lparr>stub_Connect = Connect P u system_now steady_now,
      stub_Disconnect = Disconnect P,
      stub_ListChannels = (\<lambda>srv. (ListChannels srv, srv)),
      stub_CreateChannel = CreateChannel P u system_now,
      stub_JoinChannel = JoinChannel P,
      stub_LeaveChannel = LeaveChannel P,
      stub_SendMessage = SendMessage P u system_now,
      stub_Heartbeat = Heartbeat P steady_now\<rparr>"

text \<open>Every channel has a canonical identifier, as the generated ones are.\<close>

definition rooms_canonical :: "'u platform \<Rightarrow> server \<Rightarrow> bool" where
  "rooms_canonical P srv \<longleftrightarrow>
     (\<forall>c. room (abs_chat srv) c \<noteq> None \<longrightarrow> strong_id_parse P (trim (id_value c)) = Some c)"

definition knows :: "'u platform \<Rightarrow> string \<Rightarrow> client_id \<Rightarrow> server \<Rightarrow> bool" where
  "knows P me i srv \<longleftrightarrow> uuid_contract P \<and> server_inv P srv \<and> rooms_canonical P srv \<and>
     strong_id_parse P (trim me) = Some i \<and> user (abs_chat srv) i \<noteq> None"

definition whereabouts :: "client_id \<Rightarrow> server \<Rightarrow> string option" where
  "whereabouts i srv = map_option id_value (place (abs_chat srv) i)"

lemma knowsD:
  assumes "knows P me i srv"
  shows "uuid_contract P" "server_inv P srv" "rooms_canonical P srv"
    "strong_id_parse P (trim me) = Some i" "user (abs_chat srv) i \<noteq> None"
  using assms by (simp_all add: knows_def del: abs_chat_sel)

lemma status_is_ok_simps [simp]: "status_is_ok status_ok" "\<not> status_is_ok (errorToStatus e)"
  by (simp add: status_is_ok_def status_ok_def) (cases e; simp add: status_is_ok_def)

lemma statusToError_status:
  "statusToError (errorToStatus e) =
     (if e = InvalidArgument then InvalidChannelName
      else if e = StorageError \<or> e = NotImplemented then NetworkError else e)"
  by (cases e) (simp_all add: statusToError_def starts_with_def)

lemma knows_place:
  assumes "knows P me i srv" and "server_inv P srv'" and "room (abs_chat srv') = room (abs_chat srv)"
    and "user (abs_chat srv') i = user (abs_chat srv) i"
  shows "knows P me i srv'"
  using assms by (simp add: knows_def rooms_canonical_def del: abs_chat_sel)

subsection \<open>The calls against the server\<close>

lemma list_server:
  "gateway_listChannels (server_stub P u t t') srv =
     (Inr (map (channel_info_of \<circ> channel_summary_of) (channels_listAll (srv_channels srv))), srv)"
  by (simp add: gateway_listChannels_def server_stub_def ListChannels_def ListChannels_execute_def)

lemma info_fields [simp]:
  "info_id (channel_info_of (channel_summary_of ch)) = id_value (chan_id ch)"
  "info_name (channel_info_of (channel_summary_of ch)) = channel_name_value (chan_name ch)"
  by (simp_all add: channel_info_of_def channel_summary_of_def)

lemma join_server:
  assumes known: "knows P me i srv" and room: "room (abs_chat srv) c \<noteq> None"
  obtains srv' where "gateway_joinChannel (server_stub P u t t') me (id_value c) srv = (Inr (), srv')"
    and "server_inv P srv'" and "abs_chat srv' = (abs_chat srv)\<lparr>place := (place (abs_chat srv))(i \<mapsto> c)\<rparr>"
proof -
  note k = knowsD [OF known]
  have c: "strong_id_parse P (trim (id_value c)) = Some c"
    using k(3) room by (simp add: rooms_canonical_def del: abs_chat_sel)
  obtain r srv' where run: "JoinChannel_execute P i c srv = (r, srv')" by fastforce
  have "(r, abs_chat srv') = chat_join i c (abs_chat srv)" and inv: "server_inv P srv'"
    using JoinChannel_refines(1,2) [OF k(2), of i c] by (simp_all add: run del: abs_chat_sel)
  then have r: "r = Inr ()" and abs: "abs_chat srv' = (abs_chat srv)\<lparr>place := (place (abs_chat srv))(i \<mapsto> c)\<rparr>"
    using k(5) room by (simp_all add: chat_join_def del: abs_chat_sel)
  have "gateway_joinChannel (server_stub P u t t') me (id_value c) srv = (Inr (), srv')"
    by (simp add: gateway_joinChannel_def server_stub_def JoinChannel_def k(4) c run r)
  then show thesis using inv abs that by blast
qed

lemma join_listed_find:
  "join_listed G me name infos n =
     (case find (\<lambda>x. info_name x = name) infos of
        None \<Rightarrow> (unexpected ChannelNotFound, n)
      | Some x \<Rightarrow>
          (case gateway_joinChannel G me (info_id x) n of
             (Inl e, n') \<Rightarrow> (unexpected e, n') | (Inr _, n') \<Rightarrow> (Inr (info_id x), n')))"
  by (induction G me name infos n rule: join_listed.induct) auto

text \<open>Joining by name enters the one room with that name; without one nothing happens.\<close>

lemma join_by_name_server:
  assumes known: "knows P me i srv"
  shows "(\<exists>c srv'. room (abs_chat srv) c = Some (ChannelName (trim name)) \<and>
      gateway_joinChannelByName (server_stub P u t t') me name srv = (Inr (id_value c), srv') \<and>
      server_inv P srv' \<and> abs_chat srv' = (abs_chat srv)\<lparr>place := (place (abs_chat srv))(i \<mapsto> c)\<rparr>) \<or>
    (\<not> name_taken (ChannelName (trim name)) (abs_chat srv) \<and>
      gateway_joinChannelByName (server_stub P u t t') me name srv = (Inl ChannelNotFound, srv))"
proof -
  let ?chs = "channels_listAll (srv_channels srv)"
  let ?infos = "map (channel_info_of \<circ> channel_summary_of) ?chs"
  note k = knowsD [OF known]
  note listed = set_listAll [OF server_invD(3) [OF k(2)]]
  show ?thesis
  proof (cases "find (\<lambda>x. info_name x = trim name) ?infos")
    case None
    have "\<not> name_taken (ChannelName (trim name)) (abs_chat srv)"
    proof
      assume "name_taken (ChannelName (trim name)) (abs_chat srv)"
      then obtain c where "room (abs_chat srv) c = Some (ChannelName (trim name))"
        by (auto simp: name_taken_def simp del: abs_chat_sel)
      then obtain ch where ch: "channel_at (srv_channels srv) (id_value c) = Some ch" "chan_name ch = ChannelName (trim name)"
        by auto
      then have "ch \<in> set ?chs"
        using channels_wf_entity [OF server_invD(3) [OF k(2)] ch(1)] by (simp add: listed)
      then show False
        using None ch(2) by (auto simp: find_None_iff image_iff)
    qed
    then show ?thesis
      using None by (simp add: gateway_joinChannelByName_def list_server join_listed_find Let_def)
  next
    case (Some x)
    then have "x \<in> set ?infos" "info_name x = trim name"
      by (auto simp: find_Some_iff)
    then obtain ch where ch: "ch \<in> set ?chs" and x: "x = channel_info_of (channel_summary_of ch)"
      and name: "channel_name_value (chan_name ch) = trim name"
      by auto
    have at: "channel_at (srv_channels srv) (id_value (chan_id ch)) = Some ch"
      using ch by (simp add: listed)
    then have room: "room (abs_chat srv) (chan_id ch) = Some (ChannelName (trim name))"
      using name by (simp flip: name)
    then obtain srv' where "gateway_joinChannel (server_stub P u t t') me (id_value (chan_id ch)) srv = (Inr (), srv')"
      "server_inv P srv'" "abs_chat srv' = (abs_chat srv)\<lparr>place := (place (abs_chat srv))(i \<mapsto> chan_id ch)\<rparr>"
      by (metis join_server [OF known] option.distinct(1))
    then show ?thesis
      using Some x room by (auto simp: gateway_joinChannelByName_def list_server join_listed_find Let_def simp del: abs_chat_sel)
  qed
qed

lemma leave_server:
  assumes known: "knows P me i srv" and here: "place (abs_chat srv) i = Some c"
  obtains srv' where "gateway_leaveChannel (server_stub P u t t') me (id_value c) srv = (Inr (), srv')"
    and "server_inv P srv'" and "abs_chat srv' = (abs_chat srv)\<lparr>place := (place (abs_chat srv))(i := None)\<rparr>"
proof -
  note k = knowsD [OF known]
  have room: "room (abs_chat srv) c \<noteq> None"
    using server_invD(6) [OF k(2)] here by (auto simp: membership_wf_def)
  then have c: "strong_id_parse P (trim (id_value c)) = Some c"
    using k(3) by (simp add: rooms_canonical_def del: abs_chat_sel)
  obtain r srv' where run: "LeaveChannel_execute P i c srv = (r, srv')" by fastforce
  have "(r, abs_chat srv') = chat_leave i c (abs_chat srv)" and inv: "server_inv P srv'"
    using LeaveChannel_refines(1,2) [OF k(2), of i c] by (simp_all add: run del: abs_chat_sel)
  then have r: "r = Inr ()" and abs: "abs_chat srv' = (abs_chat srv)\<lparr>place := (place (abs_chat srv))(i := None)\<rparr>"
    using k(5) room here by (simp_all add: chat_leave_def del: abs_chat_sel)
  have "gateway_leaveChannel (server_stub P u t t') me (id_value c) srv = (Inr (), srv')"
    by (simp add: gateway_leaveChannel_def server_stub_def LeaveChannel_def k(4) c run r)
  then show thesis using inv abs that by blast
qed

lemma create_server:
  assumes known: "knows P me i srv" and fresh: "fresh_uuid P u srv"
    and run: "gateway_createChannel (server_stub P u t t') me name srv = (r, srv')"
  shows "knows P me i srv'" and "place (abs_chat srv') = place (abs_chat srv)"
proof -
  note k = knowsD [OF known]
  obtain x srv1 where exec: "CreateChannel_execute P u t i (trim name) srv = (x, srv1)" by fastforce
  have f: "fresh_uuid P u srv" "\<not> uuid_is_nil P u"
    using fresh by (simp_all add: fresh_uuid_def)
  have srv': "srv' = srv1"
    using run by (simp add: gateway_createChannel_def server_stub_def CreateChannel_def k(4) exec Let_def
        split: sum.splits)
  have inv: "server_inv P srv1" and refines: "(x, abs_chat srv1) =
      (if user (abs_chat srv) i = None then (Inl ClientNotFound, abs_chat srv)
       else if \<not> valid_channel_name (trim (trim name)) then (Inl InvalidChannelName, abs_chat srv)
       else chat_create (strong_id_generate P u) (ChannelName (trim (trim name))) (abs_chat srv))"
    using CreateChannel_refines(1,2) [OF k(2) f(1), of t i "trim name"] by (simp_all add: exec del: abs_chat_sel)
  let ?c = "strong_id_generate P u :: channel_id"
  have "strong_id_parse P (trim (id_value ?c)) = Some ?c"
    using k(1) f(2) by (simp add: strong_id_generate_def trim_uuid_text strong_id_parse_uuid_text)
  then have "rooms_canonical P srv1"
    using refines k(3) by (auto simp: rooms_canonical_def chat_create_def simp del: abs_chat_sel split: if_splits)
  moreover have "user (abs_chat srv1) = user (abs_chat srv)" and place: "place (abs_chat srv1) = place (abs_chat srv)"
    using refines by (auto simp: chat_create_def simp del: abs_chat_sel split: if_splits)
  ultimately show "knows P me i srv'" and "place (abs_chat srv') = place (abs_chat srv)"
    using k inv by (simp_all add: knows_def srv' del: abs_chat_sel)
qed

lemma send_server:
  assumes known: "knows P me i srv" and fresh: "fresh_uuid P u srv"
    and run: "gateway_sendMessage (server_stub P u t t') me channel_id text srv = (r, srv')"
  shows "knows P me i srv'" and "place (abs_chat srv') = place (abs_chat srv)"
proof -
  note k = knowsD [OF known]
  have "server_inv P srv' \<and> room (abs_chat srv') = room (abs_chat srv) \<and> user (abs_chat srv') = user (abs_chat srv) \<and>
      place (abs_chat srv') = place (abs_chat srv)"
  proof (cases "strong_id_parse P (trim channel_id) :: channel_id option")
    case None
    then have "srv' = srv"
      using run by (simp add: gateway_sendMessage_def server_stub_def SendMessage_def k(4) del: errorToStatus.simps)
    then show ?thesis using k(2) by (simp del: abs_chat_sel)
  next
    case (Some c)
    obtain x srv1 where exec: "SendMessage_execute P u t i c (trim text) IncludeSender srv = (x, srv1)" by fastforce
    have "srv' = srv1"
      using run by (simp add: gateway_sendMessage_def server_stub_def SendMessage_def k(4) Some exec split: sum.splits)
    moreover have "server_inv P srv1" and "(x, abs_chat srv1) =
        chat_send P u t (unat (repo_cap (srv_messages srv))) i c (trim text) (abs_chat srv)"
      using SendMessage_refines(1,2) [OF k(2) fresh, of t i c "trim text" IncludeSender] by (simp_all add: exec del: abs_chat_sel)
    ultimately show ?thesis
      by (auto simp: chat_send_def chat_post_def Let_def simp del: abs_chat_sel split: if_splits sum.splits)
  qed
  then show "knows P me i srv'" and "place (abs_chat srv') = place (abs_chat srv)"
    using knows_place [OF known, of srv'] by (simp_all del: abs_chat_sel)
qed

lemma id_not_empty:
  assumes "knows P me i srv" and "room (abs_chat srv) c \<noteq> None"
  shows "id_value c \<noteq> []"
proof -
  have "strong_id_parse P (trim (id_value c)) = Some c"
    using assms by (simp add: knows_def rooms_canonical_def del: abs_chat_sel)
  then obtain u where "c = strong_id_generate P u"
    by (rule strong_id_parse_SomeE)
  then show ?thesis
    using uuid_text_length [of P u] knowsD(1) [OF assms(1)] by (auto simp: strong_id_generate_def)
qed

lemma place_room: "server_inv P srv \<Longrightarrow> place (abs_chat srv) i = Some c \<Longrightarrow> room (abs_chat srv) c \<noteq> None"
  using server_invD(6) [of P srv] by (auto simp: membership_wf_def)

text \<open>The server keeps the contract of the session.\<close>

interpretation chat_server:
  chat_gateway "server_stub P u t t'" me "knows P me i" "fresh_uuid P u" "whereabouts i" for P u t t' me i
proof unfold_locales
  fix srv assume known: "knows P me i srv"
  show "\<exists>infos. gateway_listChannels (server_stub P u t t') srv = (Inr infos, srv)"
    by (simp add: list_server)
  show "whereabouts i srv \<noteq> Some []"
    using id_not_empty [OF known] place_room [OF knowsD(2) [OF known]] by (auto simp: whereabouts_def simp del: abs_chat_sel)
next
  fix srv name r srv'
  assume known: "knows P me i srv" and run: "gateway_joinChannelByName (server_stub P u t t') me name srv = (r, srv')"
  show "knows P me i srv' \<and> whereabouts i srv' =
      (case r of Inl e \<Rightarrow> whereabouts i srv | Inr channel_id \<Rightarrow> Some channel_id) \<and> r \<noteq> Inl AlreadyMember"
    using join_by_name_server [OF known, of name u t t'] known run
    by (auto simp: whereabouts_def simp del: abs_chat_sel intro: knows_place [OF known])
next
  fix srv channel_id r srv'
  assume known: "knows P me i srv" and here: "whereabouts i srv = Some channel_id"
    and run: "gateway_leaveChannel (server_stub P u t t') me channel_id srv = (r, srv')"
  obtain c where c: "place (abs_chat srv) i = Some c" "channel_id = id_value c"
    using here by (auto simp: whereabouts_def simp del: abs_chat_sel)
  obtain srv1 where "gateway_leaveChannel (server_stub P u t t') me (id_value c) srv = (Inr (), srv1)"
    "server_inv P srv1" "abs_chat srv1 = (abs_chat srv)\<lparr>place := (place (abs_chat srv))(i := None)\<rparr>"
    by (rule leave_server [OF known c(1)])
  then show "knows P me i srv' \<and> r = Inr () \<and> whereabouts i srv' = None"
    using run c(2) by (auto simp: whereabouts_def simp del: abs_chat_sel intro: knows_place [OF known])
next
  fix srv name r srv'
  assume "knows P me i srv" and "fresh_uuid P u srv"
    and "gateway_createChannel (server_stub P u t t') me name srv = (r, srv')"
  from create_server [OF this] show "knows P me i srv' \<and> whereabouts i srv' = whereabouts i srv"
    by (simp add: whereabouts_def del: abs_chat_sel)
next
  fix srv channel_id content r srv'
  assume "knows P me i srv" and "fresh_uuid P u srv"
    and "gateway_sendMessage (server_stub P u t t') me channel_id content srv = (r, srv')"
  from send_server [OF this] show "knows P me i srv' \<and> whereabouts i srv' = whereabouts i srv"
    by (simp add: whereabouts_def del: abs_chat_sel)
qed

subsection \<open>Properties\<close>


lemma demo_knows: "knows demo_platform (demo_text U2) demo_alice demo_server"
proof -
  have "rooms_canonical demo_platform demo_server"
    by (auto simp: rooms_canonical_def demo_server_inv(2) simp del: abs_chat_sel split: if_splits)
  then show ?thesis
    using demo_contract demo_server_inv(1) by (simp add: knows_def demo_server_inv(2) del: abs_chat_sel)
qed

definition demo_joined :: "string \<Rightarrow> server client" where
  "demo_joined line = (new_client_session presenter_init (demo_text U2) 10 demo_server)
     \<lparr>cl_active_channel_id := demo_text U1, ui_input_text := line\<rparr>"

lemma demo_joined_fields [simp]:
  "cl_net (demo_joined line) = demo_server" "cl_client_id (demo_joined line) = demo_text U2"
  "cl_active_channel_id (demo_joined line) = demo_text U1" "ui_input_text (demo_joined line) = line"
  by (simp_all add: demo_joined_def new_client_session_def presenter.defs)


text \<open>
  C12: typing \<open>/join\<close> and the name of an existing channel works end to end. The server moves the client
  into the channel with that name, also when the name has the form of a UUID; the session makes it
  the active channel and subscribes to it unless it already was; the user is told so, the line is
  cleared and the channel list is refreshed.
\<close>

theorem typed_join_spec:
  fixes t t' now_ms :: int and u :: 'u
  assumes known: "knows P me i (cl_net c)" and me: "cl_client_id c = me"
    and line: "trim (ui_input_text c) = join_prefix @ n"
    and room: "room (abs_chat (cl_net c)) ch = Some (ChannelName n)"
  defines "d \<equiv> handleSubmit (session_actions (server_stub P u t t') now_ms) c"
  shows "abs_chat (cl_net d) = (abs_chat (cl_net c))\<lparr>place := (place (abs_chat (cl_net c)))(i \<mapsto> ch)\<rparr> \<and>
    cl_active_channel_id d = id_value ch \<and>
    cl_subscriptions d = cl_subscriptions c @ (if cl_active_channel_id c = id_value ch then [] else [id_value ch]) \<and>
    ui_info_toast d = ''joined channel: '' @ n \<and> ui_error_toast d = [] \<and> ui_input_text d = [] \<and>
    n \<in> set (ui_channel_names d)"
proof -
  let ?G = "server_stub P u t t'"
  note k = knowsD [OF known]
  obtain x where x: "channel_at (srv_channels (cl_net c)) (id_value ch) = Some x" "chan_name x = ChannelName n"
    using room by auto
  have "valid_channel_name n"
    using channels_wf_entity [OF server_invD(3) [OF k(2)] x(1)] x(2) by (simp add: channel_ok_def)
  then have n: "trim n = n" "n \<noteq> []" "trimmed n"
    using trim_valid_channel_name [of n] trimmed_trim [of n] by (auto simp: valid_channel_name_def)
  obtain srv' where join: "gateway_joinChannelByName ?G me n (cl_net c) = (Inr (id_value ch), srv')"
    and inv: "server_inv P srv'"
    and srv': "abs_chat srv' = (abs_chat (cl_net c))\<lparr>place := (place (abs_chat (cl_net c)))(i \<mapsto> ch)\<rparr>"
    using join_by_name_server [OF known, of n u t t'] room inv_names(1) [OF k(2)] n
    by (auto simp: name_taken_def simp del: abs_chat_sel)
  define c1 where "c1 = showInfo (''joined channel: '' @ n) (c\<lparr>ui_input_text := [], cl_net := srv'\<rparr>)"
  define names where "names = map (channel_name_value \<circ> chan_name) (channels_listAll (srv_channels srv'))"
  have d: "d = enter_channel ?G now_ms n (id_value ch) c1"
    using parse_join(1) [OF n(3,2)] n me
    by (simp add: d_def handleSubmit_def Let_def line handleParsedCommandImpl_def session_actions_def
        joinChannel_def JoinChannelCommand_execute_def call_def join c1_def)
  have list: "listChannels ?G y = showChannelList names y" if "cl_net y = srv'" for y
    by (simp add: listChannels_def call_def list_server names_def comp_def flip: that)
  have "room (abs_chat srv') ch = Some (ChannelName n)"
    using room by (simp add: srv' del: abs_chat_sel)
  then obtain x' where x': "channel_at (srv_channels srv') (id_value ch) = Some x'" "chan_name x' = ChannelName n"
    by auto
  have "x' \<in> set (channels_listAll (srv_channels srv'))"
    using x' channels_wf_entity [OF server_invD(3) [OF inv] x'(1)] set_listAll [OF server_invD(3) [OF inv]] by simp
  then have "n \<in> set names"
    using x'(2) by (force simp: names_def image_iff)
  moreover have fields: "cl_net c1 = srv'" "cl_active_channel_id c1 = cl_active_channel_id c" "cl_subscriptions c1 = cl_subscriptions c"
    "ui_info_toast c1 = ''joined channel: '' @ n" "ui_error_toast c1 = []" "ui_input_text c1 = []"
    by (simp_all add: c1_def, simp_all add: showInfo_def post_custom_def)
  moreover have names_kept: "ui_channel_names (showChannelList names y) = names" "ui_info_toast (showChannelList names y) = ui_info_toast y"
    "ui_error_toast (showChannelList names y) = ui_error_toast y" "ui_input_text (showChannelList names y) = ui_input_text y"
    "ui_input_text (showMessage m y) = ui_input_text y"
    for y :: "server client" and m
    by (simp_all add: showChannelList_def showMessage_def post_custom_def Let_def)
  ultimately show ?thesis
    by (simp add: d enter_channel_def Let_def list srv' del: abs_chat_sel)
qed

theorem typed_join_spec_witness:
  "cl_active_channel_id (handleSubmit (session_actions (server_stub demo_platform U3 0 0) 0)
     (demo_joined ''/join general'')) = demo_text U1"
proof -
  have "trim ''/join general'' = join_prefix @ ''general''"
    by (simp add: trim_def trim_back.simps is_ascii_space_def join_prefix_def)
  moreover have "room (abs_chat demo_server) demo_room = Some (ChannelName ''general'')"
    by (simp add: demo_server_inv(2) del: abs_chat_sel)
  ultimately show ?thesis
    using typed_join_spec [of demo_platform "demo_text U2" demo_alice "demo_joined ''/join general''" "''general''" demo_room U3 0 0 0]
      demo_knows by simp
qed

end
