(* ===== verification/Emissions.thy ===== *)
theory Emissions
  imports Name_Records
begin

text \<open>
  Which events the use cases write, and to whom. An event of the channel streams is true in a state
  when its channel exists, the name it carries is the recorded name of the client it names, and its
  content is valid; it is told to a stream when that stream belongs to a client that is in the
  event's channel and the sender of a message is in it too. Every use case writes only events that are true and told, in the state before or
  after it; what it writes to the channel lists describes existing channels.
\<close>

subsection \<open>True events\<close>

fun event_channel :: "channel_event \<Rightarrow> string option" where
  "event_channel (MessageEv m) = Some (ev_channel_id m)"
| "event_channel (MemberJoined c i n) = Some c"
| "event_channel (MemberLeft c i n) = Some c"
| "event_channel (ChannelClosed c reason) = Some c"
| "event_channel EventNotSet = None"

fun event_true :: "server \<Rightarrow> channel_event \<Rightarrow> bool" where
  "event_true srv (MessageEv m) \<longleftrightarrow>
     room (abs_chat srv) (StrongId (ev_channel_id m)) \<noteq> None \<and>
     names srv (ev_sender_id m) = Some (Username (ev_sender_name m)) \<and> valid_content (ev_content m)"
| "event_true srv (MemberJoined c i n) \<longleftrightarrow>
     room (abs_chat srv) (StrongId c) \<noteq> None \<and> names srv i = Some (Username n)"
| "event_true srv (MemberLeft c i n) \<longleftrightarrow>
     room (abs_chat srv) (StrongId c) \<noteq> None \<and> names srv i = Some (Username n)"
| "event_true srv (ChannelClosed c reason) \<longleftrightarrow> False"
| "event_true srv EventNotSet \<longleftrightarrow> False"

definition summary_true :: "server \<Rightarrow> channel_summary \<Rightarrow> bool" where
  "summary_true srv x \<longleftrightarrow> room (abs_chat srv) (StrongId (sum_id x)) = Some (ChannelName (sum_name x))"

fun list_event_true :: "server \<Rightarrow> channel_list_event \<Rightarrow> bool" where
  "list_event_true srv (Snapshot xs) \<longleftrightarrow> list_all (summary_true srv) xs"
| "list_event_true srv (ChannelCreated x) \<longleftrightarrow> summary_true srv x"
| "list_event_true srv (MemberCountChanged c n) \<longleftrightarrow> room (abs_chat srv) (StrongId c) \<noteq> None"
| "list_event_true srv ListEventNotSet \<longleftrightarrow> False"

definition told :: "server \<Rightarrow> writer \<Rightarrow> channel_event \<Rightarrow> bool" where
  "told srv w ev \<longleftrightarrow> event_true srv ev \<and>
     (\<exists>j c. live (srv_publisher srv) (id_value j) = Some w \<and> event_channel ev = Some (id_value c) \<and>
        place (abs_chat srv) j = Some c) \<and>
     (\<forall>m. ev = MessageEv m \<longrightarrow>
        place (abs_chat srv) (StrongId (ev_sender_id m)) = Some (StrongId (ev_channel_id m)))"

text \<open>What was recorded stays recorded: rooms keep their names, clients keep theirs.\<close>

definition remembers :: "server \<Rightarrow> server \<Rightarrow> bool" where
  "remembers srv srv' \<longleftrightarrow>
     (\<forall>c n. room (abs_chat srv) c = Some n \<longrightarrow> room (abs_chat srv') c = Some n) \<and>
     (\<forall>k n. names srv k = Some n \<longrightarrow> names srv' k = Some n)"

lemma remembers_refl [simp]: "remembers srv srv"
  by (simp add: remembers_def)

lemma remembers_trans: "remembers a b \<Longrightarrow> remembers b c \<Longrightarrow> remembers a c"
  by (simp add: remembers_def)

lemma remembers_same:
  "room (abs_chat srv') = room (abs_chat srv) \<Longrightarrow> names srv' = names srv \<Longrightarrow> remembers srv srv'"
  by (simp add: remembers_def del: abs_chat_sel)

lemma remembers_true:
  assumes "remembers srv srv'"
  shows "event_true srv ev \<Longrightarrow> event_true srv' ev" and "list_event_true srv lev \<Longrightarrow> list_event_true srv' lev"
proof -
  have room: "room (abs_chat srv) c \<noteq> None \<Longrightarrow> room (abs_chat srv') c \<noteq> None" for c
    using assms unfolding remembers_def by (metis not_None_eq)
  show "event_true srv ev \<Longrightarrow> event_true srv' ev"
    using assms room by (cases ev) (auto simp: remembers_def simp del: abs_chat_sel)
  have "summary_true srv x \<Longrightarrow> summary_true srv' x" for x
    using assms by (simp add: remembers_def summary_true_def del: abs_chat_sel)
  then show "list_event_true srv lev \<Longrightarrow> list_event_true srv' lev"
    using room by (cases lev) (auto simp: list.pred_mono_strong simp del: abs_chat_sel)
qed

lemma told_mono:
  assumes "told srv1 w ev" and "remembers srv1 srv"
    and "\<And>j c. place (abs_chat srv1) j = Some c \<Longrightarrow> place (abs_chat srv) j = Some c"
    and "\<And>k v. live (srv_publisher srv1) k = Some v \<Longrightarrow> live (srv_publisher srv) k = Some v"
  shows "told srv w ev"
  using assms(1,3,4) remembers_true(1) [OF assms(2)] unfolding told_def by blast

subsection \<open>What is written\<close>

definition emits :: "(writer \<Rightarrow> 'ev \<Rightarrow> bool) \<Rightarrow> 'ev writer_table \<Rightarrow> 'ev writer_table \<Rightarrow> bool" where
  "emits A t t' \<longleftrightarrow> (\<exists>new. written t' = written t @ new \<and> (\<forall>(w, ev)\<in>set new. A w ev))"

lemma emits_same: "written t' = written t \<Longrightarrow> emits A t t'"
  by (simp add: emits_def)

lemma emits_refl [simp]: "emits A t t"
  by (simp add: emits_same)

lemma emits_trans: "emits A t t' \<Longrightarrow> emits A t' t'' \<Longrightarrow> emits A t t''"
  unfolding emits_def by (metis Un_iff append.assoc set_append)

lemma emits_mono: "emits A t t' \<Longrightarrow> (\<And>w ev. A w ev \<Longrightarrow> B w ev) \<Longrightarrow> emits B t t'"
  unfolding emits_def by blast

lemma emits_elem:
  assumes "emits A t t'" and "(w, ev) \<in> set (written t')"
  shows "(w, ev) \<in> set (written t) \<or> A w ev"
  using assms by (auto simp: emits_def)

lemma emits_written: "emits A t t' \<Longrightarrow> written t'' = written t' \<Longrightarrow> emits A t t''"
  by (simp add: emits_def)

lemma emits_members:
  assumes "table_wf P t" and "\<And>k w. live t k = Some w \<Longrightarrow> StrongId k \<in> set rs \<Longrightarrow> A w ev"
  shows "emits A t (fold (write_entry ev) (member_targets P rs (writers t) []) t)"
  using assms(2) by (auto simp: emits_def written_member_targets [OF assms(1)] set_live_targets)

lemma emits_all:
  assumes "table_wf P t" and "\<And>w. A w ev"
  shows "emits A t (fold (write_entry ev) (all_targets (writers t) []) t)"
  using assms(2) by (auto simp: emits_def written_all_targets [OF assms(1)])

definition tells :: "(writer \<Rightarrow> channel_event \<Rightarrow> bool) \<Rightarrow> (channel_list_event \<Rightarrow> bool) \<Rightarrow> server \<Rightarrow> server \<Rightarrow> bool" where
  "tells A B srv srv' \<longleftrightarrow> emits A (srv_publisher srv) (srv_publisher srv') \<and>
     emits (\<lambda>w. B) (srv_list_publisher srv) (srv_list_publisher srv')"

lemma tells_refl [simp]: "tells A B srv srv"
  by (simp add: tells_def)

lemma tells_trans: "tells A B a b \<Longrightarrow> tells A B b c \<Longrightarrow> tells A B a c"
  unfolding tells_def by (blast intro: emits_trans)

lemma tells_mono:
  "tells A B srv srv' \<Longrightarrow> (\<And>w ev. A w ev \<Longrightarrow> A' w ev) \<Longrightarrow> (\<And>ev. B ev \<Longrightarrow> B' ev) \<Longrightarrow> tells A' B' srv srv'"
  unfolding tells_def by (blast intro: emits_mono)

lemma tells_same:
  "written (srv_publisher srv') = written (srv_publisher srv) \<Longrightarrow>
   written (srv_list_publisher srv') = written (srv_list_publisher srv) \<Longrightarrow> tells A B srv srv'"
  by (simp add: tells_def emits_same)

lemma tells_fields [simp]:
  "tells A B srv (srv'\<lparr>srv_channels := x\<rparr>) = tells A B srv srv'"
  "tells A B srv (srv'\<lparr>srv_clients := r\<rparr>) = tells A B srv srv'"
  "tells A B srv (srv'\<lparr>srv_messages := m\<rparr>) = tells A B srv srv'"
  by (simp_all add: tells_def)

lemma tells_count:
  assumes "tells A B srv srv'" and "table_wf P (srv_list_publisher srv')" and "\<And>n. B (MemberCountChanged (id_value c) n)"
  shows "tells A B srv (publish_member_count c ch srv')"
proof -
  have "emits (\<lambda>w. B) (srv_list_publisher srv') (srv_list_publisher (publish_member_count c ch srv'))"
    using emits_all [OF assms(2), where A = "\<lambda>w. B"] assms(3)
    by (simp add: publish_member_count_def list_publishMemberCountChanged_def)
  then show ?thesis
    using assms(1) emits_trans unfolding tells_def by fastforce
qed

subsection \<open>The use cases\<close>

lemma room_channel: "room (abs_chat srv) c \<noteq> None \<longleftrightarrow> channel_at (srv_channels srv) (id_value c) \<noteq> None"
  by simp

lemma member_place:
  assumes "server_inv P srv" and "channel_at (srv_channels srv) (id_value c) = Some ch"
  shows "j \<in> set (chan_members ch) \<longleftrightarrow> place (abs_chat srv) j = Some c"
  using membership_members [OF server_invD(6) [OF assms(1)] assms(2)] by (simp add: hasMember_def)

lemma session_named:
  assumes "server_inv P srv" and "session_at (srv_clients srv) k = Some s"
  shows "names srv k = Some (sess_username s)" and "sess_id s = StrongId k"
  using clients_wf_history [OF server_invD(4) [OF assms(1)] assms(2)]
    clients_wf_entity [OF server_invD(4) [OF assms(1)] assms(2)]
  by (auto simp: names_def intro: strong_id.expand)

lemma tells_removed:
  assumes inv: "server_inv P srv" and named: "names srv (id_value (sess_id s)) = Some (sess_username s)"
  shows "tells (told srv) (list_event_true srv) srv (snd (removeMemberAndBroadcast P s c srv))"
proof -
  have "emits (told srv) (srv_publisher srv) (publisher_broadcastMemberLeft P c (uset_erase (sess_id s) (chan_members ch))
      (sess_id s) (sess_username s) (srv_publisher srv))"
    if at: "channel_at (srv_channels srv) (id_value c) = Some ch" for ch
    unfolding publisher_broadcastMemberLeft_def Let_def
  proof (rule emits_members [OF server_invD(1) [OF inv]])
    fix k w assume k: "live (srv_publisher srv) k = Some w" "StrongId k \<in> set (uset_erase (sess_id s) (chan_members ch))"
    then have "place (abs_chat srv) (StrongId k) = Some c"
      using member_place [OF inv at, of "StrongId k"] by (simp add: uset_erase_def del: abs_chat_sel)
    then show "told srv w (MemberLeft (id_value c) (id_value (sess_id s)) (username_value (sess_username s)))"
      using k(1) at named by (auto simp: told_def strong_id_eq_iff simp del: abs_chat_sel(3) intro!: exI [of _ "StrongId k"])
  qed
  then show ?thesis
    by (auto simp: removeMemberAndBroadcast_eq tells_def Let_def split: option.splits)
qed

lemma removed_fields:
  assumes "server_inv P srv" and "removeMemberAndBroadcast P s c srv = (r, srv1)"
  shows "srv_list_publisher srv1 = srv_list_publisher srv" and "srv_clients srv1 = srv_clients srv"
    and "channel_at (srv_channels srv1) k \<noteq> None \<longleftrightarrow> channel_at (srv_channels srv) k \<noteq> None"
proof -
  have "id_value (chan_id ch) = id_value c" if "channel_at (srv_channels srv) (id_value c) = Some ch" for ch
    using channels_wf_entity [OF server_invD(3) [OF assms(1)] that] by simp
  then show "srv_list_publisher srv1 = srv_list_publisher srv" "srv_clients srv1 = srv_clients srv"
    "channel_at (srv_channels srv1) k \<noteq> None \<longleftrightarrow> channel_at (srv_channels srv) k \<noteq> None"
    using assms(2) by (auto simp: removeMemberAndBroadcast_eq Let_def split: option.splits if_splits)
qed

lemma tells_leave_step:
  assumes inv: "server_inv P srv" and named: "names srv (id_value (sess_id s)) = Some (sess_username s)"
    and rm: "removeMemberAndBroadcast P s c srv = (r, srv1)"
  shows "tells (told srv) (list_event_true srv) srv (srv1\<lparr>srv_clients := reg\<rparr>)"
    and "channel_at (srv_channels srv1) (id_value c) \<noteq> None \<Longrightarrow>
      tells (told srv) (list_event_true srv) srv (publish_member_count c x (srv1\<lparr>srv_clients := reg\<rparr>))"
proof -
  show one: "tells (told srv) (list_event_true srv) srv (srv1\<lparr>srv_clients := reg\<rparr>)"
    using tells_removed [OF inv named, of c] rm by simp
  have "table_wf P (srv_list_publisher (srv1\<lparr>srv_clients := reg\<rparr>))"
    using removed_fields(1) [OF inv rm] server_invD(2) [OF inv] by simp
  then show "channel_at (srv_channels srv1) (id_value c) \<noteq> None \<Longrightarrow>
      tells (told srv) (list_event_true srv) srv (publish_member_count c x (srv1\<lparr>srv_clients := reg\<rparr>))"
    using removed_fields(3) [OF inv rm] by (intro tells_count [OF one]) auto
qed

lemma tells_Leave:
  assumes inv: "server_inv P srv"
  shows "tells (told srv) (list_event_true srv) srv (snd (LeaveChannel_execute P i c srv))"
proof (cases "clients_findById i (srv_clients srv)")
  case (Inr s)
  have named: "names srv (id_value (sess_id s)) = Some (sess_username s)"
    using session_named [OF inv, of "id_value i" s] Inr by (simp add: clients_findById_Inr)
  obtain r srv1 where rm: "removeMemberAndBroadcast P s c srv = (r, srv1)" by fastforce
  note step = tells_leave_step [OF inv named rm]
  show ?thesis
    using tells_removed [OF inv named, of c] step
    by (auto simp: LeaveChannel_execute_def Inr rm channels_findById_eq Let_def split: sum.splits option.splits prod.splits)
qed (simp add: LeaveChannel_execute_def)

lemma tells_leaveOther:
  assumes inv: "server_inv P srv" and s: "session_at (srv_clients srv) (id_value i) = Some s"
  shows "tells (told srv) (list_event_true srv) srv (snd (leaveOtherChannels P s c srv))"
proof -
  have named: "names srv (id_value (sess_id s)) = Some (sess_username s)"
    using session_named [OF inv s] by simp
  have one: "tells (told srv) (list_event_true srv) srv (snd (leave_each P s [d] srv))" for d
  proof -
    obtain r srv1 where rm: "removeMemberAndBroadcast P s d srv = (r, srv1)" by fastforce
    show ?thesis
      using tells_removed [OF inv named, of d] tells_leave_step [OF inv named rm]
      by (auto simp: rm channels_findById_eq Let_def split: sum.splits option.splits prod.splits)
  qed
  have "length (sess_joined s) \<le> 1"
    using sessions_short [OF inv s] .
  then have "other_channels_loop c (sess_joined s) [] = [] \<or> (\<exists>d. other_channels_loop c (sess_joined s) [] = [d])"
    by (cases "sess_joined s") (auto simp: other_channels_filter)
  then show ?thesis
    using one by (auto simp: leaveOtherChannels_def simp del: leave_each.simps(2))
qed

text \<open>A join tells the old channel in the state before it and the new one in the state after it.\<close>

abbreviation told_either :: "server \<Rightarrow> server \<Rightarrow> writer \<Rightarrow> channel_event \<Rightarrow> bool" where
  "told_either srv srv' \<equiv> \<lambda>w ev. told srv w ev \<or> told srv' w ev"

lemma tells_join_found:
  assumes inv: "server_inv P srv" and s: "session_at (srv_clients srv) (id_value i) = Some s"
    and at: "channel_at (srv_channels srv) (id_value c) = Some ch"
  defines "srv' \<equiv> snd (join_found P i s ch c srv)"
  shows "tells (told_either srv srv') (list_event_true srv) srv srv'"
proof (cases "place_of (srv_clients srv) i = Some c")
  case True
  then have joined: "sess_joined s = [c]"
    using membership_joined [OF server_invD(6) [OF inv] s] by simp
  have "hasMember i ch"
    using membership_members [OF server_invD(6) [OF inv] at] True by simp
  moreover have "modify_session i (session_joinChannel c) (srv_clients srv) = srv_clients srv"
    using rejoin_nothing [OF s] joined by simp
  ultimately have "srv' = srv"
    using s by (simp add: srv'_def join_found_def leaveOtherChannels_def other_channels_filter joined in_place_eq Let_def)
  then show ?thesis by simp
next
  case False
  obtain srv1 where left: "leaveOtherChannels P s c srv = (Inr (), srv1)" "server_inv P srv1"
    "channel_at (srv_channels srv1) (id_value c) = Some ch" "place_of (srv_clients srv1) i = None"
    "session_at (srv_clients srv1) (id_value i) \<noteq> None"
    "abs_chat srv1 = (abs_chat srv)\<lparr>place := (place (abs_chat srv))(i := None)\<rparr>"
    by (rule leaveOther_effect [OF inv s at False])
  then obtain s1 where s1: "session_at (srv_clients srv1) (id_value i) = Some s1" by blast
  have new: "\<not> hasMember i ch"
    using membership_members [OF server_invD(6) [OF inv] at] False by simp
  have cid: "chan_id ch = c"
    using channels_wf_entity [OF server_invD(3) [OF inv] at] by (simp add: strong_id_eq_iff)
  define T where "T = publisher_broadcastMemberJoined P c (chan_members ch @ [i]) i (sess_username s) (srv_publisher srv1)"
  define L where "L = list_publishMemberCountChanged c
      (int32_of_size (memberCount (ch\<lparr>chan_members := chan_members ch @ [i]\<rparr>))) (srv_list_publisher srv1)"
  have tables: "srv_publisher srv' = T" "srv_list_publisher srv' = L"
    using s1 new by (simp_all add: srv'_def join_found_def left(1) channels_save_def in_place_eq Let_def
        publish_member_count_def T_def L_def cid)
  note after = join_found_refines [OF inv s at, folded srv'_def]
  have "names srv' = names srv" by (simp add: srv'_def)
  then have named: "names srv' (id_value i) = Some (sess_username s)"
    using session_named(1) [OF inv s] by simp
  have room: "room (abs_chat srv') c \<noteq> None"
    using at by (simp add: after(3) del: abs_chat_sel) simp
  have live: "live T = live (srv_publisher srv1)"
    unfolding T_def by (intro live_cong) (simp_all add: publisher_broadcastMemberJoined_def)
  have here: "place (abs_chat srv') j = Some c" if "j \<in> set (chan_members ch @ [i])" for j
    using that member_place [OF inv at, of j] by (auto simp: after(3) simp del: abs_chat_sel)
  have "emits (told srv') (srv_publisher srv1) T"
    unfolding T_def publisher_broadcastMemberJoined_def Let_def
  proof (rule emits_members [OF server_invD(1) [OF left(2)]])
    fix k w assume "live (srv_publisher srv1) k = Some w" "StrongId k \<in> set (chan_members ch @ [i])"
    then show "told srv' w (MemberJoined (id_value c) (id_value i) (username_value (sess_username s)))"
      using here named room live tables(1) unfolding told_def
      by (intro conjI exI [of _ "StrongId k"] exI [of _ c]) (simp_all del: abs_chat_sel)
  qed
  moreover have "emits (\<lambda>w. list_event_true srv) (srv_list_publisher srv1) L"
    unfolding L_def list_publishMemberCountChanged_def
    by (rule emits_all [OF server_invD(2) [OF left(2)]]) (simp add: at)
  moreover have "tells (told srv) (list_event_true srv) srv srv1"
    using tells_leaveOther [OF inv s, of c] left(1) by simp
  ultimately show ?thesis
    unfolding tells_def tables by (blast intro: emits_trans emits_mono)
qed

lemma tells_Join:
  assumes inv: "server_inv P srv"
  shows "tells (told_either srv (snd (JoinChannel_execute P i c srv))) (list_event_true srv) srv
      (snd (JoinChannel_execute P i c srv))"
    and "tells (told_either srv (snd (JoinChannel_executeByName P i n srv))) (list_event_true srv) srv
      (snd (JoinChannel_executeByName P i n srv))"
proof -
  show "tells (told_either srv (snd (JoinChannel_execute P i c srv))) (list_event_true srv) srv
      (snd (JoinChannel_execute P i c srv))"
    using tells_join_found [OF inv, of i _ c]
    by (auto simp: JoinChannel_execute_def clients_findById_eq channels_findById_eq split: option.splits)
  have "tells (told_either srv srv') (list_event_true srv) srv srv'"
    if "session_at (srv_clients srv) (id_value i) = Some s" "channels_findByName v (srv_channels srv) = Inr ch"
      "join_found P i s ch (chan_id ch) srv = (r, srv')" for s v ch r srv'
    using tells_join_found [OF inv that(1), of "chan_id ch" ch] that(2,3) by (simp add: findByName_room [OF inv])
  then show "tells (told_either srv (snd (JoinChannel_executeByName P i n srv))) (list_event_true srv) srv
      (snd (JoinChannel_executeByName P i n srv))"
    by (auto simp: JoinChannel_executeByName_def clients_findById_eq split: option.splits sum.splits prod.splits)
qed

lemma tells_Create:
  assumes inv: "server_inv P srv" and fresh: "fresh_uuid P u srv"
    and srv'_def: "srv' = snd (CreateChannel_execute P u t i raw srv)"
  shows "tells (told srv) (list_event_true srv') srv srv'"
proof (cases "fst (CreateChannel_execute P u t i raw srv)")
  case (Inl e)
  then have "srv' = srv"
    using CreateChannel_refines(3) [OF inv fresh] by (simp add: srv'_def)
  then show ?thesis by simp
next
  case (Inr c)
  then obtain n ch repo where run: "channels_create P u t n (srv_channels srv) = (Inr ch, repo)"
    "srv' = srv\<lparr>srv_channels := repo, srv_list_publisher := list_publishChannelCreated ch (srv_list_publisher srv)\<rparr>"
    by (auto simp: CreateChannel_execute_def srv'_def split: sum.splits option.splits prod.splits)
  have "channel_at repo (id_value (chan_id ch)) = Some ch"
    using run(1) fresh by (auto simp: fresh_uuid_def channels_create_def channel_at_def new_channel_def strong_id_generate_def Let_def
        split: if_splits option.splits)
  then have "list_event_true srv' (ChannelCreated (channel_summary_of ch))"
    by (simp add: summary_true_def channel_summary_of_def run(2))
  then have "emits (\<lambda>w. list_event_true srv') (srv_list_publisher srv) (list_publishChannelCreated ch (srv_list_publisher srv))"
    unfolding list_publishChannelCreated_def by (intro emits_all [OF server_invD(2) [OF inv]])
  then show ?thesis
    by (simp add: tells_def run(2))
qed

lemma tells_Send:
  assumes inv: "server_inv P srv" and fresh: "fresh_uuid P u srv"
  shows "tells (told srv) (list_event_true srv) srv (snd (SendMessage_execute P u t i c raw IncludeSender srv))"
proof (cases "fst (SendMessage_execute P u t i c raw IncludeSender srv)")
  case (Inl e)
  then show ?thesis
    using SendMessage_refines(3) [OF inv fresh] by simp
next
  case (Inr mid)
  then have spec: "(Inr mid, abs_chat (snd (SendMessage_execute P u t i c raw IncludeSender srv))) =
      chat_send P u t (unat (repo_cap (srv_messages srv))) i c raw (abs_chat srv)"
    using SendMessage_refines(2) [OF inv fresh, of t i c raw IncludeSender]
    by (cases "SendMessage_execute P u t i c raw IncludeSender srv") (simp del: abs_chat_sel)
  then obtain v where ok: "user (abs_chat srv) i \<noteq> None" "room (abs_chat srv) c \<noteq> None"
    "place (abs_chat srv) i = Some c" "MessageContent_create raw = Inr v"
    by (auto simp: chat_send_def simp del: abs_chat_sel split: if_splits sum.splits)
  obtain s ch where at: "session_at (srv_clients srv) (id_value i) = Some s"
    "channel_at (srv_channels srv) (id_value c) = Some ch"
    using ok(1,2) by auto
  have member: "hasMember i ch"
    using membership_members [OF server_invD(6) [OF inv] at(2)] ok(3) by simp
  let ?m = "sent_message P u t i c v"
  let ?ev = "message_to_event P (Some (srv_clients srv)) ?m"
  have exec: "snd (SendMessage_execute P u t i c raw IncludeSender srv) =
      publish_each P ?m (recipientsFor ch ?m IncludeSender)
        (srv\<lparr>srv_messages := snd (messages_save ?m (srv_messages srv))\<rparr>)"
    using at member ok(4) by (simp add: SendMessage_execute_def clients_findById_eq channels_findById_eq
        messages_save_def sent_message_def Let_def)
  have "valid_content (content_value v)"
    using ok(4) by (auto simp: MessageContent_create_def content_trim_eq valid_content_def Suc_le_eq Let_def split: if_splits)
  then have true: "event_true srv ?ev" "event_channel ?ev = Some (id_value c)"
    "?ev = MessageEv m \<Longrightarrow> place (abs_chat srv) (StrongId (ev_sender_id m)) = Some (StrongId (ev_channel_id m))" for m
    using session_named(1) [OF inv at(1)] at(2) ok(3)
    by (auto simp: message_to_event_def sent_message_def clients_lookupUsername_def names_def username_history_def)
  have "told srv w ?ev" if "j \<in> set (recipientsFor ch ?m IncludeSender)" "live (srv_publisher srv) (id_value j) = Some w" for j w
  proof -
    have "j \<in> set (chan_members ch)" using that(1) by (simp add: recipientsFor_def recipients_loop_filter)
    then have "place (abs_chat srv) j = Some c"
      using member_place [OF inv at(2), of j] by simp
    then show ?thesis
      using true that(2) unfolding told_def by blast
  qed
  then have "emits (told srv) (srv_publisher srv) (srv_publisher (snd (SendMessage_execute P u t i c raw IncludeSender srv)))"
    by (auto simp: exec emits_def written_publish_each List.map_filter_def)
  then show ?thesis
    by (simp add: tells_def exec)
qed

text \<open>An expiry run takes clients out one after the other; whoever is told is still in the channel.\<close>

lemma expire_one_remembers:
  assumes inv: "server_inv P srv" and s: "session_at (srv_clients srv) (id_value (sess_id s)) = Some s"
  shows "remembers srv (expire_one P s srv)" and "remembers (expire_one P s srv) srv"
    and "place (abs_chat (expire_one P s srv)) j = Some c \<Longrightarrow> place (abs_chat srv) j = Some c"
    and "live (srv_publisher (expire_one P s srv)) k = Some w \<Longrightarrow> live (srv_publisher srv) k = Some w"
proof -
  note one = expire_one_effect [OF inv s]
  have "names (expire_one P s srv) = names srv"
    by (simp add: expire_one_def Let_def names_def [abs_def] fun_eq_iff, simp flip: names_def)
  then show "remembers srv (expire_one P s srv)" "remembers (expire_one P s srv) srv"
    by (simp_all add: remembers_same one(2) chat_expire_def del: abs_chat_sel)
  show "place (abs_chat (expire_one P s srv)) j = Some c \<Longrightarrow> place (abs_chat srv) j = Some c"
    by (simp add: one(2) chat_expire_def del: abs_chat_sel split: if_splits)
  show "live (srv_publisher (expire_one P s srv)) k = Some w \<Longrightarrow> live (srv_publisher srv) k = Some w"
    by (simp add: one(4) split: if_splits)
qed

lemma tells_expire_one:
  assumes inv: "server_inv P srv" and s: "session_at (srv_clients srv) (id_value (sess_id s)) = Some s"
  shows "tells (told srv) (list_event_true srv) srv (expire_one P s srv)"
proof -
  have named: "names srv (id_value (sess_id s)) = Some (sess_username s)"
    using session_named [OF inv s] by simp
  have "length (sess_joined s) \<le> 1"
    using sessions_short [OF inv s] .
  then have "sess_joined s = [] \<or> (\<exists>c. sess_joined s = [c])"
    by (cases "sess_joined s") auto
  then have "tells (told srv) (list_event_true srv) srv (expire_channels P s (sess_joined s) srv)"
    using tells_removed [OF inv named] by auto
  then show ?thesis
    by (auto simp: expire_one_def Let_def tells_def publisher_unregister_eq intro: emits_written)
qed

lemma tells_expire_each:
  assumes "server_inv P srv" and "distinct (map sess_id ss)"
    and "\<And>s. s \<in> set ss \<Longrightarrow> session_at (srv_clients srv) (id_value (sess_id s)) = Some s"
  shows "tells (told srv) (list_event_true srv) srv (snd (expire_each P ss cnt srv))"
  using assms
proof (induction ss arbitrary: cnt srv)
  case (Cons s ss)
  have s: "session_at (srv_clients srv) (id_value (sess_id s)) = Some s"
    by (rule Cons.prems(3)) simp
  note one = expire_one_effect [OF Cons.prems(1) s]
  note kept = expire_one_remembers [OF Cons.prems(1) s]
  have "session_at (srv_clients (expire_one P s srv)) (id_value (sess_id x)) = Some x" if "x \<in> set ss" for x
    using that Cons.prems(2) Cons.prems(3) [of x] one(3) by (auto simp: strong_id_eq_iff image_iff)
  then have "tells (told (expire_one P s srv)) (list_event_true (expire_one P s srv)) (expire_one P s srv)
      (snd (expire_each P ss (cnt + 1) (expire_one P s srv)))"
    using Cons.IH [OF one(1)] Cons.prems(2) by simp
  then have "tells (told srv) (list_event_true srv) (expire_one P s srv)
      (snd (expire_each P ss (cnt + 1) (expire_one P s srv)))"
    by (rule tells_mono) (blast intro: told_mono kept remembers_true(2))+
  with tells_expire_one [OF Cons.prems(1) s] show ?case
    by (simp only: expire_each_one) (rule tells_trans)
qed simp

end
