(* ===== verification/Authenticity.thy ===== *)
theory Authenticity
  imports Service_Properties Emissions
begin

text \<open>
  What a client may believe and what it gets to see. In every reachable state all values the server
  holds are well typed (identifiers canonical, names and contents valid), and every event ever
  written is true: its channel exists and it carries the name the registry has recorded for the
  client it speaks of. Every step writes channel events only to streams of clients that are in the
  event's channel.
\<close>

definition canonical :: "'u platform \<Rightarrow> 'tag strong_id \<Rightarrow> bool" where
  "canonical P i \<longleftrightarrow> strong_id_parse P (id_value i) = Some i \<and> trim (id_value i) = id_value i"

lemma canonical_generate:
  assumes "uuid_contract P" and "\<not> uuid_is_nil P u"
  shows "canonical P (strong_id_generate P u)"
  using assms by (simp add: canonical_def strong_id_generate_def strong_id_parse_uuid_text trim_uuid_text)

definition values_valid :: "'u platform \<Rightarrow> server \<Rightarrow> bool" where
  "values_valid P srv \<longleftrightarrow>
     (\<forall>c n. room (abs_chat srv) c = Some n \<longrightarrow> canonical P c \<and> valid_channel_name (channel_name_value n)) \<and>
     (\<forall>k n. names srv k = Some n \<longrightarrow> canonical P (StrongId k :: client_id) \<and> valid_username (username_value n)) \<and>
     (\<forall>c. \<forall>m\<in>set (posts (abs_chat srv) c). canonical P (msg_id m) \<and> valid_content (content_value (msg_content m)))"

subsection \<open>What a step adds\<close>

definition grown :: "'u platform \<Rightarrow> server \<Rightarrow> server \<Rightarrow> bool" where
  "grown P srv srv' \<longleftrightarrow>
     (\<forall>c. room (abs_chat srv') c = room (abs_chat srv) c \<or> room (abs_chat srv) c = None \<and> canonical P c) \<and>
     (\<forall>k. names srv' k = names srv k \<or> names srv k = None \<and> canonical P (StrongId k :: client_id) \<and>
        (\<forall>n. names srv' k = Some n \<longrightarrow> valid_username (username_value n))) \<and>
     (\<forall>c. \<forall>m\<in>set (posts (abs_chat srv') c). m \<in> set (posts (abs_chat srv) c) \<or> canonical P (msg_id m))"

definition honest :: "'u platform \<Rightarrow> server \<Rightarrow> server \<Rightarrow> bool" where
  "honest P srv srv' \<longleftrightarrow> grown P srv srv' \<and> tells (told_either srv srv') (list_event_true srv') srv srv'"

lemma grown_remembers:
  assumes "grown P srv srv'"
  shows "remembers srv srv'"
  using assms unfolding grown_def remembers_def by (metis option.distinct(1))

lemma grown_same:
  assumes "room (abs_chat srv') = room (abs_chat srv)" "names srv' = names srv" "posts (abs_chat srv') = posts (abs_chat srv)"
  shows "grown P srv srv'"
  using assms by (simp add: grown_def del: abs_chat_sel)

lemma honestI:
  assumes "grown P srv srv'" and "tells A (list_event_true srv) srv srv'" and "\<And>w ev. A w ev \<Longrightarrow> told_either srv srv' w ev"
  shows "honest P srv srv'"
  using tells_mono [OF assms(2), of "told_either srv srv'" "list_event_true srv'"] assms(1,3)
    remembers_true(2) [OF grown_remembers [OF assms(1)]] by (simp add: honest_def)

lemma honest_refl [simp]: "honest P srv srv"
  by (simp add: honest_def grown_same)

lemma honest_same:
  assumes "room (abs_chat srv') = room (abs_chat srv)" "names srv' = names srv" "posts (abs_chat srv') = posts (abs_chat srv)"
    and "tells (told_either srv srv') (list_event_true srv) srv srv'"
  shows "honest P srv srv'"
  using grown_same [OF assms(1-3)] assms(4) by (rule honestI)

text \<open>The chat operations that move clients change neither rooms nor posts.\<close>

lemma chat_moves:
  assumes "(r, ct') = chat_join i c ct \<or> (q, ct') = chat_leave i c ct \<or> (q, ct') = chat_quit i ct"
  shows "room ct' = room ct" and "posts ct' = posts ct"
  using assms by (auto simp: chat_join_def chat_leave_def chat_quit_def split: if_splits)

subsection \<open>The handlers are honest\<close>

lemma honest_Leave:
  assumes inv: "server_inv P srv"
  shows "honest P srv (snd (LeaveChannel_execute P i c srv))"
proof -
  obtain r srv' where run: "LeaveChannel_execute P i c srv = (r, srv')" by fastforce
  then have "(r, abs_chat srv') = chat_leave i c (abs_chat srv)"
    using LeaveChannel_refines(2) [OF inv, of i c] by simp
  then have "room (abs_chat srv') = room (abs_chat srv)" "posts (abs_chat srv') = posts (abs_chat srv)"
    using chat_moves by blast+
  then have "grown P srv srv'"
    using names_leave [of P i c srv] by (intro grown_same) (simp_all add: run)
  then show ?thesis
    using honestI [OF _ tells_Leave [OF inv, of i c]] by (simp add: run)
qed

lemma honest_Join:
  assumes inv: "server_inv P srv"
  shows "honest P srv (snd (JoinChannel_execute P i c srv))"
    and "honest P srv (snd (JoinChannel_executeByName P i n srv))"
proof -
  obtain r srv' where run: "JoinChannel_execute P i c srv = (r, srv')" by fastforce
  then have "(r, abs_chat srv') = chat_join i c (abs_chat srv)"
    using JoinChannel_refines(2) [OF inv, of i c] by simp
  then have "room (abs_chat srv') = room (abs_chat srv)" "posts (abs_chat srv') = posts (abs_chat srv)"
    using chat_moves by blast+
  then show "honest P srv (snd (JoinChannel_execute P i c srv))"
    using names_join(1) [of P i c srv] tells_Join(1) [OF inv, of i c] by (intro honest_same) (simp_all add: run)
  obtain q srv2 where byname: "JoinChannel_executeByName P i n srv = (q, srv2)" by fastforce
  have "srv2 = srv \<or> (\<exists>d. chat_join i d (abs_chat srv) = (Inr (), abs_chat srv2))"
    using JoinByName_refines(2) [OF inv, of i n] by (cases q) (auto simp: byname)
  then have "room (abs_chat srv2) = room (abs_chat srv)" "posts (abs_chat srv2) = posts (abs_chat srv)"
    using chat_moves by metis+
  then show "honest P srv (snd (JoinChannel_executeByName P i n srv))"
    using names_join(2) [of P i n srv] tells_Join(2) [OF inv, of i n] by (intro honest_same) (simp_all add: byname)
qed

lemma honest_Create:
  assumes contract: "uuid_contract P" and inv: "server_inv P srv" and fresh: "fresh_uuid P u srv"
  shows "honest P srv (snd (CreateChannel_execute P u t i raw srv))"
proof -
  obtain r srv' where run: "CreateChannel_execute P u t i raw srv = (r, srv')" by fastforce
  have "(r, abs_chat srv') =
      (if user (abs_chat srv) i = None then (Inl ClientNotFound, abs_chat srv)
       else if \<not> valid_channel_name (trim raw) then (Inl InvalidChannelName, abs_chat srv)
       else chat_create (strong_id_generate P u) (ChannelName (trim raw)) (abs_chat srv))"
    using CreateChannel_refines(2) [OF inv fresh, of t i raw] by (simp add: run del: abs_chat_sel)
  then have "abs_chat srv' = abs_chat srv \<or>
      abs_chat srv' = (abs_chat srv)\<lparr>room := (room (abs_chat srv))(strong_id_generate P u \<mapsto> ChannelName (trim raw))\<rparr>"
    by (auto simp: chat_create_def split: if_splits)
  moreover have "canonical P (strong_id_generate P u :: channel_id)"
    by (rule canonical_generate [OF contract]) (use fresh in \<open>simp add: fresh_uuid_def\<close>)
  moreover have "room (abs_chat srv) (strong_id_generate P u) = None"
    using fresh by (simp add: fresh_uuid_def strong_id_generate_def)
  ultimately have "grown P srv srv'"
    using names_create [of P u t i raw srv] by (auto simp: grown_def run simp del: abs_chat_sel split: if_splits)
  moreover have "tells (told_either srv srv') (list_event_true srv') srv srv'"
    by (rule tells_mono [OF tells_Create [OF inv fresh, of srv' t i raw]]) (simp_all add: run)
  ultimately show ?thesis
    by (simp add: honest_def run)
qed

lemma honest_Send:
  assumes contract: "uuid_contract P" and inv: "server_inv P srv" and fresh: "fresh_uuid P u srv"
  shows "honest P srv (snd (SendMessage_execute P u t i c raw IncludeSender srv))"
proof -
  obtain r srv' where run: "SendMessage_execute P u t i c raw IncludeSender srv = (r, srv')" by fastforce
  have spec: "(r, abs_chat srv') = chat_send P u t (unat (repo_cap (srv_messages srv))) i c raw (abs_chat srv)"
    using SendMessage_refines(2) [OF inv fresh, of t i c raw IncludeSender] by (simp add: run del: abs_chat_sel)
  have rooms: "room (abs_chat srv') = room (abs_chat srv)"
    and posts: "m \<in> set (posts (abs_chat srv') d) \<Longrightarrow> m \<in> set (posts (abs_chat srv) d) \<or> msg_id m = strong_id_generate P u" for m d
    using spec by (auto simp: chat_send_def chat_post_def sent_message_def Let_def simp del: abs_chat_sel
        dest!: in_set_dropD split: if_splits sum.splits)
  have "\<not> uuid_is_nil P u" using fresh by (simp add: fresh_uuid_def)
  then have "grown P srv srv'"
    using names_send [of P u t i c raw IncludeSender srv] rooms posts canonical_generate [OF contract, of u]
    unfolding grown_def by (metis run snd_conv)
  then show ?thesis
    using honestI [OF _ tells_Send [OF inv fresh, of t i c raw]] by (simp add: run)
qed

lemma honest_Connect:
  assumes contract: "uuid_contract P" and inv: "server_inv P srv" and fresh: "fresh_uuid P u srv"
  shows "honest P srv (snd (Connect P u t t' raw srv))"
proof (cases "status_code (fst (fst (Connect P u t t' raw srv))) = OK")
  case False
  then show ?thesis
    using Connect_refines(3) [OF inv fresh] by simp
next
  case True
  let ?srv' = "snd (Connect P u t t' raw srv)" and ?n = "Username (trim raw)"
  note connected = Connect_refines [OF inv fresh, of t t' raw]
  have ok: "valid_username (trim raw)" "\<not> user_taken ?n (abs_chat srv)"
    using connected(4) True by blast+
  then have create: "Username_create (trim raw) = Some ?n"
    by (simp add: Username_create_iff)
  have free: "username_index (srv_clients srv) (username_value ?n) = None"
    using username_index_taken [OF inv, of ?n] ok(2) by blast
  obtain r reg where reg: "clients_registerClient P u t t' ?n (srv_clients srv) = (r, reg)" by fastforce
  have srv': "?srv' = srv\<lparr>srv_clients := reg\<rparr>"
    by (cases r) (simp_all add: Connect_def create reg)
  have names: "names ?srv' k = (if k = uuid_to_string P u then Some ?n else names srv k)" for k
    using username_history_register [OF free, of P u t t' k] reg by (simp add: srv' names_def)
  have "abs_chat ?srv' = snd (chat_enter (strong_id_generate P u) ?n (abs_chat srv))"
    using connected(5) True by blast
  then have abs: "room (abs_chat ?srv') = room (abs_chat srv)" "posts (abs_chat ?srv') = posts (abs_chat srv)"
    by (simp_all add: chat_enter_def del: abs_chat_sel)
  have new: "names srv (uuid_to_string P u) = None" "\<not> uuid_is_nil P u"
    using fresh by (simp_all add: fresh_uuid_def names_def)
  have "canonical P (StrongId (uuid_to_string P u) :: client_id)"
    using canonical_generate [OF contract new(2)] by (simp add: strong_id_generate_def)
  then have "grown P srv ?srv'"
    unfolding grown_def abs names using new ok(1) by auto
  moreover have "tells (told srv) (list_event_true srv) srv ?srv'"
    by (simp add: srv')
  ultimately show ?thesis by (rule honestI) simp
qed

lemma honest_Disconnect:
  assumes inv: "server_inv P srv"
  shows "honest P srv (snd (Disconnect P raw srv))"
proof (cases "strong_id_parse P (trim raw) :: client_id option")
  case (Some i)
  show ?thesis
  proof (cases "session_at (srv_clients srv) (id_value i)")
    case s: (Some s)
    define srv1 where "srv1 = disconnect_loop P i (sess_joined s) srv"
    have "length (sess_joined s) \<le> 1"
      using sessions_short [OF inv s] .
    then have "srv1 = srv \<or> (\<exists>c. srv1 = snd (LeaveChannel_execute P i c srv))"
      by (cases "sess_joined s") (auto simp: srv1_def)
    then have one: "tells (told srv) (list_event_true srv) srv srv1" "names srv1 = names srv"
      using tells_Leave [OF inv] by auto
    obtain r reg where rm: "clients_remove i (srv_clients srv1) = (r, reg)" by fastforce
    then have "username_history reg = username_history (srv_clients srv1)"
      using username_history_remove [of i "srv_clients srv1"] by (simp add: fun_eq_iff)
    then have names: "names (snd (Disconnect P raw srv)) = names srv"
      using one(2) by (auto simp: Disconnect_def Some clients_findById_eq s rm names_def Let_def
          simp flip: srv1_def split: sum.splits)
    have tells: "tells (told srv) (list_event_true srv) srv (snd (Disconnect P raw srv))"
      using one(1) by (auto simp: Disconnect_def Some clients_findById_eq s rm Let_def tells_def publisher_unregister_eq
          simp flip: srv1_def split: sum.splits intro: emits_written)
    have "room (abs_chat (snd (Disconnect P raw srv))) = room (abs_chat srv) \<and>
        posts (abs_chat (snd (Disconnect P raw srv))) = posts (abs_chat srv)"
      using Disconnect_refines(2) [OF inv, of raw] chat_moves by (metis snd_conv)
    then have "grown P srv (snd (Disconnect P raw srv))"
      using names by (intro grown_same) blast+
    from honestI [OF this tells] show ?thesis by simp
  qed (simp add: Disconnect_def Some clients_findById_eq)
qed (simp add: Disconnect_def)

lemma honest_sweep:
  assumes inv: "server_inv P srv"
  shows "honest P srv (snd (sweep P now timeout srv))"
proof -
  let ?d = "now - timeout"
  note wf = server_invD(4) [OF inv]
  have mem: "session_at (srv_clients srv) (id_value (sess_id s)) = Some s" if "s \<in> set (clients_collectExpired ?d (srv_clients srv))" for s
    using that set_collectExpired [OF wf] by blast
  have tells: "tells (told srv) (list_event_true srv) srv (snd (sweep P now timeout srv))"
    using tells_expire_each [OF inv collectExpired_ids [OF wf] mem] by (simp add: sweep_def ExpireInactiveClients_run_def)
  have "abs_chat (snd (sweep P now timeout srv)) = chat_expire (expired_ids ?d (srv_clients srv)) (abs_chat srv)"
    using ExpireInactive_refines(3) [OF inv refl] by (simp add: sweep_def)
  then have "grown P srv (snd (sweep P now timeout srv))"
    by (intro grown_same) (simp_all add: chat_expire_def sweep_def del: abs_chat_sel)
  from honestI [OF this tells] show ?thesis by simp
qed

lemma honest_quiet:
  assumes "abs_chat srv' = abs_chat srv" "names srv' = names srv"
    and "written (srv_publisher srv') = written (srv_publisher srv)"
    and "written (srv_list_publisher srv') = written (srv_list_publisher srv)"
  shows "honest P srv srv'"
  using assms by (intro honest_same) (simp_all add: tells_same del: abs_chat_sel)

subsection \<open>Every step is honest\<close>

lemma tells_list_open:
  assumes inv: "server_inv P srv" and run: "SubscribeToChannelList_open P ci w srv = (res, srv')"
  shows "honest P srv srv'"
proof -
  have "channel_at (srv_channels srv) (id_value (chan_id x)) = Some x" if "x \<in> set (channels_listAll (srv_channels srv))" for x
    using that by (simp add: set_listAll [OF server_invD(3) [OF inv]])
  then have true: "list_event_true srv (Snapshot (map channel_summary_of (channels_listAll (srv_channels srv))))"
    by (simp add: list_all_iff summary_true_def channel_summary_of_def)
  have "emits (\<lambda>w. list_event_true srv) (srv_list_publisher srv)
      (list_registerSubscriberWithSnapshot (srv_channels srv) j (Some w) (srv_list_publisher srv))" for j
    using true by (auto simp: list_register_eq emits_def split: option.splits)
  then have "tells (told srv) (list_event_true srv) srv srv'" "names srv' = names srv" "abs_chat srv' = abs_chat srv"
    using run by (auto simp: SubscribeToChannelList_open_def SubscribeToChannelList_execute_def tells_def abs_chat_def
        split: option.splits sum.splits)
  then show ?thesis
    by (intro honest_same) (auto intro: tells_mono simp del: abs_chat_sel)
qed

lemma names_perm:
  assumes inv: "server_inv P srv" and perm: "server_perm srv srv'"
  shows "names srv' = names srv"
  using clients_wf_perm [OF server_invD(4) [OF inv] server_permD(3-5) [OF perm]] by (simp add: names_def fun_eq_iff)

lemma step_honest:
  assumes inv: "sys_inv P s" and step: "sys_step P s s'"
  shows "honest P (sys_server s) (sys_server s')"
proof -
  have srv: "server_inv P (sys_server s)" and contract: "uuid_contract P"
    using inv by (simp_all add: sys_inv_def)
  show ?thesis
    using step
  proof cases
    case (connect u t t' name)
    then show ?thesis using honest_Connect [OF contract srv] by simp
  next
    case (disconnect ci)
    then show ?thesis using honest_Disconnect [OF srv] by simp
  next
    case (create_channel u t ci name)
    have "honest P (sys_server s) (snd (CreateChannel P u t ci name (sys_server s)))"
      using honest_Create [OF contract srv create_channel(2)]
      by (auto simp: CreateChannel_def Let_def split: option.splits sum.splits prod.splits) (metis snd_conv)+
    then show ?thesis by (simp add: create_channel(1))
  next
    case (join_channel ci ch)
    have "honest P (sys_server s) (snd (JoinChannel P ci ch (sys_server s)))"
      using honest_Join [OF srv]
      by (auto simp: JoinChannel_def Let_def split: option.splits sum.splits prod.splits) (metis snd_conv)+
    then show ?thesis by (simp add: join_channel(1))
  next
    case (leave_channel ci ch)
    have "honest P (sys_server s) (snd (LeaveChannel P ci ch (sys_server s)))"
      using honest_Leave [OF srv]
      by (auto simp: LeaveChannel_def Let_def split: option.splits sum.splits prod.splits) (metis snd_conv)+
    then show ?thesis by (simp add: leave_channel(1))
  next
    case (send_message u t ci ch body)
    have "honest P (sys_server s) (snd (SendMessage P u t ci ch body (sys_server s)))"
      using honest_Send [OF contract srv send_message(2)]
      by (auto simp: SendMessage_def Let_def split: option.splits sum.splits prod.splits) (metis snd_conv)+
    then show ?thesis by (simp add: send_message(1))
  next
    case (heartbeat t' ci)
    have "honest P (sys_server s) ((sys_server s)\<lparr>srv_clients := reg\<rparr>)"
      if "clients_touchHeartbeat t' i (srv_clients (sys_server s)) = (r, reg)" for i r reg
      by (rule honest_quiet)
        (simp_all add: heartbeat_refines(2) [OF srv that] names_def names_touched [OF that] del: abs_chat_sel)
    then have "honest P (sys_server s) (snd (Heartbeat P t' ci (sys_server s)))"
      by (auto simp: Heartbeat_def split: option.splits sum.splits prod.splits)
    then show ?thesis by (simp add: heartbeat(1))
  next
    case (subscribe_open w ci i ch srv')
    have "names srv' = names (sys_server s)" "written (srv_publisher srv') = written (srv_publisher (sys_server s))"
      using subscribe_open(3,4) by (auto simp: SubscribeToChannel_open_def Let_def publisher_register_eq
          split: option.splits sum.splits)
    then show ?thesis
      using subscribe_open_effect(3,4) [OF contract srv subscribe_open(3,4)]
      by (intro honest_quiet) (simp_all add: subscribe_open(1) del: abs_chat_sel)
  next
    case (subscribe_rejected w ci ch status srv')
    have "names srv' = names (sys_server s)" "written (srv_publisher srv') = written (srv_publisher (sys_server s))"
      using subscribe_rejected(3) by (auto simp: SubscribeToChannel_open_def Let_def publisher_register_eq
          publisher_unregister_eq split: option.splits sum.splits)
    then show ?thesis
      using subscribe_rejected_effect(2,3) [OF contract srv subscribe_rejected(3)]
      by (intro honest_quiet) (simp_all add: subscribe_rejected(1) del: abs_chat_sel)
  next
    case (subscribe_close w i)
    show ?thesis
      by (rule honest_quiet) (simp_all add: subscribe_close(1) SubscribeToChannel_close_def publisher_unregister_eq abs_chat_def)
  next
    case (list_open w ci i srv')
    then show ?thesis using tells_list_open [OF srv list_open(4)] by simp
  next
    case (list_rejected w ci status srv')
    then show ?thesis using tells_list_open [OF srv list_rejected(3)] by simp
  next
    case (list_close w i)
    show ?thesis
      by (rule honest_quiet) (simp_all add: list_close(1) SubscribeToChannelList_close_def list_unregister_eq abs_chat_def)
  next
    case (sweep_pass now timeout)
    then show ?thesis using honest_sweep [OF srv] by simp
  next
    case (reorder srv')
    have "written (srv_publisher srv') = written (srv_publisher (sys_server s))"
      "written (srv_list_publisher srv') = written (srv_list_publisher (sys_server s))"
      using reorder(2) unfolding server_perm_def by blast+
    then show ?thesis
      using perm_effect(2) [OF srv reorder(2)] names_perm [OF srv reorder(2)]
      by (intro honest_quiet) (simp_all add: reorder(1) del: abs_chat_sel)
  qed
qed

subsection \<open>The record of the server\<close>

definition record_true :: "'u platform \<Rightarrow> server \<Rightarrow> bool" where
  "record_true P srv \<longleftrightarrow> values_valid P srv \<and> (\<forall>w ev. (w, ev) \<in> set (written (srv_publisher srv)) \<longrightarrow> event_true srv ev) \<and>
     (\<forall>w ev. (w, ev) \<in> set (written (srv_list_publisher srv)) \<longrightarrow> list_event_true srv ev)"

lemma told_true:
  assumes "honest P srv srv'"
  shows "told_either srv srv' w ev \<Longrightarrow> event_true srv' ev"
  using assms remembers_true(1) [OF grown_remembers] unfolding honest_def told_def by blast

lemma honest_record:
  assumes honest: "honest P srv srv'" and inv: "server_inv P srv'" and before: "record_true P srv"
  shows "record_true P srv'"
proof -
  have grown: "grown P srv srv'" and tells: "tells (told_either srv srv') (list_event_true srv') srv srv'"
    using honest by (simp_all add: honest_def)
  note kept = remembers_true [OF grown_remembers [OF grown]]
  have rooms: "canonical P c \<and> valid_channel_name (channel_name_value n)" if "room (abs_chat srv') c = Some n" for c n
  proof
    show "canonical P c"
      using grown before that unfolding grown_def record_true_def values_valid_def by metis
    show "valid_channel_name (channel_name_value n)"
      using that channels_wf_entity [OF server_invD(3) [OF inv]] by (auto simp: channel_ok_def)
  qed
  moreover have "canonical P (StrongId k :: client_id) \<and> valid_username (username_value n)" if "names srv' k = Some n" for k n
    using grown before that unfolding grown_def record_true_def values_valid_def by metis
  moreover have "canonical P (msg_id m) \<and> valid_content (content_value (msg_content m))"
    if "m \<in> set (posts (abs_chat srv') c)" for m c
  proof
    show "canonical P (msg_id m)"
      using grown before that unfolding grown_def record_true_def values_valid_def by metis
    show "valid_content (content_value (msg_content m))"
      using that server_invD(7) [OF inv] by (auto simp: posts_wf_def)
  qed
  ultimately have "values_valid P srv'"
    by (simp add: values_valid_def del: abs_chat_sel)
  moreover have "event_true srv' ev" if "(w, ev) \<in> set (written (srv_publisher srv'))" for w ev
  proof -
    have "(w, ev) \<in> set (written (srv_publisher srv)) \<or> told_either srv srv' w ev"
      by (rule emits_elem [OF _ that]) (use tells in \<open>simp add: tells_def\<close>)
    then show ?thesis
      using before told_true [OF honest, of w ev] kept(1) unfolding record_true_def by blast
  qed
  moreover have "list_event_true srv' ev" if "(w, ev) \<in> set (written (srv_list_publisher srv'))" for w ev
  proof -
    have "(w, ev) \<in> set (written (srv_list_publisher srv)) \<or> list_event_true srv' ev"
      by (rule emits_elem [OF _ that]) (use tells in \<open>simp add: tells_def\<close>)
    then show ?thesis
      using before kept(2) unfolding record_true_def by blast
  qed
  ultimately show ?thesis
    unfolding record_true_def by blast
qed

lemma record_true_start:
  assumes "sys_start P s"
  shows "record_true P (sys_server s)"
proof -
  obtain files u t a tls sweeper where start: "uuid_contract P" "\<not> uuid_is_nil P u"
    "server_run P files u t a = Serving (sys_server s) tls sweeper"
    using assms by (auto simp: sys_start_def)
  then have srv: "sys_server s = initial_server P u t (arg_history_cap a)"
    by (blast dest: server_run_serving)
  have "names (initial_server P u t cap) = Map.empty" "written (srv_publisher (initial_server P u t cap)) = []"
    "written (srv_list_publisher (initial_server P u t cap)) = []" for cap
    by (simp_all add: initial_server_def names_def fun_eq_iff)
  then show ?thesis
    using canonical_generate [OF start(1,2)] demo_valid_names(1)
    by (simp add: record_true_def srv values_valid_def initial_server_inv(2) empty_server_abs del: abs_chat_sel)
qed

interpretation recorded_system: invariant_system "sys_start P" "sys_step P" "\<lambda>s. sys_inv P s \<and> record_true P (sys_server s)"
  for P :: "'u platform"
proof unfold_locales
  show "sys_start P s \<Longrightarrow> sys_inv P s \<and> record_true P (sys_server s)" for s
    using sys_inv_start record_true_start by blast
  fix s s' assume s: "sys_inv P s \<and> record_true P (sys_server s)" and step: "sys_step P s s'"
  have inv: "sys_inv P s'"
    using s step by (blast intro: sys_inv_step)
  then have srv: "server_inv P (sys_server s')" by (simp add: sys_inv_def)
  have "honest P (sys_server s) (sys_server s')"
    using s step by (blast intro: step_honest)
  from honest_record [OF this srv] show "sys_inv P s' \<and> record_true P (sys_server s')"
    using s inv by blast
qed

subsection \<open>Properties\<close>

text \<open>
  C3: the values of the server keep their types at run time. In every reachable state the identifier of
  every channel, client and stored message is canonical, that is, its text parses back to it and has
  no surrounding white space; channels have valid channel names, clients valid user names, which are
  the ones on record for them, and stored messages valid contents and the identifiers of a channel
  and of a client on record; and every live stream belongs to an identifier the parser accepts.
\<close>

theorem reachable_values_valid:
  assumes "reaches (sys_start P) (sys_step P) s"
  shows "(\<forall>c n. room (abs_chat (sys_server s)) c = Some n \<longrightarrow>
      canonical P c \<and> valid_channel_name (channel_name_value n)) \<and>
    (\<forall>i n. user (abs_chat (sys_server s)) i = Some n \<longrightarrow> canonical P i \<and> valid_username (username_value n) \<and>
      clients_lookupUsername i (srv_clients (sys_server s)) = Inr n) \<and>
    (\<forall>c. \<forall>m\<in>set (posts (abs_chat (sys_server s)) c). canonical P (msg_id m) \<and> canonical P (msg_channel_id m) \<and>
      canonical P (msg_sender_id m) \<and> valid_content (content_value (msg_content m))) \<and>
    (\<forall>k w. live (srv_publisher (sys_server s)) k = Some w \<longrightarrow>
      strong_id_parse P k = Some (StrongId k :: client_id))"
proof -
  let ?srv = "sys_server s"
  have "sys_inv P s \<and> record_true P ?srv"
    using assms by (rule recorded_system.reaches_inv)
  then have inv: "server_inv P ?srv" and values_ok: "values_valid P ?srv"
    by (simp_all add: sys_inv_def record_true_def)
  have named: "canonical P (StrongId k :: client_id) \<and> valid_username (username_value n)" if "names ?srv k = Some n" for k n
    using values_ok that unfolding values_valid_def by blast
  have users: "canonical P i \<and> valid_username (username_value n) \<and> clients_lookupUsername i (srv_clients ?srv) = Inr n"
    if "user (abs_chat ?srv) i = Some n" for i n
  proof -
    have "names ?srv (id_value i) = Some n"
      using that session_named(1) [OF inv, of "id_value i"] by auto
    then show ?thesis
      using named [of "id_value i" n] by (simp add: clients_lookupUsername_def names_def username_history_def)
  qed
  have messages: "canonical P (msg_id m) \<and> canonical P (msg_channel_id m) \<and>
      canonical P (msg_sender_id m) \<and> valid_content (content_value (msg_content m))"
    if m: "m \<in> set (posts (abs_chat ?srv) c)" for c m
  proof -
    obtain n where "clients_lookupUsername (msg_sender_id m) (srv_clients ?srv) = Inr n"
      using inv_posts(3) [OF inv m] by blast
    then have "names ?srv (id_value (msg_sender_id m)) = Some n"
      by (simp add: clients_lookupUsername_def names_def username_history_def split: option.splits)
    then have "canonical P (msg_sender_id m)"
      using named by force
    moreover obtain x where "room (abs_chat ?srv) c = Some x"
      using inv_posts(1) [OF inv m] by blast
    then have "canonical P c"
      using values_ok unfolding values_valid_def by blast
    ultimately show ?thesis
      using values_ok m inv_posts(2) [OF inv m] unfolding values_valid_def by blast
  qed
  have keys: "strong_id_parse P k = Some (StrongId k :: client_id)" if "live (srv_publisher ?srv) k = Some w" for k w
    using that table_wf_key [OF server_invD(1) [OF inv]] by (auto simp: live_def split: option.splits)
  show ?thesis
    using users messages keys values_ok unfolding values_valid_def by blast
qed

theorem reachable_values_valid_witness:
  "canonical demo_platform demo_room \<and> canonical demo_platform demo_alice \<and>
   strong_id_parse demo_platform (demo_text U2) = Some demo_alice"
proof -
  note valid = reachable_values_valid [OF demo_stream_reachable, unfolded demo_stream_system_def system.simps demo_stream_abs]
  have "canonical demo_platform demo_room" "canonical demo_platform demo_alice"
    using valid demo_places(1,2) by blast+
  moreover have "strong_id_parse demo_platform (id_value demo_alice) = Some demo_alice"
    using valid demo_stream_live by (metis strong_id.sel)
  ultimately show ?thesis by simp
qed

text \<open>
  C4: nothing false is ever written. In every reachable state each event that was ever written to a
  channel stream is about a channel that exists and carries, for the client it speaks of, the name the
  registry has on record, and a message carries valid content; each event written to a channel list
  stream gives channels that exist the names they have. No other kind of event was written.
\<close>

theorem reachable_events_true:
  assumes "reaches (sys_start P) (sys_step P) s"
  shows "(\<forall>w ev. (w, ev) \<in> set (written (srv_publisher (sys_server s))) \<longrightarrow> event_true (sys_server s) ev) \<and>
    (\<forall>w ev. (w, ev) \<in> set (written (srv_list_publisher (sys_server s))) \<longrightarrow> list_event_true (sys_server s) ev)"
  using recorded_system.reaches_inv [OF assms] by (simp add: record_true_def)

text \<open>The demonstration system after its member sent a message.\<close>

lemma demo_after_message:
  obtains s m where "reaches (sys_start demo_platform) (sys_step demo_platform) s"
    "sys_step demo_platform demo_stream_system s"
    "(5, MessageEv m) \<in> set (written (srv_publisher (sys_server s)))"
    "written (srv_publisher (sys_server s)) \<noteq> written (srv_publisher (sys_server demo_stream_system))"
    "ev_content m = ''hello''"
proof -
  obtain srv' where sent: "SendMessage demo_platform U3 0 (demo_text U2) (demo_text U1) ''hello''
      (sys_server demo_stream_system) = ((status_ok, demo_text U3), srv')"
    and hello: "trim ''hello'' = ''hello''"
    by (rule demo_sent) (simp add: demo_stream_system_def)
  let ?s = "demo_stream_system\<lparr>sys_server := srv'\<rparr>"
  have fresh: "fresh_uuid demo_platform U3 (sys_server demo_stream_system)"
    using demo_stream_fresh by (simp add: demo_stream_system_def)
  have step: "sys_step demo_platform demo_stream_system ?s"
    using send_message [OF fresh, of 0 "demo_text U2" "demo_text U1" "''hello''"] sent by simp
  have live: "live (srv_publisher (sys_server demo_stream_system)) (id_value demo_alice) = Some 5"
    using demo_stream_live by (simp add: demo_stream_system_def)
  have "strong_id_parse demo_platform (trim (demo_text U2)) = Some demo_alice"
    "strong_id_parse demo_platform (trim (demo_text U1)) = Some demo_room" by simp_all
  from accepted_message_events [OF demo_stream_reachable sent this live] obtain ev n where
    ev: "ev = \<lparr>ev_message_id = demo_text U3, ev_channel_id = id_value demo_room, ev_sender_id = id_value demo_alice,
      ev_sender_name = username_value n, ev_content = trim ''hello'', ev_sent_at_ms = to_epoch_ms demo_platform 0\<rparr>"
    "events_to 5 (written (srv_publisher srv')) = events_to 5 (written (srv_publisher (sys_server demo_stream_system))) @
      (if place (abs_chat (sys_server demo_stream_system)) demo_alice = Some demo_room then [MessageEv ev] else [])"
    by blast
  then have ev: "ev_content ev = ''hello''" "events_to 5 (written (srv_publisher srv')) =
      events_to 5 (written (srv_publisher (sys_server demo_stream_system))) @ [MessageEv ev]"
    using demo_places(3) hello by (simp_all add: demo_stream_system_def demo_stream_abs del: abs_chat_sel)
  have "MessageEv ev \<in> set (events_to 5 (written (srv_publisher srv')))"
    by (simp add: ev(2))
  then have "(5, MessageEv ev) \<in> set (written (srv_publisher srv'))"
    by (auto simp: events_to_def)
  moreover have "written (srv_publisher srv') \<noteq> written (srv_publisher (sys_server demo_stream_system))"
    using ev(2) by auto
  ultimately show thesis
    using that [OF reaches_step [OF demo_stream_reachable step] step] ev(1) by simp
qed

theorem reachable_events_true_witness:
  "\<exists>(s :: system) m. ev_content m = ''hello'' \<and> (5, MessageEv m) \<in> set (written (srv_publisher (sys_server s))) \<and>
     event_true (sys_server s) (MessageEv m)"
proof -
  obtain s m where s: "reaches (sys_start demo_platform) (sys_step demo_platform) s"
    "(5, MessageEv m) \<in> set (written (srv_publisher (sys_server s)))" "ev_content m = ''hello''"
    by (rule demo_after_message)
  with reachable_events_true [OF s(1)] show ?thesis by blast
qed

text \<open>
  C5: channels are isolated from each other. Whatever the server does in one step, calls of any client,
  sweeps, streams opened and closed, each channel event it writes goes to an open stream of a client
  that is in the event's channel before or after the step, the event is true, and a message is
  written only while its sender is in that channel too; so nobody receives anything from a channel
  it is not in.
\<close>

theorem streams_isolated:
  assumes reach: "reaches (sys_start P) (sys_step P) s" and step: "sys_step P s s'"
  shows "\<exists>new. written (srv_publisher (sys_server s')) = written (srv_publisher (sys_server s)) @ new \<and>
    (\<forall>(w, ev)\<in>set new. event_true (sys_server s') ev \<and>
      (\<exists>j c x. x \<in> {s, s'} \<and> (w, j) \<in> set (sys_streams x) \<and> event_channel ev = Some (id_value c) \<and>
         place (abs_chat (sys_server x)) j = Some c \<and>
         (\<forall>m. ev = MessageEv m \<longrightarrow> place (abs_chat (sys_server x)) (StrongId (ev_sender_id m)) = Some c)))"
proof -
  have inv: "sys_inv P s" "sys_inv P s'"
    using server_system.reaches_inv reach reaches_step [OF reach step] by blast+
  have honest: "honest P (sys_server s) (sys_server s')"
    by (rule step_honest [OF inv(1) step])
  then obtain new where new: "written (srv_publisher (sys_server s')) = written (srv_publisher (sys_server s)) @ new"
    "\<forall>(w, ev)\<in>set new. told_either (sys_server s) (sys_server s') w ev"
    unfolding honest_def tells_def emits_def by auto
  have one: "\<exists>j c. (w, j) \<in> set (sys_streams x) \<and> event_channel ev = Some (id_value c) \<and>
         place (abs_chat (sys_server x)) j = Some c \<and>
         (\<forall>m. ev = MessageEv m \<longrightarrow> place (abs_chat (sys_server x)) (StrongId (ev_sender_id m)) = Some c)"
    if x: "sys_inv P x" and told: "told (sys_server x) w ev" for x w ev
  proof -
    obtain j c where j: "live (srv_publisher (sys_server x)) (id_value j) = Some w" "event_channel ev = Some (id_value c)"
      "place (abs_chat (sys_server x)) j = Some c"
      "\<And>m. ev = MessageEv m \<Longrightarrow> place (abs_chat (sys_server x)) (StrongId (ev_sender_id m)) = Some (StrongId (ev_channel_id m))"
      using told unfolding told_def by blast
    have "(w, StrongId (id_value j)) \<in> set (sys_streams x)"
      using x j(1) by (simp add: sys_inv_def live_are_open_def del: strong_id.collapse)
    then have "(w, j) \<in> set (sys_streams x)" by simp
    moreover have "place (abs_chat (sys_server x)) (StrongId (ev_sender_id m)) = Some c" if "ev = MessageEv m" for m
      using j(2) j(4) [OF that] that by (simp del: abs_chat_sel)
    ultimately show ?thesis
      using j(2,3) by blast
  qed
  have addressed: "\<exists>j c x. x \<in> {s, s'} \<and> (w, j) \<in> set (sys_streams x) \<and> event_channel ev = Some (id_value c) \<and>
         place (abs_chat (sys_server x)) j = Some c \<and>
         (\<forall>m. ev = MessageEv m \<longrightarrow> place (abs_chat (sys_server x)) (StrongId (ev_sender_id m)) = Some c)"
    and true: "event_true (sys_server s') ev"
    if ev: "told_either (sys_server s) (sys_server s') w ev" for w ev
  proof -
    obtain x where x: "x \<in> {s, s'}" "sys_inv P x" "told (sys_server x) w ev"
      using ev inv by blast
    from one [OF x(2,3)] x(1) show "\<exists>j c x. x \<in> {s, s'} \<and> (w, j) \<in> set (sys_streams x) \<and>
         event_channel ev = Some (id_value c) \<and> place (abs_chat (sys_server x)) j = Some c \<and>
         (\<forall>m. ev = MessageEv m \<longrightarrow> place (abs_chat (sys_server x)) (StrongId (ev_sender_id m)) = Some c)"
      by blast
    show "event_true (sys_server s') ev"
      by (rule told_true [OF honest ev])
  qed
  show ?thesis
    using new(2) by (intro exI [of _ new] conjI new(1)) (auto simp only: case_prod_beta intro!: addressed true)
qed

theorem streams_isolated_witness:
  "\<exists>(s :: system) new w ev. written (srv_publisher (sys_server s)) = written (srv_publisher demo_stream_server) @ new \<and>
     (w, ev) \<in> set new \<and> event_true (sys_server s) ev"
proof -
  obtain s m where s: "sys_step demo_platform demo_stream_system s"
    "written (srv_publisher (sys_server s)) \<noteq> written (srv_publisher (sys_server demo_stream_system))"
    by (rule demo_after_message)
  from streams_isolated [OF demo_stream_reachable s(1)] obtain new where
    new: "written (srv_publisher (sys_server s)) = written (srv_publisher (sys_server demo_stream_system)) @ new"
    "\<forall>(w, ev)\<in>set new. event_true (sys_server s) ev" by blast
  obtain w ev rest where "new = (w, ev) # rest"
    using new(1) s(2) by (cases new) auto
  then have "(w, ev) \<in> set new" "event_true (sys_server s) ev"
    using new(2) by auto
  then show ?thesis
    using new(1) by (metis demo_stream_system_def system.select_convs(1))
qed

end
