(* ===== verification/End_To_End.thy ===== *)
theory End_To_End
  imports Client_Server Authenticity
begin

text \<open>
  A message on its way from one terminal to another: typed by one user, submitted by that user's
  session, accepted by the server, written to the streams of the members, read by the subscription
  of another client, and drawn on that client's screen. What the stream delivers is what was written
  to it, which is the contract of gRPC streams.
\<close>

subsection \<open>Clients of a reachable server\<close>

text \<open>On a server that got where it is by itself, a client with a session is all that the properties of
  the client's session ask for.\<close>

lemma reachable_knows:
  assumes "reaches (sys_start P) (sys_step P) s" and "strong_id_parse P (trim me) = Some i"
    and "user (abs_chat (sys_server s)) i \<noteq> None"
  shows "knows P me i (sys_server s)"
proof -
  have "sys_inv P s \<and> record_true P (sys_server s)"
    using assms(1) by (rule recorded_system.reaches_inv)
  then have "uuid_contract P" "server_inv P (sys_server s)" "values_valid P (sys_server s)"
    by (simp_all add: sys_inv_def record_true_def)
  moreover have "strong_id_parse P (trim (id_value c)) = Some c" if "room (abs_chat (sys_server s)) c \<noteq> None" for c
  proof -
    have "canonical P c"
      using that \<open>values_valid P (sys_server s)\<close> unfolding values_valid_def by blast
    then show ?thesis by (simp add: canonical_def)
  qed
  ultimately show ?thesis
    using assms(2,3) by (simp add: knows_def rooms_canonical_def del: abs_chat_sel)
qed

lemma place_user: "place (abs_chat srv) i = Some c \<Longrightarrow> user (abs_chat srv) i \<noteq> None"
  using place_of_session by fastforce

subsection \<open>Submitting a line\<close>

lemma submit_message:
  assumes "valid_content (trim (ui_input_text a))"
  shows "handleSubmit (session_actions G now_ms) a = sendMessage G (trim (ui_input_text a)) (a\<lparr>ui_input_text := []\<rparr>)"
proof -
  let ?body = "trim (ui_input_text a)"
  have body: "?body \<noteq> []" "hd ?body \<noteq> CHR ''/''" "trim ?body = ?body"
    using assms by (auto simp: valid_content_def)
  have "cmd_type (parseCommand ?body) = NoCommand"
    using body by (simp add: parse_NoCommand_iff)
  moreover have "\<not> starts_with ?body ''/''"
    using body by (simp add: starts_with_slash)
  ultimately show ?thesis
    using body by (simp add: handleSubmit_def handleParsedCommandImpl_def session_actions_def Let_def)
qed

lemma send_accepted:
  assumes known: "knows P me i srv" and fresh: "fresh_uuid P u srv" and here: "place (abs_chat srv) i = Some c"
    and body: "valid_content body"
  obtains srv' where "SendMessage P u t (trim me) (trim (id_value c)) (trim body) srv =
      ((status_ok, uuid_to_string P u), srv')"
proof -
  note k = knowsD [OF known]
  have c: "strong_id_parse P (trim (id_value c)) = Some c"
    using k(3) place_room [OF k(2) here] by (simp add: rooms_canonical_def del: abs_chat_sel)
  have "trim body = body"
    using body by (intro trim_trimmed_id) (simp add: valid_content_def)
  then have create: "MessageContent_create body = Inr (MessageContent body)"
    using body by (auto simp: MessageContent_create_def content_trim_eq valid_content_def Let_def)
  obtain r srv' where run: "SendMessage_execute P u t i c body IncludeSender srv = (r, srv')" by fastforce
  have "(r, abs_chat srv') = chat_send P u t (unat (repo_cap (srv_messages srv))) i c body (abs_chat srv)"
    using SendMessage_refines(2) [OF k(2) fresh, of t i c body IncludeSender] by (simp add: run del: abs_chat_sel)
  then have "r = Inr (strong_id_generate P u)"
    using k(5) place_room [OF k(2) here] here create by (simp add: chat_send_def del: abs_chat_sel)
  then have "SendMessage P u t (trim me) (trim (id_value c)) (trim body) srv = ((status_ok, uuid_to_string P u), srv')"
    using run k(4) c \<open>trim body = body\<close> by (simp add: SendMessage_def strong_id_generate_def)
  then show thesis by (rule that)
qed

lemma send_fields:
  assumes a: "cl_active_channel_id a = id_value c" "id_value c \<noteq> []" "cl_client_id a = me" "cl_net a = srv"
    and sent: "SendMessage P u t (trim me) (trim (id_value c)) (trim body) srv = ((status_ok, mid), srv')"
  shows "sendMessage (server_stub P u t t') body a = a\<lparr>cl_net := srv'\<rparr>"
  using assms by (simp add: sendMessage_def call_def SendMessageCommand_execute_def gateway_sendMessage_def
      server_stub_def Let_def)

subsection \<open>Receiving an event\<close>

definition shown_as :: "message_event \<Rightarrow> inbox_message" where
  "shown_as m = \<lparr>in_message_id = ev_message_id m, in_channel_id = ev_channel_id m, in_sender_name = ev_sender_name m,
     in_content = ev_content m, in_sent_at_ms = ev_sent_at_ms m, in_is_history = False\<rparr>"

lemma subscribed_message:
  "snd (SubscribeCommand_execute [(MessageEv m, now_ms)] status_ok j ch replay p) = showMessage (shown_as m) p"
  by (simp add: SubscribeCommand_execute_def gateway_subscribeToChannel_def on_event_def shouldEmitEventForChannel_def
      event_to_inbox_def inbox_message_default_def shown_as_def Let_def)

lemma message_drawn:
  assumes "length (ui_inbox p) < 50 * k"
  shows "ui_messages (ui_run f (replicate k InDraw) (showMessage m p)) = ui_messages p @ ui_inbox p @ [m]"
proof -
  let ?q = "ui_run f (replicate k InDraw) (showMessage m p)"
  have "ui_inbox ?q = []"
    using assms by (simp add: draws_drain drain_default_def)
  moreover have "held ?q = ui_messages p @ ui_inbox p @ [m]"
    unfolding ui_run_held draws_keep by (simp add: held_def)
  ultimately show ?thesis by (simp add: held_def)
qed

subsection \<open>Property\<close>



end
