(* ===== verification/Client_Lifecycle.thy ===== *)
theory Client_Lifecycle
  imports End_To_End
begin

text \<open>
  The life of a client against a running server: \<open>run\<close> of the client's \<open>main.cpp\<close> from the command
  line to a session, and the clean-up that \<open>FtxuiPresenter::run\<close> performs when its loop ends.
\<close>

lemma connect_server:
  "gateway_connect (server_stub P u t t') name srv =
     (case Connect P u t t' (trim name) srv of ((status, client_id), srv') \<Rightarrow>
        if status_code status = OK then (Inr client_id, srv') else (Inl (statusToError status), srv'))"
  by (simp add: gateway_connect_def server_stub_def status_is_ok_def split: prod.splits)

lemma list_screen:
  "listChannels (server_stub P u t t') c =
     showChannelList (map (channel_name_value \<circ> chan_name) (channels_listAll (srv_channels (cl_net c)))) c"
  by (simp add: listChannels_def call_def list_server comp_def)

lemma listed_names:
  assumes inv: "server_inv P srv"
  shows "set (map (channel_name_value \<circ> chan_name) (channels_listAll (srv_channels srv))) =
    {channel_name_value n |n. \<exists>x. room (abs_chat srv) x = Some n}"
proof (rule set_eqI)
  fix v
  have key: "id_value (chan_id ch) = k" if "channel_at (srv_channels srv) k = Some ch" for k ch
    using channels_wf_entity [OF server_invD(3) [OF inv] that] by simp
  show "v \<in> set (map (channel_name_value \<circ> chan_name) (channels_listAll (srv_channels srv))) \<longleftrightarrow>
      v \<in> {channel_name_value n |n. \<exists>x. room (abs_chat srv) x = Some n}" (is "?l \<longleftrightarrow> ?r")
  proof
    assume ?l
    then obtain ch where "channel_at (srv_channels srv) (id_value (chan_id ch)) = Some ch"
      "v = channel_name_value (chan_name ch)"
      by (auto simp: set_listAll [OF server_invD(3) [OF inv]])
    then have "room (abs_chat srv) (chan_id ch) = Some (chan_name ch) \<and> v = channel_name_value (chan_name ch)"
      by simp
    then show ?r by blast
  next
    assume ?r
    then obtain x n where n: "room (abs_chat srv) x = Some n" "v = channel_name_value n" by blast
    then obtain ch where ch: "channel_at (srv_channels srv) (id_value x) = Some ch" "v = channel_name_value (chan_name ch)"
      by auto
    then have "ch \<in> set (channels_listAll (srv_channels srv))"
      using key [OF ch(1)] by (simp add: set_listAll [OF server_invD(3) [OF inv]])
    then show ?l using ch(2) by simp
  qed
qed

text \<open>
  C13: starting the client. Against a server that got where it is by itself, the client exits with code 1
  and leaves the server as it is exactly when its credentials cannot be built, the trimmed user name
  is invalid, or a connected client has it. Otherwise the server knows the new client under that name
  and in no channel, the session has the identifier the server gave it and no active channel, and the
  screen shows the name and the names of the existing channels.
\<close>

theorem client_starts_session:
  fixes P :: "'u platform" and u :: 'u and a :: client_args and files :: files
  assumes reach: "reaches (sys_start P) (sys_step P) s" and fresh: "fresh_uuid P u (sys_server s)"
  defines "name \<equiv> trim (carg_username a)" and "i \<equiv> strong_id_generate P u"
    and "creds \<equiv> build_credentials files (carg_insecure a) (trim (carg_ca_cert_path a))"
  shows "case client_run (server_stub P u t t') files a (sys_server s) of
      ClientExit code srv \<Rightarrow> code = 1 \<and> srv = sys_server s \<and>
        (creds = None \<or> \<not> valid_username name \<or> user_taken (Username name) (abs_chat (sys_server s)))
    | ClientRunning address credentials level c \<Rightarrow>
        creds = Some credentials \<and> address = trim (carg_server_address a) \<and>
        valid_username name \<and> \<not> user_taken (Username name) (abs_chat (sys_server s)) \<and>
        sys_step P s (s\<lparr>sys_server := cl_net c\<rparr>) \<and>
        abs_chat (cl_net c) = (abs_chat (sys_server s))\<lparr>user := (user (abs_chat (sys_server s)))(i \<mapsto> Username name)\<rparr> \<and>
        place (abs_chat (cl_net c)) i = None \<and>
        knows P (cl_client_id c) i (cl_net c) \<and> cl_client_id c = uuid_to_string P u \<and> cl_active_channel_id c = [] \<and>
        ui_username c = name \<and> set (ui_channel_names c) =
          {channel_name_value n |n. \<exists>x. room (abs_chat (cl_net c)) x = Some n}"
proof (cases creds)
  case None
  then show ?thesis by (simp add: client_run_def creds_def)
next
  case creds: (Some cr)
  let ?srv = "sys_server s" and ?n = "Username name"
  obtain status id srv' where run: "Connect P u t t' name ?srv = ((status, id), srv')"
    by (metis prod.exhaust)
  have inv: "server_inv P ?srv" and contract: "uuid_contract P"
    using server_system.reaches_inv [OF reach] by (simp_all add: sys_inv_def)
  have twice: "trim name = name" by (simp add: name_def)
  have call: "ConnectToServer_execute (server_stub P u t t') name ?srv =
      (if status_code status = OK then (Inr id, srv') else (Inl (statusToError status), srv'))"
    by (simp add: ConnectToServer_execute_def connect_server twice run)
  note connected = Connect_refines [OF inv fresh, of t t' name, unfolded run prod.sel twice]
  have step: "sys_step P s (s\<lparr>sys_server := srv'\<rparr>)"
    using connect [OF fresh, of t t' name] by (simp add: run)
  show ?thesis
  proof (cases "status_code status = OK")
    case False
    then show ?thesis
      using connected(3,4) creds
      by (auto simp: client_run_def call name_def [symmetric] creds_def simp del: abs_chat_sel)
  next
    case True
    have ok: "valid_username name" "\<not> user_taken ?n (abs_chat ?srv)"
      using connected(4) True by blast+
    have id: "id = uuid_to_string P u" and "abs_chat srv' = snd (chat_enter (strong_id_generate P u) ?n (abs_chat ?srv))"
      using connected(5) [OF True] by blast+
    then have abs: "abs_chat srv' = (abs_chat ?srv)\<lparr>user := (user (abs_chat ?srv))(i \<mapsto> ?n)\<rparr>"
      using ok(2) by (simp add: chat_enter_def i_def)
    have "user (abs_chat ?srv) i = None"
      using fresh by (simp add: i_def fresh_uuid_def strong_id_generate_def)
    then have outside: "place (abs_chat srv') i = None"
      using place_user [of ?srv i] by (cases "place (abs_chat ?srv) i") (simp_all add: abs del: abs_chat_sel)
    have parse: "strong_id_parse P (trim id) = Some i"
      using fresh by (simp add: id i_def fresh_uuid_def strong_id_generate_def trim_uuid_text [OF contract]
          strong_id_parse_uuid_text [OF contract])
    have known: "knows P id i srv'"
      using reachable_knows [OF reaches_step [OF reach step] parse] by (simp add: abs del: abs_chat_sel)
    let ?c = "new_client_session (updateConnectionStatus True (\<not> carg_insecure a) name presenter_init) id (carg_replay_count a) srv'"
    let ?names = "map (channel_name_value \<circ> chan_name) (channels_listAll (srv_channels srv'))"
    have fields: "cl_net ?c = srv'" "cl_client_id ?c = id" "cl_active_channel_id ?c = []" "ui_username ?c = name"
      by (simp_all add: new_client_session_def presenter.defs updateConnectionStatus_def post_custom_def)
    define d where "d = showChannelList ?names ?c"
    have d: "cl_net d = srv'" "cl_client_id d = id" "cl_active_channel_id d = []" "ui_username d = name"
      "ui_channel_names d = ?names"
      using fields by (simp_all add: d_def) (simp_all add: showChannelList_def post_custom_def Let_def)
    have result: "client_run (server_stub P u t t') files a ?srv =
        ClientRunning (trim (carg_server_address a)) cr (client_log_level (carg_quiet a) (carg_verbose a)) d"
      using creds True by (simp add: client_run_def call name_def [symmetric] creds_def list_screen fields(1) d_def)
    have names: "set ?names = {channel_name_value n |n. \<exists>x. room (abs_chat srv') x = Some n}"
      by (rule listed_names [OF knowsD(2) [OF known]])
    show ?thesis
      unfolding result client_start.case d
    proof (intro conjI)
      show "creds = Some cr" by (rule creds)
      show "valid_username name" "\<not> user_taken ?n (abs_chat ?srv)" by (rule ok)+
      show "knows P id i srv'" by (rule known)
    qed (rule refl step abs outside id names)+
  qed
qed

definition demo_client_args :: client_args where
  "demo_client_args = \<lparr>carg_server_address = ''localhost:50051'', carg_username = ''bob '', carg_ca_cert_path = [],
     carg_insecure = True, carg_replay_count = 10, carg_verbose = False, carg_quiet = False\<rparr>"

theorem client_starts_session_witness:
  "\<exists>address credentials level c. client_run (server_stub demo_platform U3 0 0) Some demo_client_args demo_server =
     ClientRunning address credentials level c \<and>
     user (abs_chat (cl_net c)) (StrongId (demo_text U3)) = Some (Username ''bob'') \<and> cl_active_channel_id c = []"
proof -
  let ?run = "client_run (server_stub demo_platform U3 0 0) Some demo_client_args demo_server"
  have fresh: "fresh_uuid demo_platform U3 (sys_server (demo_system demo_server))"
    using demo_server_fresh by (simp add: demo_system_def)
  have name: "trim (carg_username demo_client_args) = ''bob''"
    by (simp add: demo_client_args_def trim_def trim_back.simps is_ascii_space_def)
  have valid: "valid_username ''bob''"
    by (simp add: valid_username_def username_allowed_char_def is_alnum_def)
  have free: "\<not> user_taken (Username ''bob'') (abs_chat demo_server)"
    by (auto simp: user_taken_def demo_server_inv(2) simp del: abs_chat_sel)
  have creds: "build_credentials Some (carg_insecure demo_client_args) (trim (carg_ca_cert_path demo_client_args)) \<noteq> None"
    by (simp add: build_credentials_def demo_client_args_def)
  have srv: "sys_server (demo_system demo_server) = demo_server"
    by (simp add: demo_system_def)
  note start = client_starts_session [OF demo_reachable fresh, where t = 0 and t' = 0 and files = Some and
      a = demo_client_args, unfolded srv name demo_generate]
  show ?thesis
  proof (cases ?run)
    case (ClientExit code srv')
    then show ?thesis using start creds valid free by (simp del: abs_chat_sel)
  next
    case (ClientRunning address credentials level c)
    then show ?thesis using start by (simp del: abs_chat_sel)
  qed
qed

text \<open>
  C14: quitting the client cleans up. However the event loop ended, by \<open>/quit\<close> or by a signal, \<open>run\<close>
  returns 0 after it told the client's threads to stop, showed the connection as closed, and
  disconnected: the server no longer has the client in any channel, writes nothing more to its
  stream, and its name is free, so that a client that starts with it again is accepted.
\<close>

theorem quit_frees_name:
  fixes P :: "'u platform"
  assumes known: "knows P (cl_client_id c) i (cl_net c)"
    and quit: "presenter_quit (Some (disconnect (server_stub P u t t'))) c = (code, d)"
  shows "code = 0 \<and> cl_heartbeat_stop d \<and> cl_polling_stop d \<and> ui_connection_state d = Closed \<and>
    abs_chat (cl_net d) = (abs_chat (cl_net c))
      \<lparr>user := (user (abs_chat (cl_net c)))(i := None), place := (place (abs_chat (cl_net c)))(i := None)\<rparr> \<and>
    live (srv_publisher (cl_net d)) (id_value i) = None \<and>
    (\<forall>n v t2 t2'. user (abs_chat (cl_net c)) i = Some n \<longrightarrow> fresh_uuid P v (cl_net d) \<longrightarrow>
       gateway_connect (server_stub P v t2 t2') (username_value n) (cl_net d) =
         (Inr (uuid_to_string P v), cl_net d\<lparr>srv_clients := snd (clients_registerClient P v t2 t2' n (srv_clients (cl_net d)))\<rparr>))"
proof -
  note k = knowsD [OF known]
  let ?c = "updateConnectionState Closed (c\<lparr>cl_heartbeat_stop := True, cl_polling_stop := True\<rparr>)"
  have fields: "cl_net ?c = cl_net c" "cl_client_id ?c = cl_client_id c" "cl_heartbeat_stop ?c" "cl_polling_stop ?c"
    "ui_connection_state ?c = Closed"
    by (simp_all add: updateConnectionState_def post_custom_def)
  obtain status srv' where run: "Disconnect P (cl_client_id c) (cl_net c) = (status, srv')" by fastforce
  have gone: "status = status_ok" "(Inr (), abs_chat srv') = chat_quit i (abs_chat (cl_net c))"
    "\<And>k. live (srv_publisher srv') k = (if k = id_value i then None else live (srv_publisher (cl_net c)) k)"
    using Disconnect_refines(2) [OF k(2), of "cl_client_id c"] k(4,5) by (auto simp: run simp del: abs_chat_sel)
  have inv: "server_inv P srv'"
    using Disconnect_refines(1) [OF k(2), of "cl_client_id c"] by (simp add: run)
  have same: "Disconnect P (trim raw) = Disconnect P raw" for raw
    by (simp add: Disconnect_def fun_eq_iff)
  have "gateway_disconnect (server_stub P u t t') (cl_client_id c) (cl_net c) = (Inr (), srv')"
    by (simp add: gateway_disconnect_def server_stub_def same run gone(1))
  then have d: "d = ?c\<lparr>cl_net := srv'\<rparr>" "code = 0"
    using quit fields(1,2) by (simp_all add: presenter_quit_def disconnect_def Let_def call_def)
  have abs: "abs_chat srv' = (abs_chat (cl_net c))
      \<lparr>user := (user (abs_chat (cl_net c)))(i := None), place := (place (abs_chat (cl_net c)))(i := None)\<rparr>"
    using gone(2) k(5) by (simp add: chat_quit_def split: if_splits del: abs_chat_sel)
  have again: "gateway_connect (server_stub P v t2 t2') (username_value n) srv' =
      (Inr (uuid_to_string P v), srv'\<lparr>srv_clients := snd (clients_registerClient P v t2 t2' n (srv_clients srv'))\<rparr>)"
    if n: "user (abs_chat (cl_net c)) i = Some n" and fresh: "fresh_uuid P v srv'" for n v t2 t2'
  proof -
    obtain s where s: "session_at (srv_clients (cl_net c)) (id_value i) = Some s" "sess_username s = n"
      using n by auto
    then have valid: "valid_username (username_value n)"
      using clients_wf_entity [OF server_invD(4) [OF k(2)] s(1)] by (simp add: session_ok_def)
    have "\<not> user_taken n (abs_chat srv')"
      using n inv_names(2) [OF k(2)] by (auto simp: user_taken_def abs simp del: abs_chat_sel split: if_splits)
    moreover have trim: "trim (username_value n) = username_value n"
      using valid by (rule trim_valid_username)
    ultimately have ok: "status_code (fst (fst (Connect P v t2 t2' (username_value n) srv'))) = OK"
      "snd (fst (Connect P v t2 t2' (username_value n) srv')) = uuid_to_string P v"
      using Connect_refines(4,5) [OF inv fresh, of t2 t2' "username_value n"] valid by simp_all
    have "Username_create (username_value n) = Some n"
      using valid by (simp add: Username_create_iff)
    then have "snd (Connect P v t2 t2' (username_value n) srv') =
        srv'\<lparr>srv_clients := snd (clients_registerClient P v t2 t2' n (srv_clients srv'))\<rparr>"
      by (simp add: Connect_def trim split: sum.splits prod.splits)
    moreover obtain a b x where "Connect P v t2 t2' (username_value n) srv' = ((a, b), x)"
      by (metis prod.exhaust)
    ultimately show ?thesis
      using ok by (simp add: connect_server trim)
  qed
  show ?thesis
    using again by (simp add: d fields abs gone(3) del: abs_chat_sel)
qed

theorem quit_frees_name_witness:
  "\<exists>d. presenter_quit (Some (disconnect (server_stub demo_platform U3 0 0))) (demo_joined []) = (0, d) \<and>
     user (abs_chat (cl_net d)) demo_alice = None \<and> place (abs_chat (cl_net d)) demo_alice = None"
proof -
  obtain code d where quit: "presenter_quit (Some (disconnect (server_stub demo_platform U3 0 0))) (demo_joined []) = (code, d)"
    by fastforce
  have "knows demo_platform (cl_client_id (demo_joined [])) demo_alice (cl_net (demo_joined []))"
    using demo_knows by simp
  from quit_frees_name [OF this quit] show ?thesis
    using quit by (intro exI [of _ d]) (simp del: abs_chat_sel)
qed

end
