(* ===== verification/Client_Threads.thy ===== *)
theory Client_Threads
  imports Client_System Paced_Loop
begin

text \<open>
  The background threads of the client (\<open>startHeartbeat\<close>, \<open>startChannelListPolling\<close> and the watcher of
  the channel's connectivity in \<open>main.cpp\<close>), as loops over readings of the clock and of their stop
  request, and, for the watcher, of the answers of the gRPC channel. What other threads do to the
  client before a reading is part of the reading. The session outlives its threads, since the actions
  of the presenter hold it and it holds the presenter, so that \<open>weak.lock()\<close> finds it.
\<close>

subsection \<open>The heartbeat thread\<close>

datatype beat_pc = BeatLoop | BeatArm | BeatSleep int | BeatCheck | BeatCall | BeatEnded

text \<open>\<open>runHeartbeat\<close> returns to the loop, which looks at the token again.\<close>

fun beat_next :: "int \<Rightarrow> int \<times> bool \<Rightarrow> beat_pc \<Rightarrow> beat_pc" where
  "beat_next heartbeat_interval (now, stop) BeatLoop = (if \<not> stop then BeatArm else BeatEnded)"
| "beat_next heartbeat_interval (now, stop) BeatArm = BeatSleep (now + heartbeat_interval)"
| "beat_next heartbeat_interval (now, stop) (BeatSleep sleep_until_t) =
     (if now < sleep_until_t \<and> \<not> stop then BeatSleep sleep_until_t else BeatCheck)"
| "beat_next heartbeat_interval (now, stop) BeatCheck = (if stop then BeatLoop else BeatCall)"
| "beat_next heartbeat_interval (now, stop) BeatCall = BeatLoop"
| "beat_next heartbeat_interval (now, stop) BeatEnded = BeatEnded"

type_synonym 'n thread_reading = "(int \<times> bool) \<times> ('n client \<Rightarrow> 'n client)"

definition beat_step ::
  "'n stub \<Rightarrow> int \<Rightarrow> 'n thread_reading \<Rightarrow> beat_pc \<times> 'n client \<Rightarrow> beat_pc \<times> 'n client" where
  "beat_step G heartbeat_interval reading st =
     (case (reading, st) of (((now, stop), others), (pc, c)) \<Rightarrow>
        (beat_next heartbeat_interval (now, stop) pc,
         if pc = BeatCall then runHeartbeat G False stop (others c) else others c))"

definition startHeartbeat :: "'n stub \<Rightarrow> int \<Rightarrow> 'n thread_reading list \<Rightarrow> 'n client \<Rightarrow> beat_pc \<times> 'n client" where
  "startHeartbeat G heartbeat_interval readings c = fold (beat_step G heartbeat_interval) readings (BeatLoop, c)"

fun earliest_beat :: "int \<Rightarrow> int \<Rightarrow> beat_pc \<Rightarrow> int" where
  "earliest_beat interval now BeatLoop = now + interval"
| "earliest_beat interval now BeatArm = now + interval"
| "earliest_beat interval now (BeatSleep u) = u"
| "earliest_beat interval now _ = now"

fun beat_rank :: "beat_pc \<Rightarrow> nat" where
  "beat_rank BeatEnded = 0"
| "beat_rank BeatLoop = 1"
| "beat_rank BeatCheck = 2"
| "beat_rank BeatCall = 2"
| "beat_rank (BeatSleep u) = 3"
| "beat_rank BeatArm = 4"

interpretation heartbeat_thread: paced_thread beat_next "\<lambda>pc. pc = BeatCall" BeatEnded earliest_beat beat_rank
proof unfold_locales
  fix pc and d t now :: int and stop
  show "pc \<noteq> BeatEnded \<Longrightarrow> beat_rank (beat_next d (t, True) pc) < beat_rank pc"
    "beat_next d (t, True) pc \<noteq> BeatCall"
    "pc \<noteq> BeatEnded \<Longrightarrow> beat_next d (t, False) pc \<noteq> BeatEnded"
    "now \<le> t \<Longrightarrow> pc \<noteq> BeatCall \<Longrightarrow> earliest_beat d now pc \<le> earliest_beat d t (beat_next d (t, False) pc)"
    by (cases pc; auto)+
qed auto

subsection \<open>The polling thread\<close>

text \<open>\<open>wait_for\<close> on the condition variable returns when the interval is over or the flag is seen.\<close>

datatype poll_pc = PollLoop | PollArm | PollWait int | PollCheck | PollList | PollEnded

fun poll_next :: "int \<Rightarrow> int \<times> bool \<Rightarrow> poll_pc \<Rightarrow> poll_pc" where
  "poll_next interval (now, stop) PollLoop = (if \<not> stop then PollArm else PollEnded)"
| "poll_next interval (now, stop) PollArm = PollWait (now + interval)"
| "poll_next interval (now, stop) (PollWait until) = (if now < until \<and> \<not> stop then PollWait until else PollCheck)"
| "poll_next interval (now, stop) PollCheck = (if stop then PollEnded else PollList)"
| "poll_next interval (now, stop) PollList = PollLoop"
| "poll_next interval (now, stop) PollEnded = PollEnded"

definition poll_step ::
  "'n stub \<Rightarrow> int \<Rightarrow> 'n thread_reading \<Rightarrow> poll_pc \<times> 'n client \<Rightarrow> poll_pc \<times> 'n client" where
  "poll_step G interval reading st =
     (case (reading, st) of (((now, stop), others), (pc, c)) \<Rightarrow>
        (poll_next interval (now, stop) pc, if pc = PollList then listChannels G (others c) else others c))"

definition startChannelListPolling ::
  "'n stub \<Rightarrow> int \<Rightarrow> 'n thread_reading list \<Rightarrow> 'n client \<Rightarrow> poll_pc \<times> 'n client" where
  "startChannelListPolling G interval readings c =
     fold (poll_step G interval) readings (PollLoop, c\<lparr>cl_polling_stop := False\<rparr>)"

fun earliest_poll :: "int \<Rightarrow> int \<Rightarrow> poll_pc \<Rightarrow> int" where
  "earliest_poll interval now PollLoop = now + interval"
| "earliest_poll interval now PollArm = now + interval"
| "earliest_poll interval now (PollWait u) = u"
| "earliest_poll interval now _ = now"

fun poll_rank :: "poll_pc \<Rightarrow> nat" where
  "poll_rank PollEnded = 0"
| "poll_rank PollLoop = 1"
| "poll_rank PollCheck = 1"
| "poll_rank PollList = 2"
| "poll_rank (PollWait u) = 2"
| "poll_rank PollArm = 3"

interpretation polling_thread: paced_thread poll_next "\<lambda>pc. pc = PollList" PollEnded earliest_poll poll_rank
proof unfold_locales
  fix pc and d t now :: int and stop
  show "pc \<noteq> PollEnded \<Longrightarrow> poll_rank (poll_next d (t, True) pc) < poll_rank pc"
    "poll_next d (t, True) pc \<noteq> PollList"
    "pc \<noteq> PollEnded \<Longrightarrow> poll_next d (t, False) pc \<noteq> PollEnded"
    "now \<le> t \<Longrightarrow> pc \<noteq> PollList \<Longrightarrow> earliest_poll d now pc \<le> earliest_poll d t (poll_next d (t, False) pc)"
    by (cases pc; auto)+
qed auto

subsection \<open>The watcher\<close>

text \<open>
  The loop of the watcher ends when a stop is seen at its head or after it waited; each turn is
  \<open>watcher_turn\<close>. A reading has the two looks at the token, the answer of \<open>WaitForStateChange\<close> and
  the state that \<open>GetState\<close> gives.
\<close>

type_synonym 'n watcher_reading = "bool \<times> bool \<times> bool \<times> grpc_channel_state \<times> ('n client \<Rightarrow> 'n client)"

fun watcher_loop ::
  "'n watcher_reading list \<Rightarrow> grpc_channel_state \<times> 'n client \<Rightarrow> bool \<times> grpc_channel_state \<times> 'n client" where
  "watcher_loop [] st = (False, st)"
| "watcher_loop ((stop, changed, stop_requested, new_state, others) # readings) (state, c) =
     (if stop then (True, state, c)
      else if stop_requested then (True, watcher_turn stop_requested changed new_state (state, others c))
      else watcher_loop readings (watcher_turn stop_requested changed new_state (state, others c)))"

text \<open>The watcher never shows the client as connected; only a heartbeat does.\<close>

lemma watcher_report_state:
  "ui_connection_state (watcher_report state p) \<noteq> Connected \<or> ui_connection_state (watcher_report state p) = ui_connection_state p"
  by (cases state) (simp_all add: updateConnectionState_def post_custom_def)

lemma watcher_not_connected:
  assumes "\<forall>(_, _, _, _, others)\<in>set readings. \<forall>c. ui_connection_state c \<noteq> Connected \<longrightarrow> ui_connection_state (others c) \<noteq> Connected"
    and "ui_connection_state c \<noteq> Connected"
  shows "ui_connection_state (snd (snd (watcher_loop readings (state, c)))) \<noteq> Connected"
  using assms
proof (induction readings arbitrary: state c)
  case (Cons r readings)
  obtain stop changed requested new_state others where r: "r = (stop, changed, requested, new_state, others)"
    by (metis prod.exhaust)
  have "ui_connection_state (others c) \<noteq> Connected"
    using Cons.prems r by simp
  then have "ui_connection_state (snd (watcher_turn requested changed new_state (state, others c))) \<noteq> Connected"
    using watcher_report_state [of new_state "others c"] by (auto simp: watcher_turn_def)
  then show ?case
    using Cons.IH Cons.prems r
    by (cases "watcher_turn requested changed new_state (state, others c)") auto
qed simp

subsection \<open>Property\<close>

lemma beat_run_pc:
  "fst (fold (beat_step G interval) readings st) = fold (beat_next interval) (map fst readings) (fst st)"
  by (induction readings arbitrary: st) (auto simp: beat_step_def split: prod.splits)

lemma poll_run_pc:
  "fst (fold (poll_step G interval) readings st) = fold (poll_next interval) (map fst readings) (fst st)"
  by (induction readings arbitrary: st) (auto simp: poll_step_def split: prod.splits)

lemma call_keeps_screen: "ui_connection_state (snd (call f c)) = ui_connection_state (c :: 'n client)"
  by (simp add: call_def split: prod.splits)

lemma beat_silent:
  assumes "\<forall>r\<in>set stops. snd (fst r) \<and> snd r = id"
  shows "ui_connection_state (snd (fold (beat_step G d) stops (pc, c))) = ui_connection_state c"
  using assms
proof (induction stops arbitrary: pc c)
  case (Cons r stops)
  obtain t where r: "r = ((t, True), id)"
    using Cons.prems by (metis list.set_intros(1) prod.collapse)
  have "ui_connection_state (runHeartbeat G False True c) = ui_connection_state c"
    using call_keeps_screen [of "SendHeartbeatCommand_execute G (cl_client_id c)" c]
    by (cases "call (SendHeartbeatCommand_execute G (cl_client_id c)) c") (simp add: runHeartbeat_def)
  then show ?case
    using Cons.IH Cons.prems by (simp add: beat_step_def r)
qed simp

text \<open>
  C33: the background threads of the client keep their pace and stop. Two heartbeats, and two refreshes of
  the channel list, are at least their interval apart, the first ones that long after the threads
  started; and four readings that see a stop request end both threads, whatever they were doing,
  without the heartbeat changing the connection state shown any more. Neither ends without a request.
\<close>

theorem client_threads_spec:
  fixes G :: "'n stub" and readings stops :: "'n thread_reading list"
  assumes clock: "sorted (map (fst \<circ> fst) readings)" "\<forall>r\<in>set readings. start \<le> fst (fst r)"
    and token: "sorted_wrt (\<lambda>a b. snd (fst a) \<longrightarrow> snd (fst b)) readings" and interval: "0 \<le> d"
    and stopped: "\<forall>r\<in>set stops. snd (fst r) \<and> snd r = id" "4 \<le> length stops"
  defines "beats \<equiv> acting_times (beat_next d) (\<lambda>pc. pc = BeatCall) fst BeatLoop (map fst readings)"
    and "polls \<equiv> acting_times (poll_next d) (\<lambda>pc. pc = PollList) fst PollLoop (map fst readings)"
  shows "sorted_wrt (\<lambda>t u. t + d \<le> u) beats \<and> (\<forall>t\<in>set beats. start + d \<le> t) \<and>
    sorted_wrt (\<lambda>t u. t + d \<le> u) polls \<and> (\<forall>t\<in>set polls. start + d \<le> t) \<and>
    fst (startHeartbeat G d (readings @ stops) c) = BeatEnded \<and>
    fst (startChannelListPolling G d (readings @ stops) c) = PollEnded \<and>
    ui_connection_state (snd (startHeartbeat G d (readings @ stops) c)) =
      ui_connection_state (snd (startHeartbeat G d readings c)) \<and>
    (fst (startHeartbeat G d readings c) = BeatEnded \<or> fst (startChannelListPolling G d readings c) = PollEnded \<longrightarrow>
      (\<exists>r\<in>set readings. snd (fst r)))"
proof -
  have times: "sorted (map fst (map fst readings))" "\<forall>r\<in>set (map fst readings). start \<le> fst r"
    "sorted_wrt (\<lambda>a b. snd a \<longrightarrow> snd b) (map fst readings)"
    using clock token by (simp_all add: sorted_wrt_map)
  have all: "\<forall>r\<in>set (map fst stops). snd r"
    using stopped(1) by simp
  have "beat_rank pc \<le> length (map fst stops)" "poll_rank pc' \<le> length (map fst stops)" for pc pc'
    using stopped(2) by (cases pc, simp_all) (cases pc', simp_all)
  note ends = heartbeat_thread.stops [OF all this(1)] polling_thread.stops [OF all this(2)]
  have "ui_connection_state (snd (startHeartbeat G d (readings @ stops) c)) =
      ui_connection_state (snd (startHeartbeat G d readings c))"
    using beat_silent [OF stopped(1)]
    by (cases "fold (beat_step G d) readings (BeatLoop, c)") (simp add: startHeartbeat_def)
  then show ?thesis
    using heartbeat_thread.spaced [OF times(1,3,2) interval, of BeatLoop]
      polling_thread.spaced [OF times(1,3,2) interval, of PollLoop] ends
      heartbeat_thread.stop_needed [of d "map fst readings" BeatLoop]
      polling_thread.stop_needed [of d "map fst readings" PollLoop]
    by (auto simp: startHeartbeat_def startChannelListPolling_def beat_run_pc poll_run_pc beats_def polls_def)
qed

theorem client_threads_spec_witness:
  "acting_times (beat_next 10) (\<lambda>pc. pc = BeatCall) fst BeatLoop
     [(0, False), (0, False), (4, False), (11, False), (11, False), (12, False)] = [12] \<and>
   fst (startHeartbeat demo_stub 10 ([((0, False), id), ((0, False), id), ((4, False), id), ((11, False), id),
     ((11, False), id), ((12, False), id)] @ replicate 4 ((13, True), id)) demo_client0) = BeatEnded"
  using client_threads_spec [of "[((0, False), id), ((0, False), id), ((4, False), id), ((11, False), id),
     ((11, False), id), ((12, False), id)]" 0 10 "replicate 4 ((13, True), id)" demo_stub demo_client0]
  by simp

end
