(* ===== verification/Client_Help.thy ===== *)
theory Client_Help
  imports Client_Screen
begin

text \<open>
  What the help panel of the terminal client promises (\<open>render\<close> in \<open>ftxui_presenter.cpp\<close>), against
  the command parser, the key handler and the server's validation of channel names.
\<close>

subsection \<open>Reading the panel\<close>

text \<open>What a line of the panel tells the user to type: its text up to the first two spaces, with a
  name in the place of the angle brackets.\<close>

fun usage :: "string \<Rightarrow> string" where
  "usage (c # d # rest) = (if c = CHR '' '' \<and> d = CHR '' '' then [] else c # usage (d # rest))"
| "usage rest = rest"

definition fill :: "string \<Rightarrow> string \<Rightarrow> string" where
  "fill name use = (if CHR ''<'' \<in> set use then takeWhile (\<lambda>c. c \<noteq> CHR ''<'') use @ name else use)"

definition advertised :: "string \<Rightarrow> string list" where
  "advertised name = map (\<lambda>l. fill name (usage (drop 2 l))) (filter (\<lambda>l. starts_with l ''  /'') help_panel)"

definition allowed_chars :: string where
  "allowed_chars = ''abcdefghijklmnopqrstuvwxyzABCDEFGHIJKLMNOPQRSTUVWXYZ0123456789-''"

lemma advertised_eq:
  "advertised name = [''/create '' @ name, ''/join '' @ name, ''/leave'', ''/list'', ''/quit'']"
  by (simp add: advertised_def help_panel_def starts_with_def fill_def)

lemma parse_command_iff:
  "cmd_type (parseCommand line) \<notin> {NoCommand, Unknown} \<longleftrightarrow> (\<exists>name. trim line \<in> set (advertised name))"
proof -
  have pre: "starts_with s p \<longleftrightarrow> (\<exists>name. s = p @ name)" for s p
    by (metis append_take_drop_id starts_with_append starts_with_def)
  have "cmd_type (parseCommand line) \<notin> {NoCommand, Unknown} \<longleftrightarrow>
      starts_with (trim line) join_prefix \<or> starts_with (trim line) create_prefix \<or>
      trim line \<in> {''/leave'', ''/list'', ''/quit''}"
    by (simp add: parseCommand_def parsed_command_def Let_def)
  also have "\<dots> \<longleftrightarrow> (\<exists>name. trim line \<in> set (advertised name))"
    unfolding pre advertised_eq by (auto simp: join_prefix_def create_prefix_def)
  finally show ?thesis .
qed

lemma channel_name_char_iff: "channel_name_allowed_char c \<longleftrightarrow> c \<in> set allowed_chars"
proof -
  have "\<forall>c. channel_name_allowed_char c \<longleftrightarrow> c \<in> set allowed_chars"
    by (simp add: channel_name_allowed_char_def is_alnum_def allowed_chars_def) code_simp
  then show ?thesis by blast
qed

subsection \<open>Property\<close>

text \<open>
  The help panel tells the truth. The command lines it advertises, with any name where it asks
  for one, are exactly the lines that are neither messages nor unknown commands; the rule it gives
  for channel names is the server's; the question mark shows and hides it and escape hides it, no
  other event does, and no event it lists as a key is ever typed into the input line.
\<close>

theorem help_panel_spec:
  assumes "event \<notin> {Escape, Character (CHR ''?'')}"
  shows "(cmd_type (parseCommand line) \<notin> {NoCommand, Unknown} \<longleftrightarrow> (\<exists>name. trim line \<in> set (advertised name))) \<and>
    (ChannelName_create n \<noteq> None \<longleftrightarrow> 1 \<le> length n \<and> length n \<le> 64 \<and> set n \<subseteq> set allowed_chars) \<and>
    frame_help (fst (render f (snd (catch_event (Character (CHR ''?'')) p)))) =
      (if frame_help (fst (render f p)) = [] then help_panel else []) \<and>
    frame_help (fst (render f (snd (catch_event Escape p)))) = [] \<and>
    frame_help (fst (render f (snd (catch_event event p)))) = frame_help (fst (render f p)) \<and>
    fst (catch_event (Character (CHR ''?'')) p) \<and> fst (catch_event Escape p) \<and>
    frame_input (fst (render f (snd (catch_event event p)))) = frame_input (fst (render f p))"
proof -
  have panel: "frame_help (fst (render f q)) = (if ui_show_help q then help_panel else [])" for q :: "'a presenter_scheme"
    by (simp add: render_def clampScrollOffsetLocked_def Let_def split: prod.split)
  have input: "frame_input (fst (render f q)) = bar_shown (InputBar (ui_input_text q))" for q :: "'a presenter_scheme"
    by (simp add: render_def clampScrollOffsetLocked_def Let_def split: prod.split)
  have "help_panel \<noteq> []"
    by (simp add: help_panel_def)
  moreover have "ui_show_help (snd (catch_event event p)) = ui_show_help p"
    "ui_input_text (snd (catch_event event p)) = ui_input_text p"
    using assms by (auto simp: catch_event_def handleScrollEvent_def Let_def scrollByLocked_def
        scrollToTopLocked_def scrollToBottomLocked_def)
  moreover have "ui_show_help (snd (catch_event (Character (CHR ''?'')) p)) = (\<not> ui_show_help p)"
    "\<not> ui_show_help (snd (catch_event Escape p))"
    "fst (catch_event (Character (CHR ''?'')) p)" "fst (catch_event Escape p)"
    by (simp_all add: catch_event_def Let_def post_custom_def)
  moreover have "ChannelName_create n \<noteq> None \<longleftrightarrow> 1 \<le> length n \<and> length n \<le> 64 \<and> set n \<subseteq> set allowed_chars"
    by (auto simp: ChannelName_create_None valid_channel_name_def channel_name_char_iff)
  ultimately show ?thesis
    using parse_command_iff [of line] by (simp add: panel input)
qed

theorem help_panel_spec_witness:
  "(\<exists>name. trim ''/join general'' \<in> set (advertised name)) \<and>
   frame_help (fst (render (\<lambda>t. []) (snd (catch_event (Character (CHR ''?'')) presenter_init)))) = help_panel \<and>
   frame_help (fst (render (\<lambda>t. []) (snd (catch_event PageUp presenter_init)))) = []"
proof -
  have closed: "frame_help (fst (render (\<lambda>t. []) presenter_init)) = []"
    by (simp add: render_def clampScrollOffsetLocked_def presenter_init_def inbox_drainTo_def Let_def)
  have "trimmed ''general''" by (simp add: trimmed_def is_ascii_space_def)
  then have "cmd_type (parseCommand ''/join general'') = Join"
    using parse_join(1) [of "''general''"] by (simp add: join_prefix_def)
  then show ?thesis
    using help_panel_spec [of PageUp "''/join general''" "''general''" "\<lambda>t. []" presenter_init] closed by simp
qed

end
