(* ===== verification/Logging.thy ===== *)
theory Logging
  imports Shared_Library
begin

text \<open>
  Logging set-up of both programs (\<open>shared/src/logging.cpp\<close>). The logging library \<open>spdlog\<close> and its
  global registry are the parameter record \<open>spdlog\<close>; what the code relies on is \<open>spdlog_contract\<close>,
  which states the documented behaviour of the registry functions the file calls, and \<open>demo_spdlog\<close>
  is an instance of it. A logger is what it was built from; nothing changes one after it is published.
\<close>

datatype level_enum =
  Level_trace | Level_debug | Level_info | Level_warn | Level_err | Level_critical | Level_off

fun to_spdlog_level :: "LogLevel \<Rightarrow> level_enum" where
  "to_spdlog_level Trace = Level_trace"
| "to_spdlog_level Debug = Level_debug"
| "to_spdlog_level Info = Level_info"
| "to_spdlog_level Warn = Level_warn"
| "to_spdlog_level Error = Level_err"
| "to_spdlog_level Critical = Level_critical"
| "to_spdlog_level Off = Level_off"

datatype stdout_sink = Stdout_color_sink_mt | Stdout_sink_mt

text \<open>The level and the pattern are the library's defaults until they are set.\<close>

record logger =
  log_name :: string
  log_sink :: stdout_sink
  log_level :: "level_enum option"
  log_pattern :: "string option"

definition make_stdout_logger :: "string \<Rightarrow> bool \<Rightarrow> logger" where
  "make_stdout_logger name colorize =
     (if colorize
      then \<lparr>log_name = name, log_sink = Stdout_color_sink_mt, log_level = None, log_pattern = None\<rparr>
      else \<lparr>log_name = name, log_sink = Stdout_sink_mt, log_level = None, log_pattern = None\<rparr>)"

record LoggingConfig =
  conf_level :: LogLevel
  conf_colorize :: bool
  conf_pattern :: string

definition logging_defaults :: LoggingConfig where
  "logging_defaults = \<lparr>conf_level = Info, conf_colorize = True,
     conf_pattern = ''[%Y-%m-%d %H:%M:%S.%e] [%n] [%^%l%$] %v''\<rparr>"

text \<open>Registering a logger throws when its name is taken, here \<open>None\<close>.\<close>

record 'r spdlog =
  spd_default_logger :: "'r \<Rightarrow> logger"
  spd_set_default_logger :: "logger \<Rightarrow> 'r \<Rightarrow> 'r"
  spd_get :: "string \<Rightarrow> 'r \<Rightarrow> logger option"
  spd_register_logger :: "logger \<Rightarrow> 'r \<Rightarrow> 'r option"

definition spdlog_contract :: "'r spdlog \<Rightarrow> bool" where
  "spdlog_contract S \<longleftrightarrow>
     (\<forall>l r. spd_default_logger S (spd_set_default_logger S l r) = l \<and>
            spd_get S (log_name l) (spd_set_default_logger S l r) = Some l) \<and>
     (\<forall>l r. spd_register_logger S l r = None \<longleftrightarrow> spd_get S (log_name l) r \<noteq> None) \<and>
     (\<forall>l r r' n. spd_register_logger S l r = Some r' \<longrightarrow>
        spd_default_logger S r' = spd_default_logger S r \<and>
        spd_get S n r' = (if n = log_name l then Some l else spd_get S n r))"

definition init_logging :: "'r spdlog \<Rightarrow> LoggingConfig \<Rightarrow> 'r \<Rightarrow> 'r" where
  "init_logging S config r =
     (let logger = make_stdout_logger ''bcmd'' (conf_colorize config);
          logger1 = logger\<lparr>log_level := Some (to_spdlog_level (conf_level config))\<rparr>;
          logger2 = logger1\<lparr>log_pattern := Some (conf_pattern config)\<rparr>
      in spd_set_default_logger S logger2 r)"

definition get_logger :: "'r spdlog \<Rightarrow> string \<Rightarrow> 'r \<Rightarrow> (logger \<times> 'r) option" where
  "get_logger S name r =
     (if name = [] then Some (spd_default_logger S r, r)
      else (case spd_get S name r of
              Some existing \<Rightarrow> Some (existing, r)
            | None \<Rightarrow>
                let logger = make_stdout_logger name True
                in map_option (\<lambda>r'. (logger, r')) (spd_register_logger S logger r)))"

text \<open>
  The shared logger of a program is the one \<open>init_logging\<close> made last, with the level and the pattern
  of its configuration; asking for a logger never throws, gives the same logger when asked again, and
  leaves the default logger and the loggers of other names alone.
\<close>

theorem logging_spec:
  assumes contract: "spdlog_contract S"
  defines "shared \<equiv> \<lambda>config. \<lparr>log_name = ''bcmd'',
      log_sink = (if conf_colorize config then Stdout_color_sink_mt else Stdout_sink_mt),
      log_level = Some (to_spdlog_level (conf_level config)), log_pattern = Some (conf_pattern config)\<rparr>"
  shows "get_logger S [] (init_logging S config r) = Some (shared config, init_logging S config r) \<and>
     get_logger S ''bcmd'' (init_logging S config r) = Some (shared config, init_logging S config r) \<and>
     (\<exists>logger r'. get_logger S name r = Some (logger, r') \<and> get_logger S name r' = Some (logger, r') \<and>
        (name \<noteq> [] \<longrightarrow> spd_get S name r' = Some logger) \<and> spd_default_logger S r' = spd_default_logger S r \<and>
        (\<forall>other. other \<noteq> name \<longrightarrow> spd_get S other r' = spd_get S other r))"
proof -
  note laws = contract [unfolded spdlog_contract_def]
  have init: "init_logging S config r = spd_set_default_logger S (shared config) r"
    by (simp add: init_logging_def make_stdout_logger_def shared_def)
  have "spd_get S ''bcmd'' (init_logging S config r) = Some (shared config)"
    using laws by (metis init shared_def logger.select_convs(1))
  moreover have "spd_default_logger S (init_logging S config r) = shared config"
    using laws by (simp add: init)
  moreover have "\<exists>logger r'. get_logger S name r = Some (logger, r') \<and> get_logger S name r' = Some (logger, r') \<and>
      (name \<noteq> [] \<longrightarrow> spd_get S name r' = Some logger) \<and> spd_default_logger S r' = spd_default_logger S r \<and>
      (\<forall>other. other \<noteq> name \<longrightarrow> spd_get S other r' = spd_get S other r)"
  proof (cases "name = [] \<or> spd_get S name r \<noteq> None")
    case True
    then show ?thesis by (auto simp: get_logger_def)
  next
    case False
    let ?l = "make_stdout_logger name True"
    have name: "log_name ?l = name" by (simp add: make_stdout_logger_def)
    obtain r' where r': "spd_register_logger S ?l r = Some r'"
      using laws False name by (metis not_None_eq)
    have reg: "spd_default_logger S r' = spd_default_logger S r \<and>
        spd_get S n r' = (if n = log_name ?l then Some ?l else spd_get S n r)" for n
      using laws r' by blast
    then have "spd_default_logger S r' = spd_default_logger S r"
      "\<And>n. spd_get S n r' = (if n = name then Some ?l else spd_get S n r)"
      by (simp_all add: name)
    then show ?thesis
      using False r' by (auto simp: get_logger_def Let_def)
  qed
  ultimately show ?thesis by (simp add: get_logger_def)
qed

definition demo_spdlog :: "(logger \<times> (string \<Rightarrow> logger option)) spdlog" where
  "demo_spdlog = \<lparr>spd_default_logger = fst, spd_set_default_logger = (\<lambda>l (d, m). (l, m(log_name l \<mapsto> l))),
     spd_get = (\<lambda>n (d, m). m n),
     spd_register_logger = (\<lambda>l (d, m). if m (log_name l) = None then Some (d, m(log_name l \<mapsto> l)) else None)\<rparr>"

lemma demo_spdlog_contract: "spdlog_contract demo_spdlog"
  by (simp add: spdlog_contract_def demo_spdlog_def)

theorem logging_spec_witness:
  "\<exists>l r'. get_logger demo_spdlog ''bcmd'' (init_logging demo_spdlog logging_defaults (make_stdout_logger [] True, Map.empty)) = Some (l, r') \<and>
     log_level l = Some Level_info"
  using logging_spec [OF demo_spdlog_contract, of logging_defaults "(make_stdout_logger [] True, Map.empty)"]
  by (simp add: logging_defaults_def)

end
